(* ===== verification/SingleFlight.thy ===== *)
theory SingleFlight
  imports "HOL-Library.Word"
begin

text \<open>
  Package \<open>scaling\<close>, file \<open>single.go\<close>: goroutines that ask for the same key share one
  execution of the function. The model is a step relation over any number of goroutines: one
  rule per statement of \<open>Do\<close> and of the goroutine it starts, with the mutex, the map of calls
  in flight, the call objects on the heap and their wait groups as shared state.
\<close>

section \<open>State\<close>

type_synonym tid = nat
type_synonym cid = nat

text \<open>A call object: the counter of its wait group and its result (\<open>None\<close> is nil).\<close>

record 'r Call =
  wg :: int
  res :: "'r option"

text \<open>
  Where a goroutine stands. A caller of \<open>Do(key, f)\<close> enters, checks the map under the lock,
  and either leaves with the call it found or creates one, counts it, unlocks and spawns; it
  then waits and returns. The spawned goroutine runs \<open>f\<close>, and under the lock stores the
  result, signals the wait group and deletes the map entry. \<open>Crashed\<close> is a run-time panic.
\<close>

datatype 'r pc =
    Enter string
  | Check string
  | Leave string cid
  | Create string
  | AddWg string cid
  | Unlock string cid
  | Spawn string cid
  | Wait string cid
  | Returned string cid 'r
  | Run string cid
  | LockRes string cid 'r
  | SetRes string cid 'r
  | DoneWg string cid
  | Delete string cid
  | UnlockRes
  | Exited
  | Crashed

text \<open>\<open>runs\<close> is a history variable: the executions of \<open>f\<close> so far, with call, key and result.\<close>

record 'r sf =
  lock :: "tid option"
  inflight :: "string \<Rightarrow> cid option"
  heap :: "cid \<Rightarrow> 'r Call option"
  pcs :: "tid \<Rightarrow> 'r pc option"
  runs :: "(cid \<times> string \<times> 'r) list"

definition NewSingleFlight :: "'r sf" where
  "NewSingleFlight = \<lparr>lock = None, inflight = Map.empty, heap = Map.empty, pcs = Map.empty, runs = []\<rparr>"

abbreviation goto :: "tid \<Rightarrow> 'r pc \<Rightarrow> 'r sf \<Rightarrow> 'r sf" where
  "goto t p s \<equiv> s\<lparr>pcs := (pcs s)(t \<mapsto> p)\<rparr>"

section \<open>Steps\<close>

inductive sf_step :: "'r sf \<Rightarrow> 'r sf \<Rightarrow> bool" where
  lock_enter: "pcs s t = Some (Enter k) \<Longrightarrow> lock s = None \<Longrightarrow>
    sf_step s (goto t (Check k) (s\<lparr>lock := Some t\<rparr>))"
| check_found: "pcs s t = Some (Check k) \<Longrightarrow> inflight s k = Some c \<Longrightarrow>
    sf_step s (goto t (Leave k c) s)"
| check_missing: "pcs s t = Some (Check k) \<Longrightarrow> inflight s k = None \<Longrightarrow>
    sf_step s (goto t (Create k) s)"
| leave: "pcs s t = Some (Leave k c) \<Longrightarrow>
    sf_step s (goto t (Wait k c) (s\<lparr>lock := None\<rparr>))"
| create: "pcs s t = Some (Create k) \<Longrightarrow> heap s c = None \<Longrightarrow>
    sf_step s (goto t (AddWg k c) (s\<lparr>heap := (heap s)(c \<mapsto> \<lparr>wg = 0, res = None\<rparr>),
      inflight := (inflight s)(k \<mapsto> c)\<rparr>))"
| add: "pcs s t = Some (AddWg k c) \<Longrightarrow> heap s c = Some x \<Longrightarrow>
    sf_step s (goto t (Unlock k c) (s\<lparr>heap := (heap s)(c \<mapsto> x\<lparr>wg := wg x + 1\<rparr>)\<rparr>))"
| unlock: "pcs s t = Some (Unlock k c) \<Longrightarrow>
    sf_step s (goto t (Spawn k c) (s\<lparr>lock := None\<rparr>))"
| spawn: "pcs s t = Some (Spawn k c) \<Longrightarrow> pcs s t' = None \<Longrightarrow>
    sf_step s (goto t (Wait k c) (goto t' (Run k c) s))"
| run: "pcs s t = Some (Run k c) \<Longrightarrow>
    sf_step s (goto t (LockRes k c r) (s\<lparr>runs := runs s @ [(c, k, r)]\<rparr>))"
| lock_res: "pcs s t = Some (LockRes k c r) \<Longrightarrow> lock s = None \<Longrightarrow>
    sf_step s (goto t (SetRes k c r) (s\<lparr>lock := Some t\<rparr>))"
| set_res: "pcs s t = Some (SetRes k c r) \<Longrightarrow> heap s c = Some x \<Longrightarrow>
    sf_step s (goto t (DoneWg k c) (s\<lparr>heap := (heap s)(c \<mapsto> x\<lparr>res := Some r\<rparr>)\<rparr>))"
| done_wg: "pcs s t = Some (DoneWg k c) \<Longrightarrow> heap s c = Some x \<Longrightarrow> wg x > 0 \<Longrightarrow>
    sf_step s (goto t (Delete k c) (s\<lparr>heap := (heap s)(c \<mapsto> x\<lparr>wg := wg x - 1\<rparr>)\<rparr>))"
| done_negative: "pcs s t = Some (DoneWg k c) \<Longrightarrow> heap s c = Some x \<Longrightarrow> wg x \<le> 0 \<Longrightarrow>
    sf_step s (goto t Crashed s)"
| delete: "pcs s t = Some (Delete k c) \<Longrightarrow>
    sf_step s (goto t UnlockRes (s\<lparr>inflight := (inflight s)(k := None)\<rparr>))"
| unlock_res: "pcs s t = Some UnlockRes \<Longrightarrow>
    sf_step s (goto t Exited (s\<lparr>lock := None\<rparr>))"
| return: "pcs s t = Some (Wait k c) \<Longrightarrow> heap s c = Some x \<Longrightarrow> wg x = 0 \<Longrightarrow> res x = Some r \<Longrightarrow>
    sf_step s (goto t (Returned k c r) s)"
| return_nil: "pcs s t = Some (Wait k c) \<Longrightarrow> heap s c = Some x \<Longrightarrow> wg x = 0 \<Longrightarrow> res x = None \<Longrightarrow>
    sf_step s (goto t Crashed s)"

text \<open>At any time a new goroutine may call \<open>Do\<close>.\<close>

inductive sf_call :: "'r sf \<Rightarrow> 'r sf \<Rightarrow> bool" where
  call: "pcs s t = None \<Longrightarrow> sf_call s (goto t (Enter k) s)"

inductive sf_reachable :: "'r sf \<Rightarrow> bool" where
  init: "sf_reachable NewSingleFlight"
| call: "sf_reachable s \<Longrightarrow> sf_call s s' \<Longrightarrow> sf_reachable s'"
| step: "sf_reachable s \<Longrightarrow> sf_step s s' \<Longrightarrow> sf_reachable s'"

section \<open>The invariant\<close>

text \<open>The goroutine that drives a call: its creator until it spawns, then the spawned one.\<close>

fun driver :: "'r pc \<Rightarrow> (string \<times> cid) option" where
  "driver (AddWg k c) = Some (k, c)"
| "driver (Unlock k c) = Some (k, c)"
| "driver (Spawn k c) = Some (k, c)"
| "driver (Run k c) = Some (k, c)"
| "driver (LockRes k c r) = Some (k, c)"
| "driver (SetRes k c r) = Some (k, c)"
| "driver (DoneWg k c) = Some (k, c)"
| "driver (Delete k c) = Some (k, c)"
| "driver _ = None"

fun waits :: "'r pc \<Rightarrow> (string \<times> cid) option" where
  "waits (Leave k c) = Some (k, c)"
| "waits (Wait k c) = Some (k, c)"
| "waits (Returned k c r) = Some (k, c)"
| "waits _ = None"

fun holds :: "'r pc \<Rightarrow> bool" where
  "holds (Check k) = True"
| "holds (Leave k c) = True"
| "holds (Create k) = True"
| "holds (AddWg k c) = True"
| "holds (Unlock k c) = True"
| "holds (SetRes k c r) = True"
| "holds (DoneWg k c) = True"
| "holds (Delete k c) = True"
| "holds UnlockRes = True"
| "holds _ = False"

text \<open>What the call object looks like while its driver stands at a given point.\<close>

fun phase_ok :: "'r pc \<Rightarrow> 'r Call \<Rightarrow> bool" where
  "phase_ok (AddWg k c) x = (wg x = 0 \<and> res x = None)"
| "phase_ok (DoneWg k c) x = (wg x = 1 \<and> res x \<noteq> None)"
| "phase_ok (Delete k c) x = (wg x = 0 \<and> res x \<noteq> None)"
| "phase_ok p x = (wg x = 1 \<and> res x = None)"

fun before_run :: "'r pc \<Rightarrow> bool" where
  "before_run (AddWg k c) = True"
| "before_run (Unlock k c) = True"
| "before_run (Spawn k c) = True"
| "before_run (Run k c) = True"
| "before_run _ = False"

fun carries :: "'r pc \<Rightarrow> 'r option" where
  "carries (LockRes k c r) = Some r"
| "carries (SetRes k c r) = Some r"
| "carries _ = None"

text \<open>\<open>driven m k c\<close>: some goroutine drives call \<open>c\<close> for key \<open>k\<close>.\<close>

definition driven :: "(tid \<Rightarrow> 'r pc option) \<Rightarrow> string \<Rightarrow> cid \<Rightarrow> bool" where
  "driven m k c \<longleftrightarrow> (\<exists>t p. m t = Some p \<and> driver p = Some (k, c))"

definition inv_lock :: "'r sf \<Rightarrow> bool" where
  "inv_lock s \<longleftrightarrow> (\<forall>t. lock s = Some t \<longleftrightarrow> (\<exists>p. pcs s t = Some p \<and> holds p))"

definition drivers_ok :: "(string \<Rightarrow> cid option) \<Rightarrow> (cid \<Rightarrow> 'r Call option) \<Rightarrow> (tid \<Rightarrow> 'r pc option) \<Rightarrow> bool" where
  "drivers_ok i h m \<longleftrightarrow> (\<forall>t p k c. m t = Some p \<longrightarrow> driver p = Some (k, c) \<longrightarrow>
     i k = Some c \<and> (\<exists>x. h c = Some x \<and> phase_ok p x))"

definition inv_driver :: "'r sf \<Rightarrow> bool" where
  "inv_driver s \<longleftrightarrow> drivers_ok (inflight s) (heap s) (pcs s)"

definition unique_drivers :: "(tid \<Rightarrow> 'r pc option) \<Rightarrow> bool" where
  "unique_drivers m \<longleftrightarrow> (\<forall>t t' p p' k k' c. m t = Some p \<longrightarrow> m t' = Some p' \<longrightarrow>
     driver p = Some (k, c) \<longrightarrow> driver p' = Some (k', c) \<longrightarrow> t = t')"

definition inv_unique :: "'r sf \<Rightarrow> bool" where
  "inv_unique s \<longleftrightarrow> unique_drivers (pcs s)"

definition inv_inflight :: "'r sf \<Rightarrow> bool" where
  "inv_inflight s \<longleftrightarrow> (\<forall>k c. inflight s k = Some c \<longrightarrow> driven (pcs s) k c)"

definition inv_heap :: "'r sf \<Rightarrow> bool" where
  "inv_heap s \<longleftrightarrow> (\<forall>c x. heap s c = Some x \<longrightarrow>
     (\<exists>k. driven (pcs s) k c) \<or> wg x = 0 \<and> res x \<noteq> None)"

definition inv_waits :: "'r sf \<Rightarrow> bool" where
  "inv_waits s \<longleftrightarrow> (\<forall>t p k c. pcs s t = Some p \<longrightarrow> waits p = Some (k, c) \<longrightarrow>
     heap s c \<noteq> None \<and> (\<forall>t' k'. pcs s t' \<noteq> Some (AddWg k' c)))"

definition inv_returned :: "'r sf \<Rightarrow> bool" where
  "inv_returned s \<longleftrightarrow> (\<forall>t k c r. pcs s t = Some (Returned k c r) \<longrightarrow>
     (\<exists>x. heap s c = Some x \<and> wg x = 0 \<and> res x = Some r))"

definition inv_create :: "'r sf \<Rightarrow> bool" where
  "inv_create s \<longleftrightarrow> (\<forall>t k. pcs s t = Some (Create k) \<longrightarrow> inflight s k = None)"

definition inv_safe :: "'r sf \<Rightarrow> bool" where
  "inv_safe s \<longleftrightarrow> (\<forall>t. pcs s t \<noteq> Some Crashed) \<and> finite (dom (pcs s))"

definition inv_runs :: "'r sf \<Rightarrow> bool" where
  "inv_runs s \<longleftrightarrow> distinct (map fst (runs s))
     \<and> (\<forall>c k r. (c, k, r) \<in> set (runs s) \<longrightarrow> heap s c \<noteq> None \<and>
          (\<forall>t p k'. pcs s t = Some p \<longrightarrow> driver p = Some (k', c) \<longrightarrow> \<not> before_run p))
     \<and> (\<forall>t p k c r. pcs s t = Some p \<longrightarrow> driver p = Some (k, c) \<longrightarrow> carries p = Some r \<longrightarrow>
          (c, k, r) \<in> set (runs s))
     \<and> (\<forall>c x r. heap s c = Some x \<longrightarrow> res x = Some r \<longrightarrow> (\<exists>k. (c, k, r) \<in> set (runs s)))"

text \<open>A caller waits for a call of its own key, and a call is executed for the key it was made for.\<close>

definition inv_keys :: "'r sf \<Rightarrow> bool" where
  "inv_keys s \<longleftrightarrow> (\<forall>t p k c. pcs s t = Some p \<longrightarrow> waits p = Some (k, c) \<longrightarrow>
       driven (pcs s) k c \<or> (\<exists>r. (c, k, r) \<in> set (runs s)))
     \<and> (\<forall>t p k k' c r. pcs s t = Some p \<longrightarrow> driver p = Some (k, c) \<longrightarrow>
       (c, k', r) \<in> set (runs s) \<longrightarrow> k' = k)"

definition sf_inv :: "'r sf \<Rightarrow> bool" where
  "sf_inv s \<longleftrightarrow> inv_lock s \<and> inv_driver s \<and> inv_unique s \<and> inv_inflight s \<and> inv_heap s \<and>
     inv_waits s \<and> inv_returned s \<and> inv_create s \<and> inv_safe s \<and> inv_runs s \<and> inv_keys s"

lemmas inv_defs = inv_lock_def inv_driver_def inv_unique_def inv_inflight_def inv_heap_def
  inv_waits_def inv_returned_def inv_create_def inv_safe_def inv_runs_def inv_keys_def unique_drivers_def drivers_ok_def driven_def

lemma sf_inv_init: "sf_inv NewSingleFlight"
  by (simp add: sf_inv_def inv_defs NewSingleFlight_def)

lemma phase_wg: "phase_ok p x \<Longrightarrow> driver p \<noteq> None \<Longrightarrow> wg x = 0 \<or> wg x = 1"
  by (cases p) auto

lemma holder_unique: "inv_lock s \<Longrightarrow> pcs s t = Some p \<Longrightarrow> holds p \<Longrightarrow> pcs s t' = Some p' \<Longrightarrow> holds p' \<Longrightarrow> t = t'"
  unfolding inv_lock_def by (metis option.inject)

section \<open>Every step keeps it\<close>

lemma step_inv_lock: "sf_step s s' \<Longrightarrow> inv_lock s \<Longrightarrow> inv_safe s' \<Longrightarrow> inv_lock s'"
  by (induction rule: sf_step.induct)
    (auto simp: inv_lock_def inv_safe_def split: if_splits, (metis holds.simps option.inject)+)

lemma done_positive: "sf_inv s \<Longrightarrow> pcs s t = Some (DoneWg k c) \<Longrightarrow> heap s c = Some x \<Longrightarrow> wg x = 1"
  unfolding sf_inv_def inv_driver_def drivers_ok_def by fastforce

lemma step_inv_safe: "sf_step s s' \<Longrightarrow> sf_inv s \<Longrightarrow> inv_safe s'"
proof (induction rule: sf_step.induct)
  case (done_negative s t k c x)
  with done_positive [of s t k c x] show ?case by simp
next
  case (return_nil s t k0 c x)
  then have i: "inv_heap s" "inv_driver s" "inv_waits s" by (simp_all add: sf_inv_def)
  have "\<exists>t' p k. pcs s t' = Some p \<and> driver p = Some (k, c)"
    using i(1) return_nil unfolding inv_heap_def driven_def by blast
  then obtain t' p k where p: "pcs s t' = Some p" "driver p = Some (k, c)" by blast
  then have "phase_ok p x" using i(2) return_nil unfolding inv_driver_def drivers_ok_def by fastforce
  then have "\<exists>k. p = AddWg k c" using p return_nil by (cases p) auto
  with p(1) return_nil i(3) show ?case unfolding inv_waits_def by fastforce
qed (auto simp: sf_inv_def inv_safe_def)

lemma step_inv_create: "sf_step s s' \<Longrightarrow> sf_inv s \<Longrightarrow> inv_create s'"
proof (induction rule: sf_step.induct)
  case (create s t k c)
  then have l: "inv_lock s" by (simp add: sf_inv_def)
  have "pcs s t' \<noteq> Some (Create k')" if "t' \<noteq> t" for t' k'
    using holder_unique [OF l, of t "Create k" t' "Create k'"] create that by auto
  with create show ?case by (auto simp: sf_inv_def inv_create_def split: if_splits)
qed (auto simp: sf_inv_def inv_create_def split: if_splits)

lemma step_inv_waits: "sf_step s s' \<Longrightarrow> sf_inv s \<Longrightarrow> inv_waits s'"
proof (induction rule: sf_step.induct)
  case (check_found s t k c)
  then have l: "inv_lock s" and "inv_inflight s" "inv_driver s" "inv_waits s" by (simp_all add: sf_inv_def)
  have "pcs s t' \<noteq> Some (AddWg k' c)" for t' k'
    using holder_unique [OF l, of t "Check k" t' "AddWg k' c"] check_found by auto
  moreover have "heap s c \<noteq> None"
    using \<open>inv_inflight s\<close> \<open>inv_driver s\<close> check_found
    unfolding inv_inflight_def inv_driver_def driven_def drivers_ok_def by blast
  ultimately show ?case using \<open>inv_waits s\<close> by (auto simp: inv_waits_def split: if_splits)
next
  case (create s t k c)
  then have "inv_waits s" by (simp add: sf_inv_def)
  with create show ?case by (fastforce simp: inv_waits_def split: if_splits)
next
  case (spawn s t k c t')
  then have i: "inv_waits s" "inv_driver s" "inv_unique s" by (simp_all add: sf_inv_def)
  have "heap s c \<noteq> None" using i(2) spawn unfolding inv_driver_def drivers_ok_def by fastforce
  moreover have "pcs s t'' \<noteq> Some (AddWg k' c)" for t'' k'
    using i(3) spawn unfolding inv_unique_def unique_drivers_def by fastforce
  ultimately show ?case using i(1) spawn by (auto simp: inv_waits_def split: if_splits)
qed (auto simp: sf_inv_def inv_waits_def split: if_splits)

lemma driven_same: "m t = Some p \<Longrightarrow> driver p' = driver p \<Longrightarrow> driven (m(t \<mapsto> p')) k c = driven m k c"
  unfolding driven_def by (metis fun_upd_apply option.inject)

lemma driven_start:
  assumes "m t = None \<or> (\<exists>p. m t = Some p \<and> driver p = None)" "driver p' = Some (k', c')"
  shows "driven (m(t \<mapsto> p')) k c = (driven m k c \<or> k = k' \<and> c = c')"
proof
  assume "driven (m(t \<mapsto> p')) k c"
  then show "driven m k c \<or> k = k' \<and> c = c'"
    using assms(2) unfolding driven_def by (auto split: if_splits)
next
  assume "driven m k c \<or> k = k' \<and> c = c'"
  then show "driven (m(t \<mapsto> p')) k c"
  proof
    assume "driven m k c"
    then obtain t1 p1 where 1: "m t1 = Some p1" "driver p1 = Some (k, c)" unfolding driven_def by blast
    with assms(1) have "t1 \<noteq> t" by auto
    with 1 show ?thesis unfolding driven_def by (intro exI [of _ t1]) simp
  next
    assume "k = k' \<and> c = c'"
    with assms(2) show ?thesis unfolding driven_def by (intro exI [of _ t]) simp
  qed
qed

lemma driven_stop:
  assumes "inv_unique s" "pcs s t = Some p" "driver p = Some (k', c')" "driver p' = None"
  shows "driven ((pcs s)(t \<mapsto> p')) k c = (driven (pcs s) k c \<and> c \<noteq> c')"
proof
  assume "driven ((pcs s)(t \<mapsto> p')) k c"
  then obtain t1 p1 where 1: "((pcs s)(t \<mapsto> p')) t1 = Some p1" "driver p1 = Some (k, c)"
    unfolding driven_def by blast
  with assms(4) have t1: "t1 \<noteq> t" by auto
  with 1 have "pcs s t1 = Some p1" by simp
  moreover have "c \<noteq> c'" using assms 1 t1 calculation unfolding inv_unique_def unique_drivers_def by blast
  ultimately show "driven (pcs s) k c \<and> c \<noteq> c'" using 1 unfolding driven_def by blast
next
  assume "driven (pcs s) k c \<and> c \<noteq> c'"
  then show "driven ((pcs s)(t \<mapsto> p')) k c"
    using assms(2,3) unfolding driven_def by (metis fun_upd_apply option.inject prod.inject)
qed

text \<open>How moves of one goroutine keep the drivers unique.\<close>

lemma unique_same:
  assumes "unique_drivers m" "m t = Some p" "driver p' = driver p"
  shows "unique_drivers (m(t \<mapsto> p'))"
  unfolding unique_drivers_def
proof (intro allI impI)
  fix t1 t2 p1 p2 k k' c
  assume 1: "(m(t \<mapsto> p')) t1 = Some p1" "(m(t \<mapsto> p')) t2 = Some p2"
    "driver p1 = Some (k, c)" "driver p2 = Some (k', c)"
  have "\<exists>q. m t0 = Some q \<and> driver q = driver p0" if "(m(t \<mapsto> p')) t0 = Some p0" for t0 p0
    using that assms by (auto split: if_splits)
  with 1 obtain q1 q2 where "m t1 = Some q1" "m t2 = Some q2" "driver q1 = Some (k, c)"
    "driver q2 = Some (k', c)" by metis
  with assms(1) show "t1 = t2" unfolding unique_drivers_def by blast
qed

lemma unique_stop: "unique_drivers m \<Longrightarrow> driver p' = None \<Longrightarrow> unique_drivers (m(t \<mapsto> p'))"
  unfolding unique_drivers_def by (auto split: if_splits)

lemma unique_start:
  assumes "unique_drivers m" "driver p' = Some (k, c)"
    and "\<And>t1 p1 k1. m t1 = Some p1 \<Longrightarrow> t1 \<noteq> t \<Longrightarrow> driver p1 \<noteq> Some (k1, c)"
  shows "unique_drivers (m(t \<mapsto> p'))"
  using assms unfolding unique_drivers_def by (auto split: if_splits)

lemma step_inv_unique: "sf_step s s' \<Longrightarrow> sf_inv s \<Longrightarrow> inv_unique s'"
proof (induction rule: sf_step.induct)
  case (create s t k c)
  then have "inv_unique s" and "inv_driver s" by (simp_all add: sf_inv_def)
  then have "driver p \<noteq> Some (k', c)" if "pcs s t' = Some p" for t' p k'
    using create that unfolding inv_driver_def drivers_ok_def by fastforce
  with \<open>inv_unique s\<close> show ?case by (simp add: inv_unique_def unique_start)
next
  case (spawn s t k c t')
  then have u: "inv_unique s" by (simp add: sf_inv_def)
  let ?m = "(pcs s)(t \<mapsto> Wait k c)"
  have "driver p \<noteq> Some (k', c)" if "?m t'' = Some p" for t'' p k'
    using u spawn that unfolding inv_unique_def unique_drivers_def by (fastforce split: if_splits)
  moreover have "unique_drivers ?m" using u by (simp add: inv_unique_def unique_stop)
  ultimately have "unique_drivers (?m(t' \<mapsto> Run k c))" using unique_start [of ?m "Run k c" k c t'] by simp
  moreover have "t \<noteq> t'" using spawn by auto
  ultimately show ?case by (simp add: inv_unique_def fun_upd_twist)
qed (simp_all add: sf_inv_def inv_unique_def unique_same unique_stop)

lemma step_inv_inflight: "sf_step s s' \<Longrightarrow> sf_inv s \<Longrightarrow> inv_inflight s'"
proof (induction rule: sf_step.induct)
  case (spawn s t k c t')
  then have "inv_unique s" "inv_inflight s" by (simp_all add: sf_inv_def)
  let ?m = "(pcs s)(t' \<mapsto> Run k c)"
  have "driven (?m(t \<mapsto> Wait k c)) k0 c0" if "driven (pcs s) k0 c0" for k0 c0
    using that spawn unfolding driven_def
    by (metis driver.simps(3,4) fun_upd_apply option.distinct(1) option.inject)
  with \<open>inv_inflight s\<close> show ?case by (simp add: inv_inflight_def)
next
  case (delete s t k c)
  then have "inv_unique s" "inv_inflight s" by (simp_all add: sf_inv_def)
  moreover have "inflight s k = Some c" using delete unfolding sf_inv_def inv_driver_def drivers_ok_def by fastforce
  moreover have "c0 \<noteq> c" if "driven (pcs s) k0 c0" "k0 \<noteq> k" for k0 c0
  proof
    assume "c0 = c"
    with that obtain t1 p1 where "pcs s t1 = Some p1" "driver p1 = Some (k0, c)"
      unfolding driven_def by blast
    moreover from this have "t1 = t" using \<open>inv_unique s\<close> delete unfolding inv_unique_def unique_drivers_def by fastforce
    ultimately show False using delete that by auto
  qed
  ultimately show ?case
    using driven_stop [of s t "Delete k c" k c UnlockRes] delete by (auto simp: inv_inflight_def)
next
  case (create s t k c)
  then show ?case by (auto simp: sf_inv_def inv_inflight_def driven_start)
next
  case (done_negative s t k c x)
  then show ?case using done_positive by fastforce
qed (auto simp: sf_inv_def inv_inflight_def driven_same)

lemma driver_keep:
  assumes "drivers_ok i h m" "unique_drivers m" "m t = Some p" "driver p = Some (k, c)"
    "driver p' = Some (k, c)" "phase_ok p' x"
  shows "drivers_ok i (h(c \<mapsto> x)) (m(t \<mapsto> p'))"
  unfolding drivers_ok_def
proof (intro allI impI)
  fix t1 p1 k1 c1
  assume 1: "(m(t \<mapsto> p')) t1 = Some p1" "driver p1 = Some (k1, c1)"
  show "i k1 = Some c1 \<and> (\<exists>y. (h(c \<mapsto> x)) c1 = Some y \<and> phase_ok p1 y)"
  proof (cases "t1 = t")
    case True
    with 1 assms have "p1 = p'" "k1 = k" "c1 = c" by auto
    moreover have "i k = Some c" using assms(1,3,4) unfolding drivers_ok_def by blast
    ultimately show ?thesis using assms by simp
  next
    case False
    with 1 have m1: "m t1 = Some p1" by simp
    with 1 assms False have "c1 \<noteq> c" unfolding unique_drivers_def by blast
    moreover have "i k1 = Some c1 \<and> (\<exists>y. h c1 = Some y \<and> phase_ok p1 y)"
      using m1 1 assms(1) unfolding drivers_ok_def by blast
    ultimately show ?thesis by simp
  qed
qed

lemma driver_other: "drivers_ok i h m \<Longrightarrow> driver p' = None \<Longrightarrow> drivers_ok i h (m(t \<mapsto> p'))"
  unfolding drivers_ok_def by (auto split: if_splits)

lemma driver_heap:
  "drivers_ok i h m \<Longrightarrow> m t = Some p \<Longrightarrow> driver p = Some (k, c) \<Longrightarrow>
   \<exists>x. h c = Some x \<and> phase_ok p x \<and> i k = Some c"
  unfolding drivers_ok_def by blast

text \<open>The same goroutine goes on driving, with the call object as it is.\<close>

lemma driver_same:
  assumes "drivers_ok i h m" "unique_drivers m" "m t = Some p" "driver p = Some (k, c)"
    "driver p' = Some (k, c)" "\<And>x. phase_ok p x \<Longrightarrow> phase_ok p' x"
  shows "drivers_ok i h (m(t \<mapsto> p'))"
proof -
  obtain x where "h c = Some x" "phase_ok p x" using driver_heap [OF assms(1,3,4)] by blast
  with driver_keep [OF assms(1-5), of x] assms(6) show ?thesis by (simp add: fun_upd_idem)
qed

lemma step_inv_driver: "sf_step s s' \<Longrightarrow> sf_inv s \<Longrightarrow> inv_driver s'"
proof (induction rule: sf_step.induct)
  case (create s t k c)
  then have i: "inv_driver s" "inflight s k = None" by (auto simp: sf_inv_def inv_create_def)
  have "k1 \<noteq> k \<and> c1 \<noteq> c" if "pcs s t1 = Some p1" "driver p1 = Some (k1, c1)" for t1 p1 k1 c1
    using i that create unfolding inv_driver_def drivers_ok_def by fastforce
  with i show ?case unfolding inv_driver_def drivers_ok_def by (auto split: if_splits)
next
  case (add s t k c x)
  then have i: "drivers_ok (inflight s) (heap s) (pcs s)" "unique_drivers (pcs s)"
    by (simp_all add: sf_inv_def inv_driver_def inv_unique_def)
  from driver_heap [OF i(1) add(1)] add show ?case
    by (simp add: inv_driver_def driver_keep [OF i add(1)])
next
  case (unlock s t k c)
  then have i: "drivers_ok (inflight s) (heap s) (pcs s)" "unique_drivers (pcs s)"
    by (simp_all add: sf_inv_def inv_driver_def inv_unique_def)
  from driver_same [OF i unlock(1), of k c "Spawn k c"] show ?case by (simp add: inv_driver_def)
next
  case (spawn s t k c t')
  then have i: "drivers_ok (inflight s) (heap s) (pcs s)" by (simp add: sf_inv_def inv_driver_def)
  from driver_heap [OF i spawn(1)] i show ?case
    unfolding inv_driver_def drivers_ok_def by (auto split: if_splits)
next
  case (run s t k c r)
  then have i: "drivers_ok (inflight s) (heap s) (pcs s)" "unique_drivers (pcs s)"
    by (simp_all add: sf_inv_def inv_driver_def inv_unique_def)
  from driver_same [OF i run(1), of k c "LockRes k c r"] show ?case by (simp add: inv_driver_def)
next
  case (lock_res s t k c r)
  then have i: "drivers_ok (inflight s) (heap s) (pcs s)" "unique_drivers (pcs s)"
    by (simp_all add: sf_inv_def inv_driver_def inv_unique_def)
  from driver_same [OF i lock_res(1), of k c "SetRes k c r"] show ?case by (simp add: inv_driver_def)
next
  case (set_res s t k c r x)
  then have i: "drivers_ok (inflight s) (heap s) (pcs s)" "unique_drivers (pcs s)"
    by (simp_all add: sf_inv_def inv_driver_def inv_unique_def)
  from driver_heap [OF i(1) set_res(1)] set_res show ?case
    by (simp add: inv_driver_def driver_keep [OF i set_res(1)])
next
  case (done_wg s t k c x)
  then have i: "drivers_ok (inflight s) (heap s) (pcs s)" "unique_drivers (pcs s)"
    by (simp_all add: sf_inv_def inv_driver_def inv_unique_def)
  from driver_heap [OF i(1) done_wg(1)] done_wg show ?case
    by (simp add: inv_driver_def driver_keep [OF i done_wg(1)])
next
  case (delete s t k c)
  then have i: "inv_driver s" "inv_unique s" by (simp_all add: sf_inv_def)
  have "k1 \<noteq> k" if "pcs s t1 = Some p1" "driver p1 = Some (k1, c1)" "t1 \<noteq> t" for t1 p1 k1 c1
  proof
    assume "k1 = k"
    moreover have "inflight s k = Some c"
      using driver_heap [OF i(1) [unfolded inv_driver_def] delete(1)] by auto
    moreover have "inflight s k1 = Some c1"
      using driver_heap [OF i(1) [unfolded inv_driver_def] that(1,2)] by auto
    ultimately have "c1 = c" by simp
    with that i(2) delete(1) have "t1 = t"
      unfolding inv_unique_def unique_drivers_def by (metis driver.simps(8))
    with that show False by simp
  qed
  with i show ?case unfolding inv_driver_def drivers_ok_def by (auto split: if_splits)
qed (simp_all add: sf_inv_def inv_driver_def driver_other)

text \<open>The call object of a waiting goroutine is not driven any more once its counter is zero.\<close>

lemma call_done:
  assumes "sf_inv s" "heap s c = Some x" "wg x = 0" "\<And>t k. pcs s t \<noteq> Some (AddWg k c)"
  obtains r where "res x = Some r"
proof -
  have "res x \<noteq> None"
  proof (cases "\<exists>k. driven (pcs s) k c")
    case True
    then obtain t p k where p: "pcs s t = Some p" "driver p = Some (k, c)" unfolding driven_def by blast
    with assms have "phase_ok p x" unfolding sf_inv_def inv_driver_def drivers_ok_def by fastforce
    with p assms show ?thesis by (cases p) auto
  next
    case False
    with assms show ?thesis unfolding sf_inv_def inv_heap_def by blast
  qed
  with that show thesis by auto
qed

lemma step_inv_heap: "sf_step s s' \<Longrightarrow> sf_inv s \<Longrightarrow> inv_heap s'"
proof (induction rule: sf_step.induct)
  case (create s t k c)
  then have "inv_heap s" by (simp add: sf_inv_def)
  with create show ?case by (auto simp: inv_heap_def driven_start)
next
  case (spawn s t k c t')
  then have "inv_heap s" by (simp_all add: sf_inv_def)
  let ?m = "(pcs s)(t' \<mapsto> Run k c)"
  have "driven (?m(t \<mapsto> Wait k c)) k0 c0" if "driven (pcs s) k0 c0" for k0 c0
    using that spawn unfolding driven_def
    by (metis driver.simps(3,4) fun_upd_apply option.distinct(1) option.inject)
  with \<open>inv_heap s\<close> show ?case by (simp add: inv_heap_def) blast
next
  case (delete s t k c)
  then have i: "inv_unique s" "inv_heap s" "inv_driver s" by (simp_all add: sf_inv_def)
  from i(3) delete have "\<exists>x. heap s c = Some x \<and> wg x = 0 \<and> res x \<noteq> None"
    unfolding inv_driver_def drivers_ok_def by fastforce
  with i(2) delete driven_stop [OF i(1) delete(1), of k c UnlockRes] show ?case
    by (auto simp: inv_heap_def)
next
  case (done_negative s t k c x)
  then show ?case using done_positive by fastforce
next
  case (add s t k c x)
  then have "driven (pcs s) k c" unfolding driven_def by fastforce
  with add show ?case by (auto simp: sf_inv_def inv_heap_def driven_same)
next
  case (set_res s t k c r x)
  then have "driven (pcs s) k c" unfolding driven_def by fastforce
  with set_res show ?case by (auto simp: sf_inv_def inv_heap_def driven_same)
next
  case (done_wg s t k c x)
  then have "driven (pcs s) k c" unfolding driven_def by fastforce
  with done_wg show ?case by (auto simp: sf_inv_def inv_heap_def driven_same)
qed (auto simp: sf_inv_def inv_heap_def driven_same)

lemma step_inv_returned: "sf_step s s' \<Longrightarrow> sf_inv s \<Longrightarrow> inv_returned s'"
proof (induction rule: sf_step.induct)
  case (create s t k c)
  then show ?case by (fastforce simp: sf_inv_def inv_returned_def split: if_splits)
next
  case (add s t k c x)
  then have "pcs s t' \<noteq> Some (Returned k' c r)" for t' k' r
    unfolding sf_inv_def inv_waits_def by fastforce
  with add show ?case by (auto simp: sf_inv_def inv_returned_def split: if_splits)
next
  case (set_res s t k c r x)
  then have "wg x = 1" unfolding sf_inv_def inv_driver_def drivers_ok_def by fastforce
  with set_res show ?case by (fastforce simp: sf_inv_def inv_returned_def split: if_splits)
next
  case (done_wg s t k c x)
  then show ?case by (fastforce simp: sf_inv_def inv_returned_def split: if_splits)
qed (auto simp: sf_inv_def inv_returned_def split: if_splits)

text \<open>The history of the executions: one per call, stored as the result of that call.\<close>

lemma runs_parts:
  assumes "inv_runs s"
  shows runs_heap: "(c, k, r) \<in> set (runs s) \<Longrightarrow> heap s c \<noteq> None"
    and runs_fresh: "pcs s t = Some p \<Longrightarrow> driver p = Some (k', c) \<Longrightarrow> before_run p \<Longrightarrow> (c, k, r) \<notin> set (runs s)"
    and runs_carried: "pcs s t = Some p \<Longrightarrow> driver p = Some (k, c) \<Longrightarrow> carries p = Some r \<Longrightarrow> (c, k, r) \<in> set (runs s)"
    and runs_stored: "heap s c = Some x \<Longrightarrow> res x = Some r \<Longrightarrow> \<exists>k. (c, k, r) \<in> set (runs s)"
  using assms unfolding inv_runs_def by blast+

lemma step_inv_runs: "sf_step s s' \<Longrightarrow> sf_inv s \<Longrightarrow> inv_runs s'"
proof (induction rule: sf_step.induct)
  case (create s t k c)
  then have i: "inv_runs s" by (simp add: sf_inv_def)
  moreover have "(c, k', r) \<notin> set (runs s)" for k' r using runs_heap [OF i] create by blast
  ultimately show ?case using create unfolding inv_runs_def by (auto split: if_splits)
next
  case (run s t k c r)
  then have i: "inv_runs s" "inv_unique s" "inv_driver s" by (simp_all add: sf_inv_def)
  have f: "(c, k', r') \<notin> set (runs s)" for k' r' using runs_fresh [OF i(1) run(1)] by simp
  have u: "t' = t" if "pcs s t' = Some p" "driver p = Some (k', c)" for t' p k'
    using i(2) run that unfolding inv_unique_def unique_drivers_def by fastforce
  have h: "heap s c \<noteq> None"
    using driver_heap [OF i(3) [unfolded inv_driver_def] run(1)] by auto
  show ?case using i(1) f u h unfolding inv_runs_def
    by (auto split: if_splits, blast+)
next
  case (set_res s t k c r x)
  then have i: "inv_runs s" by (simp add: sf_inv_def)
  have "\<exists>k. (c, k, r) \<in> set (runs s)" using runs_carried [OF i set_res(1), of k c r] by auto
  with i set_res show ?case unfolding inv_runs_def by (simp split: if_splits)
next
  case (lock_res s t k c r)
  then have i: "inv_runs s" by (simp add: sf_inv_def)
  have "(c, k, r) \<in> set (runs s)" using runs_carried [OF i lock_res(1)] by simp
  with i lock_res show ?case unfolding inv_runs_def by (auto split: if_splits)
next
  case (spawn s t k c t')
  then have i: "inv_runs s" by (simp add: sf_inv_def)
  have "(c, k', r') \<notin> set (runs s)" for k' r' using runs_fresh [OF i spawn(1)] by simp
  with i spawn show ?case unfolding inv_runs_def by (auto split: if_splits)
qed (auto simp: sf_inv_def inv_runs_def split: if_splits, fastforce+)

lemma keys_parts:
  assumes "inv_keys s"
  shows keys_wait: "pcs s t = Some p \<Longrightarrow> waits p = Some (k, c) \<Longrightarrow>
      driven (pcs s) k c \<or> (\<exists>r. (c, k, r) \<in> set (runs s))"
    and keys_driver: "pcs s t = Some p \<Longrightarrow> driver p = Some (k, c) \<Longrightarrow> (c, k', r) \<in> set (runs s) \<Longrightarrow> k' = k"
  using assms unfolding inv_keys_def by blast+

text \<open>How the moves of one goroutine keep the keys.\<close>

lemma keys_intro:
  assumes "inv_keys s"
    and "\<And>k c. driven (pcs s) k c \<Longrightarrow> driven (pcs s') k c \<or> (\<exists>r. (c, k, r) \<in> set (runs s'))"
    and "set (runs s) \<subseteq> set (runs s')"
    and "\<And>t p k c. pcs s' t = Some p \<Longrightarrow> waits p = Some (k, c) \<Longrightarrow>
      (\<exists>t0 p0. pcs s t0 = Some p0 \<and> waits p0 = Some (k, c)) \<or> driven (pcs s') k c"
    and "\<And>t p k c k' r. pcs s' t = Some p \<Longrightarrow> driver p = Some (k, c) \<Longrightarrow> (c, k', r) \<in> set (runs s') \<Longrightarrow> k' = k"
  shows "inv_keys s'"
  unfolding inv_keys_def
proof (intro conjI allI impI)
  fix t p k c
  assume "pcs s' t = Some p" "waits p = Some (k, c)"
  then show "driven (pcs s') k c \<or> (\<exists>r. (c, k, r) \<in> set (runs s'))"
    using assms(1-4) keys_wait [of s] by blast
qed (use assms(5) in blast)

lemma keys_move:
  assumes "inv_keys s" "pcs s t = Some p" "driver p' = driver p" "waits p' = waits p"
    "pcs s' = (pcs s)(t \<mapsto> p')" "runs s' = runs s"
  shows "inv_keys s'"
proof (rule keys_intro [OF assms(1)])
  show "(\<exists>t0 p0. pcs s t0 = Some p0 \<and> waits p0 = Some (k, c)) \<or> driven (pcs s') k c"
    if "pcs s' t1 = Some p1" "waits p1 = Some (k, c)" for t1 p1 k c
    using that assms(2,4,5) by (metis fun_upd_apply option.inject)
  show "k' = k" if "pcs s' t1 = Some p1" "driver p1 = Some (k, c)" "(c, k', r) \<in> set (runs s')" for t1 p1 k c k' r
    using that assms keys_driver [OF assms(1)] by (metis fun_upd_apply option.inject)
qed (simp_all add: assms(5,6) driven_same [where p = p and p' = p'] assms(2,3))

lemma keys_step:
  "pcs s t = Some p \<Longrightarrow> sf_inv s \<Longrightarrow> driver p' = driver p \<Longrightarrow> waits p' = waits p \<Longrightarrow>
   pcs s' = (pcs s)(t \<mapsto> p') \<Longrightarrow> runs s' = runs s \<Longrightarrow> inv_keys s'"
  using keys_move unfolding sf_inv_def by blast

lemma step_inv_keys: "sf_step s s' \<Longrightarrow> sf_inv s \<Longrightarrow> inv_keys s'"
proof (induction rule: sf_step.induct)
  case (check_found s t k c)
  then have i: "inv_keys s" "inv_inflight s" by (simp_all add: sf_inv_def)
  have d: "driven ((pcs s)(t \<mapsto> Leave k c)) k0 c0 = driven (pcs s) k0 c0" for k0 c0
    by (rule driven_same [where p = "Check k"]) (use check_found in simp_all)
  have "driven (pcs s) k c" using i(2) check_found unfolding inv_inflight_def by blast
  with i(1) show ?case unfolding inv_keys_def
    by (auto simp: d split: if_splits)
next
  case (create s t k c)
  then have i: "inv_keys s" "inv_runs s" by (simp_all add: sf_inv_def)
  have f: "(c, k', r) \<notin> set (runs s)" for k' r using runs_heap [OF i(2)] create by blast
  have d: "driven ((pcs s)(t \<mapsto> AddWg k c)) k0 c0 = (driven (pcs s) k0 c0 \<or> k0 = k \<and> c0 = c)" for k0 c0
    by (rule driven_start) (use create in auto)
  show ?case
    by (rule keys_intro [OF i(1)])
      (use f keys_driver [OF i(1)] in \<open>auto simp: d split: if_splits\<close>)
next
  case (spawn s t k c t')
  then have i: "inv_keys s" "inv_runs s" by (simp_all add: sf_inv_def)
  have f: "(c, k', r) \<notin> set (runs s)" for k' r using runs_fresh [OF i(2) spawn(1)] by simp
  let ?m = "(pcs s)(t' \<mapsto> Run k c, t \<mapsto> Wait k c)"
  have t: "t \<noteq> t'" using spawn by auto
  then have d: "driven ?m k c" unfolding driven_def by (intro exI [of _ t'] exI [of _ "Run k c"]) simp
  have d': "driven ?m k0 c0" if "driven (pcs s) k0 c0" for k0 c0
    using that spawn d unfolding driven_def
    by (metis driver.simps(3) fun_upd_apply option.distinct(1) option.inject prod.inject)
  show ?case
  proof (rule keys_intro [OF i(1)])
    show "(\<exists>t0 p0. pcs s t0 = Some p0 \<and> waits p0 = Some (k0, c0)) \<or> driven (pcs (goto t (Wait k c) (goto t' (Run k c) s))) k0 c0"
      if "pcs (goto t (Wait k c) (goto t' (Run k c) s)) t0 = Some p" "waits p = Some (k0, c0)" for t0 p k0 c0
      using that d by (auto split: if_splits)
  qed (use f d' keys_driver [OF i(1)] in \<open>auto split: if_splits\<close>)
next
  case (run s t k c r)
  then have i: "inv_keys s" "inv_unique s" by (simp_all add: sf_inv_def)
  have u: "t' = t" if "pcs s t' = Some p" "driver p = Some (k', c)" for t' p k'
    using i(2) run that unfolding inv_unique_def unique_drivers_def by fastforce
  have d: "driven ((pcs s)(t \<mapsto> LockRes k c r)) k0 c0 = driven (pcs s) k0 c0" for k0 c0
    by (rule driven_same [where p = "Run k c"]) (use run in simp_all)
  have n: "driver p \<noteq> Some (k', c)" if "pcs s t' = Some p" "t' \<noteq> t" for t' p k' using u that by blast
  show ?case
    by (rule keys_intro [OF i(1)])
      (use n keys_driver [OF i(1)] keys_driver [OF i(1) run(1)] in \<open>auto simp: d split: if_splits\<close>)
next
  case (delete s t k c)
  then have i: "inv_keys s" "inv_unique s" "inv_driver s" "inv_runs s" by (simp_all add: sf_inv_def)
  obtain x r where x: "heap s c = Some x" "res x = Some r"
    using driver_heap [OF i(3) [unfolded inv_driver_def] delete(1)] by auto
  obtain k' where "(c, k', r) \<in> set (runs s)" using runs_stored [OF i(4) x] by blast
  moreover from this have "k' = k" using keys_driver [OF i(1) delete(1)] by simp
  moreover have "k0 = k" if "driven (pcs s) k0 c" for k0
    using that i(2) delete unfolding driven_def inv_unique_def unique_drivers_def by fastforce
  ultimately show ?case
    using i(1) driven_stop [OF i(2) delete(1), of k c UnlockRes] unfolding inv_keys_def
    by (simp split: if_splits) blast
next
  case (done_negative s t k c x)
  then show ?case using done_positive by fastforce
next
  case (return_nil s t k c x)
  then have "pcs s t' \<noteq> Some (AddWg k' c)" for t' k' unfolding sf_inv_def inv_waits_def by fastforce
  with call_done [of s c x] return_nil show ?case by auto
qed (erule (1) keys_step, simp_all)+

lemma step_sf_inv: "sf_step s s' \<Longrightarrow> sf_inv s \<Longrightarrow> sf_inv s'"
  using step_inv_lock step_inv_safe step_inv_driver step_inv_unique step_inv_inflight step_inv_heap
    step_inv_waits step_inv_returned step_inv_create step_inv_runs step_inv_keys
  unfolding sf_inv_def by (smt (verit))

lemma driven_fresh: "m t = None \<Longrightarrow> driven (m(t \<mapsto> Enter k')) k c = driven m k c"
  unfolding driven_def by (auto split: if_splits, metis option.distinct(1))

lemma call_sf_inv: "sf_call s s' \<Longrightarrow> sf_inv s \<Longrightarrow> sf_inv s'"
proof (induction rule: sf_call.induct)
  case (call s t k)
  then have "inv_lock (goto t (Enter k) s)" by (auto simp: sf_inv_def inv_lock_def)
  moreover have "inv_waits (goto t (Enter k) s)" using call by (auto simp: sf_inv_def inv_waits_def)
  moreover have "inv_runs (goto t (Enter k) s)"
    using call by (auto simp: sf_inv_def inv_runs_def split: if_splits)
  moreover have "inv_keys (goto t (Enter k) s)"
    using call by (auto simp: sf_inv_def inv_keys_def driven_fresh split: if_splits)
  ultimately show ?case using call
    by (auto simp: sf_inv_def inv_driver_def driver_other inv_unique_def unique_stop inv_inflight_def
      inv_heap_def driven_fresh inv_returned_def inv_create_def inv_safe_def)
qed

lemma reachable_sf_inv: "sf_reachable s \<Longrightarrow> sf_inv s"
  by (induction rule: sf_reachable.induct) (auto intro: sf_inv_init call_sf_inv step_sf_inv)

section \<open>Progress\<close>

inductive_cases sf_stepE: "sf_step s s'"

text \<open>How far a goroutine is from its end; every step brings the sum of these down.\<close>

fun weight :: "'r pc \<Rightarrow> nat" where
  "weight (Enter k) = 20"
| "weight (Check k) = 19"
| "weight (Create k) = 18"
| "weight (AddWg k c) = 17"
| "weight (Unlock k c) = 16"
| "weight (Spawn k c) = 15"
| "weight (Leave k c) = 2"
| "weight (Wait k c) = 1"
| "weight (Run k c) = 8"
| "weight (LockRes k c r) = 7"
| "weight (SetRes k c r) = 6"
| "weight (DoneWg k c) = 5"
| "weight (Delete k c) = 4"
| "weight UnlockRes = 3"
| "weight _ = 0"

definition remaining_in :: "(tid \<Rightarrow> 'r pc option) \<Rightarrow> nat" where
  "remaining_in m = (\<Sum>t\<in>dom m. weight (the (m t)))"

definition remaining :: "'r sf \<Rightarrow> nat" where
  "remaining s = remaining_in (pcs s)"

fun finished :: "'r pc \<Rightarrow> bool" where
  "finished (Returned k c r) = True"
| "finished Exited = True"
| "finished _ = False"

lemma remaining_upd:
  assumes "finite (dom m)"
  shows "remaining_in (m(t0 \<mapsto> p)) = weight p + (\<Sum>t\<in>dom m - {t0}. weight (the (m t)))"
proof -
  let ?M = "m(t0 \<mapsto> p)"
  have "dom ?M = insert t0 (dom m - {t0})" by auto
  then have "remaining_in ?M = (\<Sum>t\<in>insert t0 (dom m - {t0}). weight (the (?M t)))"
    by (simp only: remaining_in_def)
  also have "\<dots> = weight p + (\<Sum>t\<in>dom m - {t0}. weight (the (?M t)))"
    using assms by (subst sum.insert) auto
  also have "(\<Sum>t\<in>dom m - {t0}. weight (the (?M t))) = (\<Sum>t\<in>dom m - {t0}. weight (the (m t)))"
    by (rule sum.cong) auto
  finally show ?thesis .
qed

lemma remaining_at:
  assumes "finite (dom m)" "m t0 = Some q"
  shows "remaining_in m = weight q + (\<Sum>t\<in>dom m - {t0}. weight (the (m t)))"
  using remaining_upd [OF assms(1), of t0 q] assms(2) by (simp add: fun_upd_idem)

lemma remaining_move:
  "finite (dom m) \<Longrightarrow> m t0 = Some q \<Longrightarrow> weight p < weight q \<Longrightarrow> remaining_in (m(t0 \<mapsto> p)) < remaining_in m"
  by (simp add: remaining_upd remaining_at)

lemma remaining_new:
  assumes "finite (dom m)" "m t0 = None"
  shows "remaining_in (m(t0 \<mapsto> p)) = weight p + remaining_in m"
proof -
  have "dom m - {t0} = dom m" using assms(2) by auto
  with remaining_upd [OF assms(1), of t0 p] show ?thesis unfolding remaining_in_def by simp
qed

lemma step_remaining: "sf_step s s' \<Longrightarrow> inv_safe s \<Longrightarrow> remaining s' < remaining s"
proof (induction rule: sf_step.induct)
  case (spawn s t k c t')
  let ?m = "(pcs s)(t' \<mapsto> Run k c)"
  have f: "finite (dom (pcs s))" using spawn by (simp add: inv_safe_def)
  then have f': "finite (dom ?m)" by simp
  have t: "?m t = Some (Spawn k c)" using spawn by auto
  have "remaining_in (?m(t \<mapsto> Wait k c)) + 14 = remaining_in ?m"
    using remaining_upd [OF f', of t "Wait k c"] remaining_at [OF f' t] by (simp only: weight.simps)
  with remaining_new [OF f spawn(2), of "Run k c"] show ?case by (simp add: remaining_def)
qed (simp_all add: remaining_def inv_safe_def remaining_move)

text \<open>A reachable state in which some goroutine has not finished can make a step.\<close>

lemma not_stuck:
  assumes "sf_inv s" "pcs s t = Some p" "\<not> finished p" "finite (dom (heap s))"
  shows "\<exists>s'. sf_step s s'"
proof -
  have holder: "\<exists>s'. sf_step s s'" if h: "pcs s t1 = Some p1" "holds p1" for t1 p1
  proof (cases p1)
    case (Check k)
    with h show ?thesis by (cases "inflight s k") (auto intro: check_found check_missing)
  next
    case (Create k)
    obtain c where "heap s c = None" using ex_new_if_finite [OF infinite_UNIV_nat assms(4)] by blast
    with h Create show ?thesis by (auto intro: create)
  next
    case (AddWg k c)
    with h obtain x where "heap s c = Some x"
      using assms(1) unfolding sf_inv_def inv_driver_def drivers_ok_def by fastforce
    with h AddWg show ?thesis by (auto intro: add)
  next
    case (SetRes k c r)
    with h obtain x where "heap s c = Some x"
      using assms(1) unfolding sf_inv_def inv_driver_def drivers_ok_def by fastforce
    with h SetRes show ?thesis by (auto intro: set_res)
  next
    case (DoneWg k c)
    with h obtain x where x: "heap s c = Some x"
      using assms(1) unfolding sf_inv_def inv_driver_def drivers_ok_def by fastforce
    with h DoneWg have "wg x = 1" using done_positive [OF assms(1)] by blast
    with h DoneWg done_wg [OF _ x] show ?thesis by auto
  next
    case (Leave k c)
    with h leave [of s t1 k c] show ?thesis by blast
  next
    case (Unlock k c)
    with h unlock [of s t1 k c] show ?thesis by blast
  next
    case (Delete k c)
    with h delete [of s t1 k c] show ?thesis by blast
  next
    case UnlockRes
    with h unlock_res [of s t1] show ?thesis by blast
  qed (use h in simp_all)
  show ?thesis
  proof (cases "lock s")
    case (Some t1)
    then obtain p1 where "pcs s t1 = Some p1" "holds p1"
      using assms(1) unfolding sf_inv_def inv_lock_def by blast
    then show ?thesis by (rule holder)
  next
    case None
    have drv: "\<exists>s'. sf_step s s'" if d: "pcs s t1 = Some p1" "driver p1 = Some (k, c)" for t1 p1 k c
    proof (cases "holds p1")
      case True
      with d show ?thesis using holder by blast
    next
      case False
      obtain t' where "pcs s t' = None" using ex_new_if_finite [OF infinite_UNIV_nat, of "dom (pcs s)"] assms(1)
        unfolding sf_inv_def inv_safe_def by blast
      with False None d show ?thesis using spawn [of s t1] run [of s t1] lock_res [of s t1]
        by (cases p1; simp; blast)
    qed
    show ?thesis
    proof (cases p)
      case (Wait k c)
      then obtain x where x: "heap s c = Some x"
        using assms(1,2) unfolding sf_inv_def inv_waits_def by fastforce
      show ?thesis
      proof (cases "\<exists>k. driven (pcs s) k c")
        case True
        then show ?thesis using drv unfolding driven_def by blast
      next
        case False
        with x assms(1) obtain r where "wg x = 0" "res x = Some r" unfolding sf_inv_def inv_heap_def by blast
        with return [of s t k c x r] x Wait assms(2) show ?thesis by blast
      qed
    next
      case Crashed
      with assms(1,2) show ?thesis unfolding sf_inv_def inv_safe_def by blast
    next
      case (Enter k)
      with lock_enter [of s t k] None assms(2) show ?thesis by blast
    qed (use assms(2,3) holder [OF assms(2)] drv [OF assms(2)] in auto)
  qed
qed

section \<open>The steps, executed\<close>

text \<open>
  The step of goroutine \<open>t\<close>, as a function: \<open>n\<close> is the identifier a new call object or a new
  goroutine gets, \<open>r\<close> what an execution of \<open>f\<close> returns. \<open>None\<close> when \<open>t\<close> cannot move.
\<close>

fun sf_exec :: "tid \<Rightarrow> nat \<Rightarrow> 'r \<Rightarrow> 'r sf \<Rightarrow> 'r sf option" where
  "sf_exec t n r s = (case pcs s t of
     None \<Rightarrow> None
   | Some (Enter k) \<Rightarrow> if lock s = None then Some (goto t (Check k) (s\<lparr>lock := Some t\<rparr>)) else None
   | Some (Check k) \<Rightarrow> (case inflight s k of
         Some c \<Rightarrow> Some (goto t (Leave k c) s)
       | None \<Rightarrow> Some (goto t (Create k) s))
   | Some (Leave k c) \<Rightarrow> Some (goto t (Wait k c) (s\<lparr>lock := None\<rparr>))
   | Some (Create k) \<Rightarrow> if heap s n = None
       then Some (goto t (AddWg k n) (s\<lparr>heap := (heap s)(n \<mapsto> \<lparr>wg = 0, res = None\<rparr>), inflight := (inflight s)(k \<mapsto> n)\<rparr>))
       else None
   | Some (AddWg k c) \<Rightarrow> (case heap s c of None \<Rightarrow> None
       | Some x \<Rightarrow> Some (goto t (Unlock k c) (s\<lparr>heap := (heap s)(c \<mapsto> x\<lparr>wg := wg x + 1\<rparr>)\<rparr>)))
   | Some (Unlock k c) \<Rightarrow> Some (goto t (Spawn k c) (s\<lparr>lock := None\<rparr>))
   | Some (Spawn k c) \<Rightarrow> if pcs s n = None then Some (goto t (Wait k c) (goto n (Run k c) s)) else None
   | Some (Run k c) \<Rightarrow> Some (goto t (LockRes k c r) (s\<lparr>runs := runs s @ [(c, k, r)]\<rparr>))
   | Some (LockRes k c r0) \<Rightarrow> if lock s = None then Some (goto t (SetRes k c r0) (s\<lparr>lock := Some t\<rparr>)) else None
   | Some (SetRes k c r0) \<Rightarrow> (case heap s c of None \<Rightarrow> None
       | Some x \<Rightarrow> Some (goto t (DoneWg k c) (s\<lparr>heap := (heap s)(c \<mapsto> x\<lparr>res := Some r0\<rparr>)\<rparr>)))
   | Some (DoneWg k c) \<Rightarrow> (case heap s c of None \<Rightarrow> None
       | Some x \<Rightarrow> if wg x > 0 then Some (goto t (Delete k c) (s\<lparr>heap := (heap s)(c \<mapsto> x\<lparr>wg := wg x - 1\<rparr>)\<rparr>))
           else Some (goto t Crashed s))
   | Some (Delete k c) \<Rightarrow> Some (goto t UnlockRes (s\<lparr>inflight := (inflight s)(k := None)\<rparr>))
   | Some UnlockRes \<Rightarrow> Some (goto t Exited (s\<lparr>lock := None\<rparr>))
   | Some (Wait k c) \<Rightarrow> (case heap s c of None \<Rightarrow> None
       | Some x \<Rightarrow> if wg x \<noteq> 0 then None else (case res x of
             None \<Rightarrow> Some (goto t Crashed s)
           | Some r0 \<Rightarrow> Some (goto t (Returned k c r0) s)))
   | Some p \<Rightarrow> None)"

lemmas sf_stepI = sf_step.intros [simplified]

lemma sf_exec_step: "sf_exec t n r s = Some s' \<Longrightarrow> sf_step s s'"
  by (auto split: option.splits pc.splits if_splits intro: sf_stepI simp: not_less)

lemma exec_at: "pcs s t = Some p \<Longrightarrow> (pcs s t = Some p \<Longrightarrow> sf_exec t 0 undefined s = Some s') \<Longrightarrow>
  \<exists>t n r. sf_exec t n r s = Some s'"
  by blast

lemma sf_step_exec: "sf_step s s' \<Longrightarrow> \<exists>t n r. sf_exec t n r s = Some s'"
proof (induction rule: sf_step.induct)
  case (create s t k c)
  then show ?case by (intro exI [of _ t] exI [of _ c]) simp
next
  case (spawn s t k c t')
  then show ?case by (intro exI [of _ t] exI [of _ t']) simp
next
  case (run s t k c r)
  then show ?case by (intro exI [of _ t] exI [of _ 0] exI [of _ r]) simp
qed (erule exec_at; simp)+

lemma sf_exec_iff: "sf_step s s' \<longleftrightarrow> (\<exists>t n r. sf_exec t n r s = Some s')"
  by (rule iffI) (erule sf_step_exec, elim exE, erule sf_exec_step)

text \<open>An event: a goroutine calls \<open>Do\<close>, or makes a step.\<close>

datatype 'r event = CallDo tid string | Move tid nat 'r

fun sf_event :: "'r event \<Rightarrow> 'r sf \<Rightarrow> 'r sf option" where
  "sf_event (CallDo t k) s = (if pcs s t = None then Some (goto t (Enter k) s) else None)"
| "sf_event (Move t n r) s = sf_exec t n r s"

fun sf_schedule :: "'r event list \<Rightarrow> 'r sf \<Rightarrow> 'r sf option" where
  "sf_schedule [] s = Some s"
| "sf_schedule (e # es) s = Option.bind (sf_event e s) (sf_schedule es)"

lemma schedule_reachable: "sf_schedule es s = Some s' \<Longrightarrow> sf_reachable s \<Longrightarrow> sf_reachable s'"
proof (induction es arbitrary: s)
  case (Cons e es)
  then obtain s1 where 1: "sf_event e s = Some s1" "sf_schedule es s1 = Some s'"
    by (cases "sf_event e s") auto
  from 1(1) Cons.prems(2) have "sf_reachable s1"
    by (cases e) (auto simp del: sf_exec.simps split: if_splits
      intro: sf_reachable.call sf_call.call sf_reachable.step sf_exec_step)
  with 1(2) show ?case by (rule Cons.IH)
qed simp

text \<open>Two callers of the same key, the second one while the first call is being executed.\<close>

definition demo_flight :: "nat event list" where
  "demo_flight = CallDo 0 ''f'' # replicate 6 (Move 0 1 7) @ CallDo 2 ''f'' # replicate 3 (Move 2 0 0)
     @ replicate 6 (Move 1 0 7)"

definition demo_rest :: "nat event list" where
  "demo_rest = [Move 0 0 0, Move 2 0 0]"

definition demo_end :: "nat sf" where
  "demo_end = the (sf_schedule (demo_flight @ demo_rest) NewSingleFlight)"

lemma demo_schedule: "sf_schedule (demo_flight @ demo_rest) NewSingleFlight \<noteq> None"
  by code_simp

lemma demo_end_pcs: "pcs demo_end 0 = Some (Returned ''f'' 1 7) \<and> pcs demo_end 2 = Some (Returned ''f'' 1 7)
    \<and> runs demo_end = [(1, ''f'', 7)]"
  by code_simp

lemma demo_reachable: "sf_reachable demo_end"
  using demo_schedule schedule_reachable [OF _ sf_reachable.init] unfolding demo_end_def by fastforce

text \<open>no goroutine ever panics: the result a waiting caller dereferences is never nil, and the
  counter of a wait group never goes below zero.\<close>

theorem SingleFlight_never_crashes:
  assumes "sf_reachable s"
  shows "pcs s t \<noteq> Some Crashed"
  using reachable_sf_inv [OF assms] by (simp add: sf_inv_def inv_safe_def)

text \<open>at most one goroutine executes (or is about to execute) the function for a key.\<close>

theorem SingleFlight_one_execution:
  assumes "sf_reachable s" "pcs s t = Some p" "driver p = Some (k, c)"
    "pcs s t' = Some p'" "driver p' = Some (k, c')"
  shows "t = t' \<and> c = c'"
proof -
  from reachable_sf_inv [OF assms(1)] have i: "inv_driver s" "inv_unique s" by (simp_all add: sf_inv_def)
  from driver_heap [OF i(1) [unfolded inv_driver_def] assms(2,3)]
    driver_heap [OF i(1) [unfolded inv_driver_def] assms(4,5)] have "c = c'" by auto
  with i(2) assms show ?thesis unfolding inv_unique_def unique_drivers_def by blast
qed

lemma filter_key: "distinct (map fst l) \<Longrightarrow> (c, v) \<in> set l \<Longrightarrow> filter (\<lambda>(c', _). c' = c) l = [(c, v)]"
proof (induction l)
  case (Cons a l)
  obtain a1 b1 where a: "a = (a1, b1)" by (cases a)
  show ?case
  proof (cases "a1 = c")
    case True
    with Cons.prems a have n: "c \<notin> fst ` set l" by simp
    with Cons.prems a True have "b1 = v" by force
    moreover from n have "filter (\<lambda>(c', _). c' = c) l = []" by (force simp: filter_empty_conv)
    ultimately show ?thesis using a True by simp
  next
    case False
    with Cons a show ?thesis by simp
  qed
qed simp

text \<open>what a caller of \<open>Do(k, f)\<close> returns is the result of the only execution its call ever had,
  an execution made for the key \<open>k\<close>; so all the callers that shared the call return the same result.\<close>

theorem SingleFlight_shared_result:
  assumes "sf_reachable s" "pcs s t = Some (Returned k c r)"
  shows "filter (\<lambda>(c', _). c' = c) (runs s) = [(c, k, r)]"
proof -
  from reachable_sf_inv [OF assms(1)] have i: "inv_returned s" "inv_runs s" "inv_keys s" "inv_heap s" "inv_driver s"
    by (simp_all add: sf_inv_def)
  obtain x where x: "heap s c = Some x" "res x = Some r"
    using i(1) assms(2) unfolding inv_returned_def by blast
  obtain k1 where k1: "(c, k1, r) \<in> set (runs s)" using runs_stored [OF i(2) x] by blast
  have d: "distinct (map fst (runs s))" using i(2) by (simp add: inv_runs_def)
  have "k1 = k"
  proof (cases "driven (pcs s) k c")
    case True
    then show ?thesis using keys_driver [OF i(3)] k1 unfolding driven_def by blast
  next
    case False
    then obtain r' where "(c, k, r') \<in> set (runs s)" using keys_wait [OF i(3) assms(2)] by auto
    with k1 d show ?thesis by (metis Pair_inject eq_key_imp_eq_value)
  qed
  with d k1 show ?thesis by (intro filter_key) simp_all
qed

lemma step_finite_heap: "sf_step s s' \<Longrightarrow> finite (dom (heap s)) \<Longrightarrow> finite (dom (heap s'))"
  by (induction rule: sf_step.induct) simp_all

lemma reachable_finite_heap: "sf_reachable s \<Longrightarrow> finite (dom (heap s))"
  by (induction rule: sf_reachable.induct)
    (auto simp: NewSingleFlight_def elim: sf_call.cases intro: step_finite_heap)

lemma steps_remaining: "(sf_step ^^ n) s s' \<Longrightarrow> sf_inv s \<Longrightarrow> n + remaining s' \<le> remaining s \<and> sf_inv s'"
proof (induction n arbitrary: s')
  case (Suc n)
  then obtain s1 where 1: "(sf_step ^^ n) s s1" "sf_step s1 s'" by auto
  with Suc have "n + remaining s1 \<le> remaining s" "sf_inv s1" by blast+
  with step_remaining [OF 1(2)] step_sf_inv [OF 1(2)] show ?case by (simp add: sf_inv_def)
qed simp

lemma steps_reachable: "(sf_step ^^ n) s s' \<Longrightarrow> sf_reachable s \<Longrightarrow> sf_reachable s'"
  by (induction n arbitrary: s') (auto intro: sf_reachable.step)

lemma schedule_steps:
  "sf_schedule es s = Some s' \<Longrightarrow> list_all (\<lambda>e. case e of Move t n r \<Rightarrow> True | CallDo t k \<Rightarrow> False) es \<Longrightarrow>
   (sf_step ^^ length es) s s'"
proof (induction es arbitrary: s)
  case (Cons e es)
  then obtain t n r where e: "e = Move t n r" by (cases e) auto
  from Cons.prems(1) obtain s1 where 1: "sf_event e s = Some s1" "sf_schedule es s1 = Some s'"
    by (cases "sf_event e s") auto
  from 1(1) e have "sf_exec t n r s = Some s1" by (simp del: sf_exec.simps)
  then have "sf_step s s1" by (rule sf_exec_step)
  moreover have "(sf_step ^^ length es) s1 s'" using Cons 1 by simp
  ultimately show ?case by (simp only: list.size relpowp_Suc_I2 add_0_right add_Suc_right)
qed simp

text \<open>C35: every call returns: from a reachable state, without new calls, at most \<open>remaining s\<close> steps
  can be made however the goroutines are scheduled, and when no step is left every caller has
  returned and every spawned goroutine has ended. There is no deadlock between the mutex and the
  wait groups.\<close>

theorem SingleFlight_calls_return:
  assumes "sf_reachable s" "(sf_step ^^ n) s s'"
  shows "n \<le> remaining s \<and> ((\<exists>s''. sf_step s' s'') \<or> (\<forall>t p. pcs s' t = Some p \<longrightarrow> finished p))"
proof
  from steps_remaining [OF assms(2) reachable_sf_inv [OF assms(1)]]
  show "n \<le> remaining s" by simp
  from steps_reachable [OF assms(2,1)]
  show "(\<exists>s''. sf_step s' s'') \<or> (\<forall>t p. pcs s' t = Some p \<longrightarrow> finished p)"
    using not_stuck [OF reachable_sf_inv] reachable_finite_heap by blast
qed

section \<open>Witnesses\<close>

lemma SingleFlight_never_crashes_witness: "pcs demo_end 2 \<noteq> Some Crashed"
  by (rule SingleFlight_never_crashes [OF demo_reachable])

lemma SingleFlight_shared_result_witness:
  "filter (\<lambda>(c', _). c' = 1) (runs demo_end) = [(1, ''f'', 7)]
   \<and> pcs demo_end 0 = Some (Returned ''f'' 1 7) \<and> pcs demo_end 2 = Some (Returned ''f'' 1 7)"
  using SingleFlight_shared_result [OF demo_reachable, of 2 "''f''" 1 7] demo_end_pcs by simp

text \<open>In the middle of the run: the spawned goroutine is about to execute, the second caller has
  just entered.\<close>

definition demo_mid :: "nat sf" where
  "demo_mid = the (sf_schedule (take 8 demo_flight) NewSingleFlight)"

lemma demo_mid_pcs: "pcs demo_mid 1 = Some (Run ''f'' 1) \<and> pcs demo_mid 2 = Some (Enter ''f'')
    \<and> sf_schedule (take 8 demo_flight) NewSingleFlight \<noteq> None
    \<and> sf_schedule (drop 8 demo_flight @ demo_rest) demo_mid \<noteq> None"
  by code_simp

lemma demo_mid_reachable: "sf_reachable demo_mid"
  using demo_mid_pcs schedule_reachable [OF _ sf_reachable.init] unfolding demo_mid_def by fastforce

lemma SingleFlight_one_execution_witness:
  "{t. \<exists>p c. pcs demo_mid t = Some p \<and> driver p = Some (''f'', c)} = {1}"
proof -
  have r: "pcs demo_mid 1 = Some (Run ''f'' 1)" using demo_mid_pcs by blast
  then have "t = 1" if "pcs demo_mid t = Some p" "driver p = Some (''f'', c)" for t p c
    using SingleFlight_one_execution [OF demo_mid_reachable that r] by simp
  moreover have "driver (Run ''f'' 1) = Some (''f'', 1)" by simp
  ultimately show ?thesis using r by blast
qed

lemma SingleFlight_calls_return_witness: "11 \<le> remaining demo_mid"
proof -
  obtain s' where s': "sf_schedule (drop 8 demo_flight @ demo_rest) demo_mid = Some s'"
    using demo_mid_pcs by blast
  have "length (drop 8 demo_flight @ demo_rest) = 11" "list_all (\<lambda>e. case e of Move t n r \<Rightarrow> True | CallDo t k \<Rightarrow> False)
    (drop 8 demo_flight @ demo_rest)" by code_simp+
  with schedule_steps [OF s'] have "(sf_step ^^ 11) demo_mid s'" by (simp only:)
  from SingleFlight_calls_return [OF demo_mid_reachable this] show ?thesis by simp
qed

end
