(* ===== verification/Prelude.thy ===== *)
theory Prelude
  imports Main "HOL-Library.Word"
begin

text \<open>
  Shared vocabulary of the development: the result of a Go statement (a value or a panic),
  programs as state transformers, machine integers, and the automation the component
  theories use. A Go function that touches the outside world becomes a program of type
  \<open>('s, 'a) prog\<close>: it takes the state and returns the outcome together with the state
  it leaves behind, so the effects before a panic are kept.
\<close>

named_theorems go_simps \<open>equations that run a program on a state\<close>
named_theorems frame_intros \<open>rules that show what part of the state a program keeps\<close>

section \<open>Machine types\<close>

type_synonym uint64 = "64 word"

text \<open>The error interface: \<open>None\<close> is nil, \<open>Some m\<close> an error with message \<open>m\<close>.\<close>

type_synonym goerror = "string option"

text \<open>Instants and durations, in nanoseconds.\<close>

type_synonym instant = int
type_synonym duration = int

abbreviation second :: duration where "second \<equiv> 1000000000"
abbreviation millisecond :: duration where "millisecond \<equiv> 1000000"

text \<open>The conversion \<open>int(x)\<close> of an unsigned 64-bit value on a 64-bit platform.\<close>

definition go_int :: "uint64 \<Rightarrow> int" where
  "go_int x = sint x"

lemma go_int_small:
  assumes "unat x < 2 ^ 63"
  shows "go_int x = int (unat x)"
proof -
  have "int (unat x) < 2 ^ 63" using assms by (metis of_nat_less_iff of_nat_numeral of_nat_power)
  then have "uint x < 2 ^ 63" by simp
  moreover have "- (2 ^ 63) \<le> uint x" by (rule order_trans [of _ 0]) simp_all
  ultimately have "signed_take_bit 63 (uint x) = uint x"
    by (intro signed_take_bit_int_eq_self) simp_all
  then show ?thesis by (simp add: go_int_def sint_uint)
qed

section \<open>Programs with panics\<close>

datatype 'a go = Val 'a | Panic string

type_synonym ('s, 'a) prog = "'s \<Rightarrow> 'a go \<times> 's"

definition retp :: "'a \<Rightarrow> ('s, 'a) prog" where
  "retp x = (\<lambda>s. (Val x, s))"

definition panicp :: "string \<Rightarrow> ('s, 'a) prog" where
  "panicp e = (\<lambda>s. (Panic e, s))"

definition bindp :: "('s, 'a) prog \<Rightarrow> ('a \<Rightarrow> ('s, 'b) prog) \<Rightarrow> ('s, 'b) prog" where
  "bindp m k = (\<lambda>s. case m s of (Val x, s') \<Rightarrow> k x s' | (Panic e, s') \<Rightarrow> (Panic e, s'))"

definition getp :: "('s \<Rightarrow> 'a) \<Rightarrow> ('s, 'a) prog" where
  "getp f = (\<lambda>s. (Val (f s), s))"

definition modifyp :: "('s \<Rightarrow> 's) \<Rightarrow> ('s, unit) prog" where
  "modifyp f = (\<lambda>s. (Val (), f s))"

lemma retp_run [go_simps]: "retp x s = (Val x, s)"
  by (simp add: retp_def)

lemma panicp_run [go_simps]: "panicp e s = (Panic e, s)"
  by (simp add: panicp_def)

lemma getp_run [go_simps]: "getp f s = (Val (f s), s)"
  by (simp add: getp_def)

lemma modifyp_run [go_simps]: "modifyp f s = (Val (), f s)"
  by (simp add: modifyp_def)

lemma bindp_run [go_simps]:
  "bindp m k s = (case m s of (Val x, s') \<Rightarrow> k x s' | (Panic e, s') \<Rightarrow> (Panic e, s'))"
  by (simp add: bindp_def)

lemma bindp_Val [simp]: "m s = (Val x, s') \<Longrightarrow> bindp m k s = k x s'"
  by (simp add: bindp_def)

lemma bindp_Panic [simp]: "m s = (Panic e, s') \<Longrightarrow> bindp m k s = (Panic e, s')"
  by (simp add: bindp_def)

lemma bindp_ValE:
  assumes "bindp m k s = (Val y, t)"
  obtains x s' where "m s = (Val x, s')" and "k x s' = (Val y, t)"
  using assms by (auto simp: bindp_def split: prod.splits go.splits)

lemma bindp_retp [simp]: "bindp (retp x) k = k x"
  by (rule ext) (simp add: bindp_def retp_def)

lemma bindp_assoc: "bindp (bindp m k) l = bindp m (\<lambda>x. bindp (k x) l)"
  by (rule ext) (auto simp: bindp_def split: prod.splits go.splits)

section \<open>What a program keeps, and what it returns\<close>

text \<open>
  \<open>step_rel R m\<close>: every run of \<open>m\<close> takes a state to an \<open>R\<close>-related one, whether it returns
  or panics. \<open>returns P m\<close>: no run panics and every returned value satisfies \<open>P\<close>.
\<close>

definition step_rel :: "('s \<Rightarrow> 's \<Rightarrow> bool) \<Rightarrow> ('s, 'a) prog \<Rightarrow> bool" where
  "step_rel R m \<longleftrightarrow> (\<forall>s. R s (snd (m s)))"

definition returns :: "('a \<Rightarrow> bool) \<Rightarrow> ('s, 'a) prog \<Rightarrow> bool" where
  "returns P m \<longleftrightarrow> (\<forall>s. \<exists>x s'. m s = (Val x, s') \<and> P x)"

definition total :: "('s, 'a) prog \<Rightarrow> bool" where
  "total m \<longleftrightarrow> returns (\<lambda>_. True) m"

lemma step_relD: "step_rel R m \<Longrightarrow> m s = (v, s') \<Longrightarrow> R s s'"
  by (metis snd_conv step_rel_def)

lemma step_rel_retp [frame_intros]: "reflp R \<Longrightarrow> step_rel R (retp x)"
  by (simp add: step_rel_def reflpD go_simps)

lemma step_rel_panicp [frame_intros]: "reflp R \<Longrightarrow> step_rel R (panicp x)"
  by (simp add: step_rel_def reflpD go_simps)

lemma step_rel_getp [frame_intros]: "reflp R \<Longrightarrow> step_rel R (getp f)"
  by (simp add: step_rel_def reflpD go_simps)

lemma step_rel_bindp [frame_intros]:
  "transp R \<Longrightarrow> step_rel R m \<Longrightarrow> (\<And>x. step_rel R (k x)) \<Longrightarrow> step_rel R (bindp m k)"
  unfolding step_rel_def bindp_def
  by (auto split: prod.splits go.splits) (metis snd_conv transpD)+

lemma returns_retp [frame_intros]: "P x \<Longrightarrow> returns P (retp x)"
  by (simp add: returns_def retp_run)

lemma returns_bindp [frame_intros]:
  "returns Q m \<Longrightarrow> (\<And>x. Q x \<Longrightarrow> returns P (k x)) \<Longrightarrow> returns P (bindp m k)"
  unfolding returns_def by (metis bindp_Val)

lemma returns_mono: "returns P m \<Longrightarrow> (\<And>x. P x \<Longrightarrow> Q x) \<Longrightarrow> returns Q m"
  unfolding returns_def by blast

lemma returnsD: "returns P m \<Longrightarrow> m s = (v, s') \<Longrightarrow> \<exists>x. v = Val x \<and> P x"
  unfolding returns_def by (metis prod.inject)

lemma total_returns: "total m \<longleftrightarrow> (\<forall>s. \<exists>x s'. m s = (Val x, s'))"
  by (simp add: total_def returns_def)

section \<open>Running a program on a part of the state\<close>

text \<open>
  \<open>zoom get put m\<close> runs \<open>m\<close> on the part \<open>get s\<close> of the state and writes that part back.
\<close>

definition zoom :: "('s \<Rightarrow> 't) \<Rightarrow> ('t \<Rightarrow> 's \<Rightarrow> 's) \<Rightarrow> ('t, 'a) prog \<Rightarrow> ('s, 'a) prog" where
  "zoom get put m = (\<lambda>s. case m (get s) of (v, t) \<Rightarrow> (v, put t s))"

lemma zoom_run [go_simps]: "zoom get put m s = (case m (get s) of (v, t) \<Rightarrow> (v, put t s))"
  by (simp add: zoom_def)

lemma zoom_Val [simp]: "m (get s) = (v, t) \<Longrightarrow> zoom get put m s = (v, put t s)"
  by (simp add: zoom_def)

lemma returns_zoom [frame_intros]: "returns P m \<Longrightarrow> returns P (zoom get put m)"
  unfolding returns_def by (metis zoom_Val)

lemma step_rel_zoom:
  "(\<And>s t. R s (put t s)) \<Longrightarrow> step_rel R (zoom get put m)"
  by (auto simp: step_rel_def zoom_def split: prod.splits)

section \<open>Partial results and costs\<close>

text \<open>
  \<open>vals P m\<close>: every value that \<open>m\<close> returns satisfies \<open>P\<close>. \<open>cost_le c k m\<close>: a run of \<open>m\<close>
  raises the measure \<open>c\<close> of the state by at most \<open>k\<close>.
\<close>

definition vals :: "('a \<Rightarrow> bool) \<Rightarrow> ('s, 'a) prog \<Rightarrow> bool" where
  "vals P m \<longleftrightarrow> (\<forall>s x s'. m s = (Val x, s') \<longrightarrow> P x)"

definition cost_le :: "('s \<Rightarrow> nat) \<Rightarrow> nat \<Rightarrow> ('s, 'a) prog \<Rightarrow> bool" where
  "cost_le c k m \<longleftrightarrow> (\<forall>s. c (snd (m s)) \<le> c s + k)"

lemma valsD: "vals P m \<Longrightarrow> m s = (Val x, s') \<Longrightarrow> P x"
  by (auto simp: vals_def)

lemma vals_True [frame_intros]: "vals (\<lambda>_. True) m"
  by (simp add: vals_def)

lemma vals_retp [frame_intros]: "P x \<Longrightarrow> vals P (retp x)"
  by (simp add: vals_def retp_run)

lemma vals_panicp [frame_intros]: "vals P (panicp e)"
  by (simp add: vals_def panicp_run)

lemma vals_bindp: "(\<And>x. vals P (k x)) \<Longrightarrow> vals P (bindp m k)"
  unfolding vals_def by (metis bindp_ValE)

lemma vals_bindp_via: "vals Q m \<Longrightarrow> (\<And>x. Q x \<Longrightarrow> vals P (k x)) \<Longrightarrow> vals P (bindp m k)"
  unfolding vals_def by (metis bindp_ValE)

lemma cost_le_mono: "cost_le c j m \<Longrightarrow> j \<le> k \<Longrightarrow> cost_le c k m"
  unfolding cost_le_def by (meson add_le_mono le_refl le_trans)

lemma cost_le_retp [frame_intros]: "cost_le c k (retp x)"
  by (simp add: cost_le_def retp_run)

lemma cost_le_panicp [frame_intros]: "cost_le c k (panicp x)"
  by (simp add: cost_le_def panicp_run)

lemma cost_le_bindp:
  assumes "cost_le c j m" "\<And>x. cost_le c k (f x)"
  shows "cost_le c (j + k) (bindp m f)"
  unfolding cost_le_def
proof
  fix s
  obtain v s' where m: "m s = (v, s')" by fastforce
  have j: "c s' \<le> c s + j" using assms(1) m by (metis cost_le_def snd_conv)
  show "c (snd (bindp m f s)) \<le> c s + (j + k)"
  proof (cases v)
    case (Val x)
    have "c (snd (f x s')) \<le> c s' + k" using assms(2) by (simp add: cost_le_def)
    with j m Val show ?thesis by simp
  next
    case (Panic e)
    with j m show ?thesis by simp
  qed
qed

lemma cost_le_bindp0: "cost_le c 0 m \<Longrightarrow> (\<And>x. cost_le c k (f x)) \<Longrightarrow> cost_le c k (bindp m f)"
  using cost_le_bindp [of c 0 m k f] by simp

end
