(* ===== verification/GoStrings.thy ===== *)
theory GoStrings
  imports Prelude
begin

text \<open>
  The part of Go's packages \<open>strings\<close> and \<open>strconv\<close> that the gateway uses, on strings as
  lists of bytes. Every separator the gateway searches for is a single byte, so the searches
  are stated for a byte.
\<close>

section \<open>Package strings\<close>

definition HasPrefix :: "string \<Rightarrow> string \<Rightarrow> bool" where
  "HasPrefix s p \<longleftrightarrow> take (length p) s = p"

definition HasSuffix :: "string \<Rightarrow> string \<Rightarrow> bool" where
  "HasSuffix s p \<longleftrightarrow> length p \<le> length s \<and> drop (length s - length p) s = p"

definition TrimSuffix :: "string \<Rightarrow> string \<Rightarrow> string" where
  "TrimSuffix s p = (if HasSuffix s p then take (length s - length p) s else s)"

definition TrimLeft :: "string \<Rightarrow> string \<Rightarrow> string" where
  "TrimLeft s cutset = dropWhile (\<lambda>c. c \<in> set cutset) s"

definition TrimRight :: "string \<Rightarrow> string \<Rightarrow> string" where
  "TrimRight s cutset = rev (dropWhile (\<lambda>c. c \<in> set cutset) (rev s))"

definition Trim :: "string \<Rightarrow> string \<Rightarrow> string" where
  "Trim s cutset = TrimRight (TrimLeft s cutset) cutset"

definition ContainsByte :: "string \<Rightarrow> char \<Rightarrow> bool" where
  "ContainsByte s c \<longleftrightarrow> c \<in> set s"

text \<open>\<open>strings.LastIndex(s, c)\<close>: the index of the last \<open>c\<close>, or -1.\<close>

fun LastIndexByte :: "string \<Rightarrow> char \<Rightarrow> int" where
  "LastIndexByte [] c = -1"
| "LastIndexByte (x # xs) c =
     (let i = LastIndexByte xs c in if i \<ge> 0 then i + 1 else if x = c then 0 else -1)"

text \<open>\<open>strings.Replace(s, old, new, 1)\<close>; an empty \<open>old\<close> matches at the start.\<close>

fun ReplaceFirst :: "string \<Rightarrow> string \<Rightarrow> string \<Rightarrow> string" where
  "ReplaceFirst [] old new = (if old = [] then new else [])"
| "ReplaceFirst (c # s) old new =
     (if HasPrefix (c # s) old then new @ drop (length old) (c # s)
      else c # ReplaceFirst s old new)"

text \<open>
  \<open>strings.Replace(s, old, new, -1)\<close>; an empty \<open>old\<close> matches before every byte and at the
  end (before every character, which is the same for the ASCII host names it is used on).
\<close>

function ReplaceAll :: "string \<Rightarrow> string \<Rightarrow> string \<Rightarrow> string" where
  "ReplaceAll [] old new = (if old = [] then new else [])"
| "ReplaceAll (c # s) old new =
     (if old = [] then new @ c # ReplaceAll s old new
      else if HasPrefix (c # s) old then new @ ReplaceAll (drop (length old) (c # s)) old new
      else c # ReplaceAll s old new)"
  by pat_completeness auto
termination
  by (relation "measure (\<lambda>(s, _, _). length s)") auto

lemma HasPrefix_iff: "HasPrefix s p \<longleftrightarrow> (\<exists>t. s = p @ t)"
  unfolding HasPrefix_def by (metis append_eq_conv_conj append_take_drop_id)

lemma HasPrefix_append [simp]: "HasPrefix (p @ t) p"
  by (simp add: HasPrefix_def)

lemma HasSuffix_iff: "HasSuffix s p \<longleftrightarrow> (\<exists>t. s = t @ p)"
proof
  assume "HasSuffix s p"
  then show "\<exists>t. s = t @ p"
    unfolding HasSuffix_def by (metis append_take_drop_id)
next
  assume "\<exists>t. s = t @ p"
  then show "HasSuffix s p"
    by (auto simp: HasSuffix_def)
qed

lemma TrimSuffix_append [simp]: "TrimSuffix (s @ p) p = s"
  by (simp add: TrimSuffix_def HasSuffix_def)

lemma TrimRight_last: "TrimRight s cs \<noteq> [] \<Longrightarrow> last (TrimRight s cs) \<notin> set cs"
  unfolding TrimRight_def
  by (metis (mono_tags, lifting) hd_dropWhile last_rev rev_is_Nil_conv)

lemma dropWhile_not_hd: "xs = [] \<or> \<not> P (hd xs) \<Longrightarrow> dropWhile P xs = xs"
  by (cases xs) auto

lemma TrimRight_id: "s = [] \<or> last s \<notin> set cs \<Longrightarrow> TrimRight s cs = s"
  unfolding TrimRight_def
  by (subst dropWhile_not_hd) (auto simp: hd_rev)

lemma TrimRight_idem [simp]: "TrimRight (TrimRight s cs) cs = TrimRight s cs"
  by (rule TrimRight_id) (use TrimRight_last in blast)

lemma Trim_no_cut: "set s \<inter> set cs = {} \<Longrightarrow> Trim s cs = s"
proof -
  assume dis: "set s \<inter> set cs = {}"
  have "TrimLeft s cs = s"
    unfolding TrimLeft_def using dis
    by (intro dropWhile_not_hd) (metis disjoint_iff list.set_sel(1))
  moreover have "TrimRight s cs = s"
    using dis by (intro TrimRight_id) (metis disjoint_iff last_in_set)
  ultimately show ?thesis by (simp add: Trim_def)
qed

lemma LastIndexByte_absent [simp]: "c \<notin> set s \<Longrightarrow> LastIndexByte s c = -1"
  by (induction s) auto

lemma LastIndexByte_split: "c \<notin> set t \<Longrightarrow> LastIndexByte (s @ c # t) c = int (length s)"
  by (induction s) (auto simp: Let_def)

lemma LastIndexByte_present: "LastIndexByte s c \<ge> 0 \<longleftrightarrow> c \<in> set s"
proof
  assume "LastIndexByte s c \<ge> 0"
  then show "c \<in> set s" by (rule contrapos_pp) simp
next
  assume "c \<in> set s"
  then obtain a b where "s = a @ c # b" and "c \<notin> set b" by (metis split_list_last)
  then show "LastIndexByte s c \<ge> 0" by (simp add: LastIndexByte_split)
qed

text \<open>A list is split at its last \<open>c\<close> in one way only.\<close>

lemma last_split_unique:
  assumes "c \<notin> set (b :: string)" "c \<notin> set d"
  shows "a @ c # b = e @ c # d \<longleftrightarrow> a = e \<and> b = d"
proof
  assume eq: "a @ c # b = e @ c # d"
  have "int (length a) = int (length e)"
    using LastIndexByte_split [OF assms(1), of a] LastIndexByte_split [OF assms(2), of e] eq by simp
  with eq show "a = e \<and> b = d" by simp
qed simp

section \<open>Package path\<close>

fun split_on :: "char \<Rightarrow> string \<Rightarrow> string list" where
  "split_on d [] = [[]]"
| "split_on d (c # cs) =
     (if c = d then [] # split_on d cs
      else (case split_on d cs of [] \<Rightarrow> [[c]] | w # ws \<Rightarrow> (c # w) # ws))"

fun join_with :: "string \<Rightarrow> string list \<Rightarrow> string" where
  "join_with sep [] = []"
| "join_with sep [w] = w"
| "join_with sep (w # v # ws) = w @ sep @ join_with sep (v # ws)"

text \<open>One element of the path is added to the reversed list of elements kept so far.\<close>

definition clean_step :: "bool \<Rightarrow> string list \<Rightarrow> string \<Rightarrow> string list" where
  "clean_step rooted out w =
     (if w = [] \<or> w = ''.'' then out
      else if w = ''..'' then
        (case out of
           [] \<Rightarrow> (if rooted then [] else [w])
         | v # vs \<Rightarrow> (if v = ''..'' then w # out else vs))
      else w # out)"

text \<open>\<open>path.Clean\<close> and \<open>path.Join\<close>.\<close>

definition path_Clean :: "string \<Rightarrow> string" where
  "path_Clean p =
     (let rooted = (p \<noteq> [] \<and> hd p = CHR ''/'');
          out = join_with ''/'' (rev (foldl (clean_step rooted) [] (split_on CHR ''/'' p)))
      in if rooted then CHR ''/'' # out else if out = [] then ''.'' else out)"

definition path_Join :: "string list \<Rightarrow> string" where
  "path_Join ws =
     (let vs = filter (\<lambda>w. w \<noteq> []) ws in if vs = [] then [] else path_Clean (join_with ''/'' vs))"

section \<open>Package strconv\<close>

definition digit :: "nat \<Rightarrow> char" where
  "digit d = char_of (48 + d)"

definition digit_val :: "char \<Rightarrow> nat option" where
  "digit_val c = (let n = (of_char c :: nat) in if 48 \<le> n \<and> n \<le> 57 then Some (n - 48) else None)"

fun nat_digits :: "nat \<Rightarrow> string" where
  "nat_digits n = (if n < 10 then [digit n] else nat_digits (n div 10) @ [digit (n mod 10)])"

declare nat_digits.simps [simp del]

text \<open>\<open>strconv.Itoa\<close>, which is also the verb \<open>%d\<close>.\<close>

definition Itoa :: "int \<Rightarrow> string" where
  "Itoa i = (if i < 0 then CHR ''-'' # nat_digits (nat (- i)) else nat_digits (nat i))"

fun parse_digits :: "nat \<Rightarrow> string \<Rightarrow> nat option" where
  "parse_digits acc [] = Some acc"
| "parse_digits acc (c # cs) =
     (case digit_val c of None \<Rightarrow> None | Some d \<Rightarrow> parse_digits (10 * acc + d) cs)"

text \<open>
  \<open>strconv.Atoi\<close>: an optional sign, at least one decimal digit, nothing else, and a value of
  the 64-bit type \<open>int\<close>. \<open>None\<close> stands for a non-nil error (bad syntax or out of range).
\<close>

definition Atoi :: "string \<Rightarrow> int option" where
  "Atoi s =
     (let neg = (s \<noteq> [] \<and> hd s = CHR ''-'');
          ds = (if s \<noteq> [] \<and> (hd s = CHR ''-'' \<or> hd s = CHR ''+'') then tl s else s)
      in if ds = [] then None
         else case parse_digits 0 ds of
             None \<Rightarrow> None
           | Some n \<Rightarrow>
               (let i = (if neg then - int n else int n)
                in if - (2 ^ 63) \<le> i \<and> i \<le> 2 ^ 63 - 1 then Some i else None))"

lemma digit_val_digit [simp]: "d < 10 \<Longrightarrow> digit_val (digit d) = Some d"
  by (simp add: digit_val_def digit_def)

lemma parse_digits_append:
  "parse_digits acc (xs @ ys) =
     (case parse_digits acc xs of None \<Rightarrow> None | Some a \<Rightarrow> parse_digits a ys)"
  by (induction xs arbitrary: acc) (auto split: option.splits)

lemma parse_nat_digits: "parse_digits 0 (nat_digits n) = Some n"
proof (induction n rule: nat_digits.induct)
  case (1 n)
  show ?case
  proof (cases "n < 10")
    case True
    then show ?thesis by (simp add: nat_digits.simps [of n])
  next
    case False
    with "1.IH" show ?thesis
      by (simp add: nat_digits.simps [of n] parse_digits_append)
  qed
qed

lemma nat_digits_nonempty: "nat_digits n \<noteq> []"
  by (simp add: nat_digits.simps [of n])

lemma digit_val_sign: "digit_val CHR ''-'' = None" "digit_val CHR ''+'' = None"
  by (simp_all add: digit_val_def)

lemma digit_not_sign: "d < 10 \<Longrightarrow> digit d \<noteq> CHR ''-'' \<and> digit d \<noteq> CHR ''+''"
  by (metis digit_val_digit digit_val_sign option.distinct(1))

lemma hd_nat_digits: "\<exists>d < 10. hd (nat_digits n) = digit d"
proof (induction n rule: nat_digits.induct)
  case (1 n)
  show ?case
  proof (cases "n < 10")
    case True
    then show ?thesis by (auto simp: nat_digits.simps [of n])
  next
    case False
    with "1.IH" show ?thesis
      by (simp add: nat_digits.simps [of n] hd_append nat_digits_nonempty)
  qed
qed

lemma Atoi_Itoa:
  assumes "- (2 ^ 63) \<le> i" and "i \<le> 2 ^ 63 - 1"
  shows "Atoi (Itoa i) = Some i"
proof (cases "i < 0")
  case True
  then show ?thesis
    using assms by (simp add: Atoi_def Itoa_def nat_digits_nonempty parse_nat_digits)
next
  case False
  obtain d where "d < 10" and hd: "hd (nat_digits (nat i)) = digit d"
    using hd_nat_digits by blast
  then have "hd (nat_digits (nat i)) \<noteq> CHR ''-''" and "hd (nat_digits (nat i)) \<noteq> CHR ''+''"
    by (simp_all add: digit_not_sign)
  with False assms show ?thesis
    by (simp add: Atoi_def Itoa_def nat_digits_nonempty parse_nat_digits)
qed

end
