(* ===== verification/GoHttp.thy ===== *)
theory GoHttp
  imports GoStrings
begin

text \<open>
  The part of \<open>net/url\<close>, \<open>net/http\<close> and \<open>net/http/httptest\<close> that the gateway's handlers are
  written against: URLs and their text form, headers, requests, the response writer, and
  the handler type. A handler runs on a state that holds the response writer it was given
  and the world its calls act on.
\<close>

section \<open>Package net/url\<close>

record url =
  Scheme :: string
  UHost :: string
  Path :: string
  RawPath :: string
  RawQuery :: string

definition is_alnum :: "char \<Rightarrow> bool" where
  "is_alnum c = (let n = (of_char c :: nat) in
     (97 \<le> n \<and> n \<le> 122) \<or> (65 \<le> n \<and> n \<le> 90) \<or> (48 \<le> n \<and> n \<le> 57))"

text \<open>\<open>shouldEscape(c, encodePath)\<close>.\<close>

definition shouldEscape :: "char \<Rightarrow> bool" where
  "shouldEscape c = (\<not> (is_alnum c \<or> c \<in> set ''-_.~'' \<or> c \<in> set ''$&+,/:;=@''))"

definition hex_digit :: "nat \<Rightarrow> char" where
  "hex_digit d = (if d < 10 then char_of (48 + d) else char_of (55 + d))"

definition hex_val :: "char \<Rightarrow> nat option" where
  "hex_val c = (let n = (of_char c :: nat) in
     if 48 \<le> n \<and> n \<le> 57 then Some (n - 48)
     else if 65 \<le> n \<and> n \<le> 70 then Some (n - 55)
     else if 97 \<le> n \<and> n \<le> 102 then Some (n - 87) else None)"

fun escape :: "string \<Rightarrow> string" where
  "escape [] = []"
| "escape (c # cs) =
     (if shouldEscape c
      then CHR ''%'' # hex_digit (of_char c div 16) # hex_digit (of_char c mod 16) # escape cs
      else c # escape cs)"

text \<open>\<open>unescape(s, encodePath)\<close>; \<open>None\<close> is an escape error.\<close>

fun unescape :: "string \<Rightarrow> string option" where
  "unescape [] = Some []"
| "unescape (c # cs) =
     (if c = CHR ''%'' then
        (case cs of
           a # b # ds \<Rightarrow>
             (case (hex_val a, hex_val b, unescape ds) of
                (Some x, Some y, Some t) \<Rightarrow> Some (char_of (16 * x + y) # t)
              | _ \<Rightarrow> None)
         | _ \<Rightarrow> None)
      else map_option (\<lambda>t. c # t) (unescape cs))"

definition validEncoded :: "string \<Rightarrow> bool" where
  "validEncoded s = (\<forall>c \<in> set s.
     c \<in> set ''!$&'' \<or> c = char_of (39 :: nat) \<or> c \<in> set ''()*+,;=:@[]%'' \<or> \<not> shouldEscape c)"

definition EscapedPath :: "url \<Rightarrow> string" where
  "EscapedPath u =
     (if RawPath u \<noteq> [] \<and> validEncoded (RawPath u) \<and> unescape (RawPath u) = Some (Path u)
      then RawPath u
      else if Path u = ''*'' then ''*'' else escape (Path u))"

text \<open>
  \<open>URL.String\<close> for a URL without user information, opaque part and fragment, which is what
  a request or a provider URL is here. Hosts are written as they are.
\<close>

definition url_String :: "url \<Rightarrow> string" where
  "url_String u =
     (let pre = (if Scheme u \<noteq> [] then Scheme u @ '':'' else [])
              @ (if UHost u \<noteq> [] \<or> (Scheme u \<noteq> [] \<and> Path u \<noteq> []) then ''//'' @ UHost u else []);
          p = EscapedPath u;
          pre' = (if p \<noteq> [] \<and> hd p \<noteq> CHR ''/'' \<and> UHost u \<noteq> [] then pre @ ''/'' else pre);
          dot = (if pre' = [] \<and> CHR '':'' \<in> set (takeWhile (\<lambda>c. c \<noteq> CHR ''/'') p)
                 then ''./'' else [])
      in pre' @ dot @ p @ (if RawQuery u \<noteq> [] then ''?'' @ RawQuery u else []))"

text \<open>
  \<open>URL.setPath\<close>: what parsing a path does. The decoded path is \<open>Path\<close>; the text itself is
  kept in \<open>RawPath\<close> only where it is not the default encoding.
\<close>

definition setPath :: "url \<Rightarrow> string \<Rightarrow> url option" where
  "setPath u p =
     (case unescape p of None \<Rightarrow> None
      | Some path \<Rightarrow>
          Some (u\<lparr>Path := path, RawPath := (if escape path = p then [] else p)\<rparr>))"

lemma escape_id: "\<forall>c \<in> set s. \<not> shouldEscape c \<Longrightarrow> escape s = s"
  by (induction s) auto

lemma escape_append [simp]: "escape (xs @ ys) = escape xs @ escape ys"
  by (induction xs) auto

lemma unescape_plain: "CHR ''%'' \<notin> set s \<Longrightarrow> unescape s = Some s"
  by (induction s) auto

lemma hex_val_digit [simp]: "d < 16 \<Longrightarrow> hex_val (hex_digit d) = Some d"
  by (auto simp: hex_val_def hex_digit_def Let_def)

lemma percent_escaped [simp]: "shouldEscape CHR ''%''"
  by (simp add: shouldEscape_def is_alnum_def)

lemma unescape_escape: "unescape (escape s) = Some s"
proof (induction s)
  case Nil
  show ?case by simp
next
  case (Cons c s)
  have b: "(of_char c :: nat) < 256" by (rule nat_of_char_less_256)
  then have "(of_char c :: nat) div 16 < 16" by (simp add: less_mult_imp_div_less)
  moreover have "16 * ((of_char c :: nat) div 16) + of_char c mod 16 = of_char c" by simp
  ultimately show ?case using Cons.IH by (auto simp: percent_escaped)
qed

text \<open>The text of a URL that was parsed from a path is that path.\<close>

lemma EscapedPath_setPath:
  assumes "setPath u p = Some v" and "validEncoded p"
  shows "EscapedPath v = p \<or> p = ''%2A'' \<and> EscapedPath v = ''*''"
proof -
  obtain path where un: "unescape p = Some path"
    and v: "v = u\<lparr>Path := path, RawPath := (if escape path = p then [] else p)\<rparr>"
    using assms(1) by (auto simp: setPath_def split: option.splits)
  show ?thesis
  proof (cases "escape path = p")
    case True
    have "escape ''*'' = ''%2A''"
      by code_simp
    with True v show ?thesis by (auto simp: EscapedPath_def)
  next
    case False
    then have "p \<noteq> []" using un by auto
    with False v un assms(2) show ?thesis by (simp add: EscapedPath_def)
  qed
qed

section \<open>Headers\<close>

type_synonym header = "string \<Rightarrow> string list option"

definition is_token_char :: "char \<Rightarrow> bool" where
  "is_token_char c \<longleftrightarrow> is_alnum c \<or> c \<in> set ''!#$%&*+-.^_`|~'' \<or> c = char_of (39 :: nat)"

definition to_upper :: "char \<Rightarrow> char" where
  "to_upper c = (let n = (of_char c :: nat) in if 97 \<le> n \<and> n \<le> 122 then char_of (n - 32) else c)"

definition to_lower :: "char \<Rightarrow> char" where
  "to_lower c = (let n = (of_char c :: nat) in if 65 \<le> n \<and> n \<le> 90 then char_of (n + 32) else c)"

fun canonical_from :: "bool \<Rightarrow> string \<Rightarrow> string" where
  "canonical_from up [] = []"
| "canonical_from up (c # cs) =
     (if up then to_upper c else to_lower c) # canonical_from (c = CHR ''-'') cs"

definition CanonicalHeaderKey :: "string \<Rightarrow> string" where
  "CanonicalHeaderKey k = (if \<forall>c \<in> set k. is_token_char c then canonical_from True k else k)"

definition header_Get :: "header \<Rightarrow> string \<Rightarrow> string" where
  "header_Get h k = (case h (CanonicalHeaderKey k) of Some (v # _) \<Rightarrow> v | _ \<Rightarrow> [])"

definition header_Set :: "string \<Rightarrow> string \<Rightarrow> header \<Rightarrow> header" where
  "header_Set k v h = h(CanonicalHeaderKey k \<mapsto> [v])"

definition header_Add :: "string \<Rightarrow> string \<Rightarrow> header \<Rightarrow> header" where
  "header_Add k v h =
     h(CanonicalHeaderKey k \<mapsto>
         (case h (CanonicalHeaderKey k) of None \<Rightarrow> [] | Some vs \<Rightarrow> vs) @ [v])"

definition header_Del :: "string \<Rightarrow> header \<Rightarrow> header" where
  "header_Del k h = h(CanonicalHeaderKey k := None)"

lemma canonical_keys [simp]:
  "CanonicalHeaderKey ''X-Call-Id'' = ''X-Call-Id''"
  "CanonicalHeaderKey ''X-Start-Time'' = ''X-Start-Time''"
  "CanonicalHeaderKey ''X-Served-By'' = ''X-Served-By''"
  "CanonicalHeaderKey ''X-Callback-Url'' = ''X-Callback-Url''"
  "CanonicalHeaderKey ''X-Forwarded-For'' = ''X-Forwarded-For''"
  "CanonicalHeaderKey ''X-Forwarded-Host'' = ''X-Forwarded-Host''"
  "CanonicalHeaderKey ''Accept'' = ''Accept''"
  "CanonicalHeaderKey ''Authorization'' = ''Authorization''"
  "CanonicalHeaderKey ''User-Agent'' = ''User-Agent''"
  "CanonicalHeaderKey ''Content-Type'' = ''Content-Type''"
  "CanonicalHeaderKey ''Content-Length'' = ''Content-Length''"
  "CanonicalHeaderKey ''X-Content-Type-Options'' = ''X-Content-Type-Options''"
  "CanonicalHeaderKey ''Access-Control-Allow-Headers'' = ''Access-Control-Allow-Headers''"
  "CanonicalHeaderKey ''Access-Control-Allow-Methods'' = ''Access-Control-Allow-Methods''"
  "CanonicalHeaderKey ''Access-Control-Allow-Origin'' = ''Access-Control-Allow-Origin''"
  by code_simp+

lemma header_Get_Set [simp]: "header_Get (header_Set k v h) k = v"
  by (simp add: header_Get_def header_Set_def)

lemma header_Get_Set_other:
  "CanonicalHeaderKey k \<noteq> CanonicalHeaderKey k' \<Longrightarrow>
   header_Get (header_Set k v h) k' = header_Get h k'"
  by (simp add: header_Get_def header_Set_def)

lemma header_Get_Del [simp]: "header_Get (header_Del k h) k = []"
  by (simp add: header_Get_def header_Del_def)

lemma header_Get_Add_empty:
  "h (CanonicalHeaderKey k) = None \<Longrightarrow> header_Get (header_Add k v h) k = v"
  by (simp add: header_Get_def header_Add_def)

section \<open>Requests and responses\<close>

text \<open>
  A body is what reading it to the end gives: the bytes and the error of \<open>io.ReadAll\<close>.
  \<open>RVars\<close> are the variables that the router stored for \<open>mux.Vars\<close>.
\<close>

type_synonym body = "string \<times> goerror"

record request =
  Method :: string
  URL :: url
  Header :: header
  RHost :: string
  RemoteAddr :: string
  Body :: "body option"
  RVars :: "string \<Rightarrow> string option"

record response =
  StatusCode :: int
  RespHeader :: header
  RespBody :: "body option"

abbreviation StatusOK :: int where "StatusOK \<equiv> 200"
abbreviation StatusAccepted :: int where "StatusAccepted \<equiv> 202"
abbreviation StatusBadRequest :: int where "StatusBadRequest \<equiv> 400"
abbreviation StatusNotFound :: int where "StatusNotFound \<equiv> 404"
abbreviation StatusMethodNotAllowed :: int where "StatusMethodNotAllowed \<equiv> 405"
abbreviation StatusInternalServerError :: int where "StatusInternalServerError \<equiv> 500"
abbreviation StatusNotImplemented :: int where "StatusNotImplemented \<equiv> 501"
abbreviation StatusBadGateway :: int where "StatusBadGateway \<equiv> 502"
abbreviation StatusProcessing :: int where "StatusProcessing \<equiv> 102"

section \<open>Response writers\<close>

text \<open>
  \<open>rw_sent\<close> is the status and the header that went out with it; later changes of the header
  do not reach the client. \<open>rw_events\<close> records the calls made on the writer, in order: it is
  what a wrapper around the writer sees.
\<close>

datatype rw_event = EvHeader int | EvBody string

record response_writer =
  rw_header :: header
  rw_sent :: "(int \<times> header) option"
  rw_body :: string
  rw_events :: "rw_event list"

definition new_writer :: response_writer where
  "new_writer = \<lparr>rw_header = (\<lambda>_. None), rw_sent = None, rw_body = [], rw_events = []\<rparr>"

text \<open>
  The server's \<open>WriteHeader\<close>: a second call is ignored, an invalid code panics, and an
  informational code (other than 101) does not end the header.
\<close>

definition WriteHeader :: "int \<Rightarrow> (response_writer, unit) prog" where
  "WriteHeader code = (\<lambda>w0. let w = w0\<lparr>rw_events := rw_events w0 @ [EvHeader code]\<rparr> in
     if rw_sent w \<noteq> None then (Val (), w)
     else if code < 100 \<or> code > 999 then (Panic ''invalid WriteHeader code'', w)
     else if code \<le> 199 \<and> code \<noteq> 101 then (Val (), w)
     else (Val (), w\<lparr>rw_sent := Some (code, rw_header w)\<rparr>))"

definition Write :: "string \<Rightarrow> (response_writer, unit) prog" where
  "Write d = modifyp (\<lambda>w. w\<lparr>rw_sent := (case rw_sent w of None \<Rightarrow> Some (200, rw_header w) | Some x \<Rightarrow> Some x),
       rw_body := rw_body w @ d, rw_events := rw_events w @ [EvBody d]\<rparr>)"

definition header_map :: "(header \<Rightarrow> header) \<Rightarrow> (response_writer, unit) prog" where
  "header_map f = modifyp (\<lambda>w. w\<lparr>rw_header := f (rw_header w)\<rparr>)"

text \<open>The status the client sees: 200 when the handler never set one.\<close>

definition final_status :: "response_writer \<Rightarrow> int" where
  "final_status w = (case rw_sent w of None \<Rightarrow> 200 | Some (c, _) \<Rightarrow> c)"

definition final_header :: "response_writer \<Rightarrow> header" where
  "final_header w = (case rw_sent w of None \<Rightarrow> rw_header w | Some (_, h) \<Rightarrow> h)"

section \<open>Handlers\<close>

record 'w hstate =
  rw :: response_writer
  hworld :: 'w

type_synonym 'w handler = "request \<Rightarrow> ('w hstate, unit) prog"

definition on_rw :: "(response_writer, 'a) prog \<Rightarrow> ('w hstate, 'a) prog" where
  "on_rw m = zoom rw (\<lambda>w s. s\<lparr>rw := w\<rparr>) m"

definition on_hworld :: "('w, 'a) prog \<Rightarrow> ('w hstate, 'a) prog" where
  "on_hworld m = zoom hworld (\<lambda>w s. s\<lparr>hworld := w\<rparr>) m"

text \<open>\<open>http.Error\<close>.\<close>

definition http_Error :: "string \<Rightarrow> int \<Rightarrow> ('w hstate, unit) prog" where
  "http_Error msg code =
     bindp (on_rw (header_map (\<lambda>h.
        header_Set ''X-Content-Type-Options'' ''nosniff''
          (header_Set ''Content-Type'' ''text/plain; charset=utf-8''
            (header_Del ''Content-Length'' h))))) (\<lambda>_.
     bindp (on_rw (WriteHeader code)) (\<lambda>_.
     on_rw (Write (msg @ [char_of (10 :: nat)]))))"

text \<open>
  \<open>httptest.NewRecorder\<close>: run the handler on a fresh writer and hand that writer back; the
  caller's own writer is untouched.
\<close>

definition with_recorder :: "'w handler \<Rightarrow> request \<Rightarrow> ('w hstate, response_writer) prog" where
  "with_recorder h r = (\<lambda>s. case h r \<lparr>rw = new_writer, hworld = hworld s\<rparr> of
      (Val (), t) \<Rightarrow> (Val (rw t), s\<lparr>hworld := hworld t\<rparr>)
    | (Panic e, t) \<Rightarrow> (Panic e, s\<lparr>hworld := hworld t\<rparr>))"

lemma on_rw_run [go_simps]: "on_rw m s = (case m (rw s) of (v, w) \<Rightarrow> (v, s\<lparr>rw := w\<rparr>))"
  by (simp add: on_rw_def zoom_def)

lemma on_hworld_run [go_simps]:
  "on_hworld m s = (case m (hworld s) of (v, w) \<Rightarrow> (v, s\<lparr>hworld := w\<rparr>))"
  by (simp add: on_hworld_def zoom_def)

lemma Write_run [go_simps]:
  "Write d w = (Val (), w\<lparr>rw_sent := (case rw_sent w of None \<Rightarrow> Some (200, rw_header w) | Some x \<Rightarrow> Some x),
     rw_body := rw_body w @ d, rw_events := rw_events w @ [EvBody d]\<rparr>)"
  by (simp add: Write_def modifyp_run)

lemma header_map_run [go_simps]: "header_map f w = (Val (), w\<lparr>rw_header := f (rw_header w)\<rparr>)"
  by (simp add: header_map_def modifyp_run)

lemma WriteHeader_fresh [go_simps]:
  "rw_sent w = None \<Longrightarrow> 200 \<le> code \<Longrightarrow> code \<le> 999 \<Longrightarrow>
   WriteHeader code w =
     (Val (), w\<lparr>rw_events := rw_events w @ [EvHeader code], rw_sent := Some (code, rw_header w)\<rparr>)"
  by (simp add: WriteHeader_def)

lemma http_Error_run:
  assumes "rw_sent (rw s) = None" "200 \<le> code" "code \<le> 999"
  shows "\<exists>t. http_Error msg code s = (Val (), t) \<and> final_status (rw t) = code
     \<and> rw_body (rw t) = rw_body (rw s) @ msg @ [char_of (10 :: nat)] \<and> hworld t = hworld s"
  using assms
  by (simp add: http_Error_def go_simps WriteHeader_fresh final_status_def)

end
