(* ===== verification/Middleware.thy ===== *)
theory Middleware
  imports GoHttp
begin

text \<open>
  Package \<open>pkg/middleware\<close>: the parser of function URLs (\<open>resolver.go\<close>), the base URL
  resolvers and path transformers, the namespace split (\<open>service_name.go\<close>) and the basic
  auth injector.
\<close>

section \<open>The function matcher\<close>

text \<open>
  \<open>FindStringSubmatch\<close> of the expression
  \<^verbatim>\<open>^/?(?:async-)?function/([^/?]+)([^?]*)\<close>: the whole match, the name (group 1) and the
  rest of the path (group 2), or the empty list when there is no match. The two optional
  parts are taken when they are there, and both groups are greedy.
\<close>

definition hasPathCount :: nat where "hasPathCount = 3"
definition routeIndex :: nat where "routeIndex = 0"
definition nameIndex :: nat where "nameIndex = 1"
definition pathIndex :: nat where "pathIndex = 2"

definition functionMatcher :: "string \<Rightarrow> string list" where
  "functionMatcher s =
     (let slash = (if HasPrefix s ''/'' then ''/'' else []);
          s1 = drop (length slash) s;
          async = (if HasPrefix s1 ''async-'' then ''async-'' else []);
          s2 = drop (length async) s1;
          s3 = drop (length ''function/'') s2;
          name = takeWhile (\<lambda>c. c \<noteq> CHR ''/'' \<and> c \<noteq> CHR ''?'') s3;
          rest = takeWhile (\<lambda>c. c \<noteq> CHR ''?'') (drop (length name) s3)
      in if HasPrefix s2 ''function/'' \<and> name \<noteq> []
         then [slash @ async @ ''function/'' @ name @ rest, name, rest]
         else [])"

section \<open>Service name and namespace\<close>

definition GetServiceName :: "string \<Rightarrow> string" where
  "GetServiceName urlValue =
     (let forward = ''/function/'';
          serviceName =
            (if HasPrefix urlValue forward then
               (let matches = functionMatcher urlValue
                in if length matches = hasPathCount then matches ! nameIndex else [])
             else [])
      in Trim serviceName ''/'')"

definition GetNamespace :: "string \<Rightarrow> string \<Rightarrow> string \<times> string" where
  "GetNamespace defaultNamespace fullName =
     (let index = LastIndexByte fullName CHR ''.''
      in if index > -1 then (take (nat index) fullName, drop (nat index + 1) fullName)
         else (fullName, defaultNamespace))"

section \<open>Base URL resolvers\<close>

record SingleHostBaseURLResolver =
  BaseURL :: string

definition SingleHost_Resolve :: "SingleHostBaseURLResolver \<Rightarrow> request \<Rightarrow> string" where
  "SingleHost_Resolve s r =
     (let baseURL = BaseURL s
      in if HasSuffix baseURL ''/'' then take (length baseURL - 1) baseURL else baseURL)"

text \<open>
  \<open>parse\<close> is \<open>url.Parse\<close>; the code ignores its error, so a base URL that does not parse is a
  nil dereference.
\<close>

definition SingleHost_BuildURL ::
  "(string \<Rightarrow> url option) \<Rightarrow> SingleHostBaseURLResolver \<Rightarrow> string \<Rightarrow> string \<Rightarrow> string \<Rightarrow> bool \<Rightarrow> string go" where
  "SingleHost_BuildURL parse s function namespace healthPath directFunctions =
     (case parse (BaseURL s) of
        None \<Rightarrow> Panic ''nil pointer dereference''
      | Some u \<Rightarrow>
          (let base = ''/function/'' @ function @ ''.'' @ namespace @ ''/''
           in Val (url_String
                (u\<lparr>Path := (if healthPath \<noteq> [] then path_Join [base, healthPath] else base)\<rparr>))))"

record FunctionAsHostBaseURLResolver =
  FunctionSuffix :: string
  FunctionNamespace :: string

definition watchdogPort :: int where "watchdogPort = 8080"

definition FunctionAsHost_Resolve :: "FunctionAsHostBaseURLResolver \<Rightarrow> request \<Rightarrow> string" where
  "FunctionAsHost_Resolve f r =
     (let svcName = GetServiceName (Path (URL r));
          suffix =
            (if FunctionSuffix f \<noteq> [] then
               (let index = LastIndexByte svcName CHR ''.''
                in if index > -1 \<and> int (length svcName) > index + 1
                   then ReplaceAll (FunctionSuffix f) (FunctionNamespace f) []
                   else ''.'' @ FunctionSuffix f)
             else [])
      in ''http://'' @ svcName @ suffix @ '':'' @ Itoa watchdogPort)"

definition FunctionAsHost_BuildURL ::
  "(string \<Rightarrow> url option) \<Rightarrow> FunctionAsHostBaseURLResolver \<Rightarrow> string \<Rightarrow> string \<Rightarrow> string \<Rightarrow> bool \<Rightarrow> string go" where
  "FunctionAsHost_BuildURL parse f function namespace healthPath directFunctions =
     (let svcName = function;
          suffix = (if FunctionSuffix f \<noteq> []
                    then ReplaceFirst (FunctionSuffix f) (FunctionNamespace f) namespace else [])
      in case parse (''http://'' @ svcName @ ''.'' @ suffix @ '':'' @ Itoa watchdogPort) of
           None \<Rightarrow> Panic ''nil pointer dereference''
         | Some u \<Rightarrow>
             Val (url_String (if healthPath \<noteq> [] then u\<lparr>Path := healthPath\<rparr> else u)))"

section \<open>Path transformers\<close>

definition Transparent_Transform :: "request \<Rightarrow> string" where
  "Transparent_Transform r = Path (URL r)"

definition FunctionPrefixTrimming_Transform :: "request \<Rightarrow> string" where
  "FunctionPrefixTrimming_Transform r =
     (let ret = Path (URL r)
      in if ret \<noteq> [] then
           (let parts = functionMatcher ret
            in if length parts = hasPathCount then parts ! pathIndex else ret)
         else ret)"

section \<open>Basic auth injector\<close>

record BasicAuthCredentials =
  User :: string
  Password :: string

text \<open>
  \<open>basic\<close> is the header value that \<open>SetBasicAuth\<close> writes for a user and a password. A nil
  request is \<open>None\<close>.
\<close>

definition SetBasicAuth :: "(string \<Rightarrow> string \<Rightarrow> string) \<Rightarrow> string \<Rightarrow> string \<Rightarrow> request \<Rightarrow> request" where
  "SetBasicAuth basic user pass r =
     r\<lparr>Header := header_Set ''Authorization'' (basic user pass) (Header r)\<rparr>"

definition BasicAuthInjector_Inject ::
  "(string \<Rightarrow> string \<Rightarrow> string) \<Rightarrow> BasicAuthCredentials option \<Rightarrow> request option \<Rightarrow> request option" where
  "BasicAuthInjector_Inject basic creds r =
     (case (r, creds) of
        (Some req, Some c) \<Rightarrow> Some (SetBasicAuth basic (User c) (Password c) req)
      | _ \<Rightarrow> r)"

section \<open>The matcher against the expression it stands for\<close>

text \<open>
  \<open>matches_at s w name rest\<close>: the expression matches the prefix \<open>w\<close> of \<open>s\<close> with the two
  groups \<open>name\<close> and \<open>rest\<close>, both as long as they can be.
\<close>

definition matches_at :: "string \<Rightarrow> string \<Rightarrow> string \<Rightarrow> string \<Rightarrow> bool" where
  "matches_at s w name rest \<longleftrightarrow>
     (\<exists>slash async tail.
        slash \<in> {[], ''/''} \<and> async \<in> {[], ''async-''} \<and>
        w = slash @ async @ ''function/'' @ name @ rest \<and> s = w @ tail \<and>
        name \<noteq> [] \<and> CHR ''/'' \<notin> set name \<and> CHR ''?'' \<notin> set name \<and>
        CHR ''?'' \<notin> set rest \<and> (rest = [] \<or> hd rest = CHR ''/'') \<and>
        (tail = [] \<or> hd tail = CHR ''?''))"

lemma takeWhile_stop:
  "\<forall>x \<in> set xs. P x \<Longrightarrow> ys = [] \<or> \<not> P (hd ys) \<Longrightarrow> takeWhile P (xs @ ys) = xs"
  by (cases ys) (auto simp: takeWhile_append2)

lemma takeWhile_rest:
  "drop (length (takeWhile P xs)) xs = [] \<or> \<not> P (hd (drop (length (takeWhile P xs)) xs))"
  by (metis dropWhile_eq_drop hd_dropWhile)

text \<open>The matcher on a text whose optional parts are known.\<close>

lemma functionMatcher_parts:
  assumes "slash \<in> {[], ''/''}" and "async \<in> {[], ''async-''}"
    and name: "name \<noteq> []" "CHR ''/'' \<notin> set name" "CHR ''?'' \<notin> set name"
    and rest: "CHR ''?'' \<notin> set rest" "rest = [] \<or> hd rest = CHR ''/''"
    and tail: "tail = [] \<or> hd tail = CHR ''?''"
  shows "functionMatcher (slash @ async @ ''function/'' @ name @ rest @ tail) =
    [slash @ async @ ''function/'' @ name @ rest, name, rest]"
proof -
  have t1: "takeWhile (\<lambda>c. c \<noteq> CHR ''/'' \<and> c \<noteq> CHR ''?'') (name @ rest @ tail) = name"
  proof (rule takeWhile_stop)
    show "\<forall>c \<in> set name. c \<noteq> CHR ''/'' \<and> c \<noteq> CHR ''?''" using name by auto
    show "rest @ tail = [] \<or> \<not> (hd (rest @ tail) \<noteq> CHR ''/'' \<and> hd (rest @ tail) \<noteq> CHR ''?'')"
      using rest tail by (cases rest) auto
  qed
  have t2: "takeWhile (\<lambda>c. c \<noteq> CHR ''?'') (rest @ tail) = rest"
    using rest tail by (intro takeWhile_stop) auto
  define X where "X = name @ rest @ tail"
  have X: "takeWhile (\<lambda>c. c \<noteq> CHR ''/'' \<and> c \<noteq> CHR ''?'') X = name"
    "takeWhile (\<lambda>c. c \<noteq> CHR ''?'') (drop (length name) X) = rest"
    using t1 t2 by (simp_all add: X_def)
  have "functionMatcher (slash @ async @ ''function/'' @ X) =
      [slash @ async @ ''function/'' @ name @ rest, name, rest]"
    using assms(1,2)
    by (elim insertE emptyE; simp add: functionMatcher_def HasPrefix_def X name(1))
  then show ?thesis by (simp add: X_def)
qed

lemma functionMatcher_iff: "functionMatcher s = [w, name, rest] \<longleftrightarrow> matches_at s w name rest"
proof
  assume "matches_at s w name rest"
  then obtain slash async tail where
    "slash \<in> {[], ''/''}" "async \<in> {[], ''async-''}"
    and w: "w = slash @ async @ ''function/'' @ name @ rest" and s: "s = w @ tail"
    and "name \<noteq> []" "CHR ''/'' \<notin> set name" "CHR ''?'' \<notin> set name"
    "CHR ''?'' \<notin> set rest" "rest = [] \<or> hd rest = CHR ''/''" "tail = [] \<or> hd tail = CHR ''?''"
    unfolding matches_at_def by blast
  then have "functionMatcher (slash @ async @ ''function/'' @ name @ rest @ tail) =
      [slash @ async @ ''function/'' @ name @ rest, name, rest]"
    by (intro functionMatcher_parts)
  then show "functionMatcher s = [w, name, rest]" unfolding s w by simp
next
  assume m: "functionMatcher s = [w, name, rest]"
  define slash where "slash = (if HasPrefix s ''/'' then ''/'' else [])"
  define s1 where "s1 = drop (length slash) s"
  define async where "async = (if HasPrefix s1 ''async-'' then ''async-'' else [])"
  define s2 where "s2 = drop (length async) s1"
  define s3 where "s3 = drop (length ''function/'') s2"
  define tail where "tail = drop (length rest) (drop (length name) s3)"
  define nm where "nm = takeWhile (\<lambda>c. c \<noteq> CHR ''/'' \<and> c \<noteq> CHR ''?'') s3"
  define rs where "rs = takeWhile (\<lambda>c. c \<noteq> CHR ''?'') (drop (length nm) s3)"
  have "functionMatcher s = (if HasPrefix s2 ''function/'' \<and> nm \<noteq> []
      then [slash @ async @ ''function/'' @ nm @ rs, nm, rs] else [])"
    by (simp only: functionMatcher_def Let_def slash_def s1_def async_def s2_def s3_def nm_def rs_def)
  with m have eq: "(if HasPrefix s2 ''function/'' \<and> nm \<noteq> []
      then [slash @ async @ ''function/'' @ nm @ rs, nm, rs] else []) = [w, name, rest]"
    by metis
  then have pre: "HasPrefix s2 ''function/''" and ne: "nm \<noteq> []"
    by (metis list.distinct(1))+
  with eq have "[slash @ async @ ''function/'' @ nm @ rs, nm, rs] = [w, name, rest]" by metis
  then have w: "w = slash @ async @ ''function/'' @ name @ rest" and nm: "nm = name" and rs: "rs = rest"
    by (metis list.inject)+
  note name = nm_def [unfolded nm] and rest = rs_def [unfolded nm rs]
  have "s = slash @ s1" by (auto simp: slash_def s1_def HasPrefix_iff)
  moreover have "s1 = async @ s2" by (auto simp: async_def s2_def HasPrefix_iff)
  moreover have "s2 = ''function/'' @ s3" using pre by (auto simp: s3_def HasPrefix_iff)
  moreover have "s3 = name @ rest @ tail"
    unfolding tail_def by (metis append_take_drop_id name rest takeWhile_eq_take)
  ultimately have s: "s = w @ tail" by (simp add: w)
  have nn: "CHR ''/'' \<notin> set name" "CHR ''?'' \<notin> set name"
    using name set_takeWhileD by fastforce+
  have nr: "CHR ''?'' \<notin> set rest" using rest set_takeWhileD by fastforce
  have rh: "rest = [] \<or> hd rest = CHR ''/''"
  proof (cases "drop (length name) s3")
    case Nil
    then show ?thesis by (simp add: rest)
  next
    case (Cons c cs)
    then have "\<not> (c \<noteq> CHR ''/'' \<and> c \<noteq> CHR ''?'')"
      using takeWhile_rest [of "\<lambda>c. c \<noteq> CHR ''/'' \<and> c \<noteq> CHR ''?''" s3] unfolding name [symmetric]
      by simp
    with Cons show ?thesis by (auto simp: rest)
  qed
  have th: "tail = [] \<or> hd tail = CHR ''?''"
    using takeWhile_rest [of "\<lambda>c. c \<noteq> CHR ''?''" "drop (length name) s3"]
    unfolding tail_def rest [symmetric] by simp
  have sl: "slash \<in> {[], ''/''}" and as: "async \<in> {[], ''async-''}"
    by (simp_all add: slash_def async_def)
  show "matches_at s w name rest"
    unfolding matches_at_def
    by (rule exI [of _ slash], rule exI [of _ async], rule exI [of _ tail])
      (intro conjI sl as w s ne [unfolded nm] nn nr rh th)
qed

text \<open>
  C34: the matcher answers the whole match and the two groups exactly when the expression
  \<^verbatim>\<open>^/?(?:async-)?function/([^/?]+)([^?]*)\<close> matches with groups as long as they can be.
\<close>

theorem functionMatcher_correct: "functionMatcher s = [w, name, rest] \<longleftrightarrow> matches_at s w name rest"
  by (rule functionMatcher_iff)

section \<open>Names, paths and namespaces\<close>

lemma functionMatcher_cases: "functionMatcher s = [] \<or> (\<exists>w name rest. functionMatcher s = [w, name, rest])"
  by (simp add: functionMatcher_def Let_def)

lemma functionMatcher_name:
  assumes "functionMatcher s = [w, name, rest]"
  shows "name \<noteq> []" "CHR ''/'' \<notin> set name" "CHR ''?'' \<notin> set name"
  using assms by (auto simp: functionMatcher_iff matches_at_def)

text \<open>The name a path \<open>/function/name...\<close> is split into, and what is left of the path.\<close>

lemma functionMatcher_function:
  assumes "name \<noteq> []" "CHR ''/'' \<notin> set name" "CHR ''?'' \<notin> set name"
    and "CHR ''?'' \<notin> set rest" "rest = [] \<or> hd rest = CHR ''/''"
    and "tail = [] \<or> hd tail = CHR ''?''"
  shows "functionMatcher (''/function/'' @ name @ rest @ tail) =
    [''/function/'' @ name @ rest, name, rest]"
  using functionMatcher_parts [of "''/''" "[]" name rest tail] assms by simp

lemma GetServiceName_clean:
  "CHR ''/'' \<notin> set (GetServiceName s)" "CHR ''?'' \<notin> set (GetServiceName s)"
proof -
  have "\<exists>n. GetServiceName s = Trim n ''/'' \<and> CHR ''/'' \<notin> set n \<and> CHR ''?'' \<notin> set n"
  proof (cases "HasPrefix s ''/function/''")
    case True
    then show ?thesis
      using functionMatcher_cases [of s] functionMatcher_name [of s]
      by (auto simp: GetServiceName_def hasPathCount_def nameIndex_def simp del: HasPrefix_append)
  next
    case False
    then show ?thesis by (auto simp: GetServiceName_def)
  qed
  then show "CHR ''/'' \<notin> set (GetServiceName s)" "CHR ''?'' \<notin> set (GetServiceName s)"
    by (auto simp: Trim_no_cut)
qed

text \<open>
  a request path \<open>/function/name/rest\<close> (with or without a query in the text of the URL)
  is taken apart without loss: \<open>GetServiceName\<close> finds exactly the name, and the prefix
  trimming transformer passes on exactly the rest.
\<close>

theorem function_path_split:
  assumes name: "name \<noteq> []" "CHR ''/'' \<notin> set name" "CHR ''?'' \<notin> set name"
    and rest: "CHR ''?'' \<notin> set rest" "rest = [] \<or> hd rest = CHR ''/''"
    and tail: "tail = [] \<or> hd tail = CHR ''?''"
    and path: "Path (URL r) = ''/function/'' @ name @ rest"
  shows "GetServiceName (''/function/'' @ name @ rest @ tail) = name \<and>
    FunctionPrefixTrimming_Transform r = rest"
proof
  have "HasPrefix (''/function/'' @ name @ rest @ tail) ''/function/''"
    by (rule HasPrefix_append)
  with functionMatcher_function [OF name rest tail]
  show "GetServiceName (''/function/'' @ name @ rest @ tail) = name"
    using name(2) by (simp add: GetServiceName_def hasPathCount_def nameIndex_def Trim_no_cut
        del: append_Cons)
  show "FunctionPrefixTrimming_Transform r = rest"
    using functionMatcher_function [OF name rest, of "[]"]
    by (simp add: FunctionPrefixTrimming_Transform_def hasPathCount_def pathIndex_def path)
qed

theorem function_path_split_witness:
  "GetServiceName ''/function/figlet.fn/a/b?x=1'' = ''figlet.fn''"
  using function_path_split [of "''figlet.fn''" "''/a/b''" "''?x=1''"
      "\<lparr>Method = ''GET'', URL = \<lparr>Scheme = [], UHost = [], Path = ''/function/figlet.fn/a/b'',
         RawPath = [], RawQuery = ''x=1''\<rparr>, Header = (\<lambda>_. None), RHost = [], RemoteAddr = [],
         Body = None, RVars = (\<lambda>_. None)\<rparr>"]
  by simp

text \<open>
  \<open>GetNamespace\<close> splits a name at its last dot and at no other: the parts join back to
  the name, the namespace holds no dot, and a name without a dot gets the default namespace.
\<close>

theorem GetNamespace_correct:
  "GetNamespace d full = (fn, ns) \<longleftrightarrow>
     (if CHR ''.'' \<in> set full then full = fn @ ''.'' @ ns \<and> CHR ''.'' \<notin> set ns
      else fn = full \<and> ns = d)"
proof (cases "CHR ''.'' \<in> set full")
  case True
  then obtain a b where full: "full = a @ CHR ''.'' # b" and b: "CHR ''.'' \<notin> set b"
    by (metis split_list_last)
  have "GetNamespace d full = (a, b)"
    using b by (simp add: GetNamespace_def full LastIndexByte_split nat_add_distrib)
  moreover have "full = fn @ ''.'' @ ns \<and> CHR ''.'' \<notin> set ns \<longleftrightarrow> a = fn \<and> b = ns"
    using b last_split_unique [of "CHR ''.''" b ns a fn] by (auto simp: full)
  ultimately show ?thesis using True by simp
next
  case False
  then show ?thesis by (auto simp: GetNamespace_def)
qed

lemma GetNamespace_join [simp]: "CHR ''.'' \<notin> set ns \<Longrightarrow> GetNamespace d (fn @ CHR ''.'' # ns) = (fn, ns)"
  by (simp add: GetNamespace_def LastIndexByte_split nat_add_distrib)

lemma GetNamespace_plain [simp]: "CHR ''.'' \<notin> set fn \<Longrightarrow> GetNamespace d fn = (fn, d)"
  by (simp add: GetNamespace_def)

text \<open>
  the injector writes the Authorization header of the configured user and leaves every
  other part of the request alone; without credentials, or on a nil request, it does nothing.
\<close>

theorem Inject_correct:
  "BasicAuthInjector_Inject basic creds r =
     (case creds of None \<Rightarrow> r
      | Some c \<Rightarrow> map_option (\<lambda>q. q\<lparr>Header := (Header q)(''Authorization'' \<mapsto> [basic (User c) (Password c)])\<rparr>) r)"
  by (auto simp: BasicAuthInjector_Inject_def SetBasicAuth_def header_Set_def split: option.splits)

end
