(* ===== verification/GoUrl.thy ===== *)
theory GoUrl
  imports GoHttp
begin

text \<open>
  The part of \<open>net/url\<close> and \<open>net/http\<close> that turns text into requests and requests into
  responses: \<open>url.Parse\<close>, \<open>http.NewRequest\<close> and clients. The parser covers hierarchical URLs;
  URLs with user information, an opaque part or an escaped host, which the gateway's base URLs
  and paths do not have, are answered \<open>None\<close> here, and a fragment is dropped.
\<close>

section \<open>Parsing URLs\<close>

definition is_ctl :: "char \<Rightarrow> bool" where
  "is_ctl c \<longleftrightarrow> (of_char c :: nat) < 32 \<or> (of_char c :: nat) = 127"

definition is_letter :: "char \<Rightarrow> bool" where
  "is_letter c \<longleftrightarrow> is_alnum c \<and> \<not> (48 \<le> (of_char c :: nat) \<and> (of_char c :: nat) \<le> 57)"

text \<open>\<open>strings.Cut\<close> at the first \<open>c\<close>.\<close>

definition cut_at :: "char \<Rightarrow> string \<Rightarrow> string \<times> string option" where
  "cut_at c s = (case dropWhile (\<lambda>x. x \<noteq> c) s of
     [] \<Rightarrow> (s, None)
   | _ # t \<Rightarrow> (takeWhile (\<lambda>x. x \<noteq> c) s, Some t))"

text \<open>
  \<open>getScheme\<close>: \<open>None\<close> is the error of a missing scheme; \<open>acc\<close> is the prefix read so far.
\<close>

fun get_scheme :: "string \<Rightarrow> string \<Rightarrow> string \<Rightarrow> (string \<times> string) option" where
  "get_scheme raw acc [] = Some ([], raw)"
| "get_scheme raw acc (c # cs) =
     (if is_letter c then get_scheme raw (acc @ [c]) cs
      else if is_alnum c \<or> c \<in> set ''+-.'' then
        if acc = [] then Some ([], raw) else get_scheme raw (acc @ [c]) cs
      else if c = CHR '':'' then if acc = [] then None else Some (acc, cs)
      else Some ([], raw))"

text \<open>Hosts: the allowed bytes, and an optional port of digits after the last colon.\<close>

definition host_char :: "char \<Rightarrow> bool" where
  "host_char c \<longleftrightarrow> is_alnum c \<or> c \<in> set ''-_.~!$&()*+,;=:[]<>'' \<or> c = char_of (39 :: nat) \<or> c = char_of (34 :: nat)
     \<or> 128 \<le> (of_char c :: nat)"

definition port_ok :: "string \<Rightarrow> bool" where
  "port_ok p \<longleftrightarrow> (\<forall>c \<in> set p. 48 \<le> (of_char c :: nat) \<and> (of_char c :: nat) \<le> 57)"

definition after_last :: "char \<Rightarrow> string \<Rightarrow> string" where
  "after_last c s = rev (takeWhile (\<lambda>x. x \<noteq> c) (rev s))"

definition host_ok :: "string \<Rightarrow> bool" where
  "host_ok h \<longleftrightarrow> (\<forall>c \<in> set h. host_char c) \<and>
     (if HasPrefix h ''['' then CHR '']'' \<in> set h \<and>
        (let p = after_last CHR '']'' h in p = [] \<or> hd p = CHR '':'' \<and> port_ok (tl p))
      else CHR '':'' \<in> set h \<longrightarrow> port_ok (after_last CHR '':'' h))"

definition url_Parse :: "string \<Rightarrow> url option" where
  "url_Parse raw0 =
     (case cut_at CHR ''#'' raw0 of (raw, fragment) \<Rightarrow>
        if (\<exists>c \<in> set raw. is_ctl c) \<or> (case fragment of None \<Rightarrow> False | Some f \<Rightarrow> unescape f = None) then None
        else if raw = ''*'' then Some \<lparr>Scheme = [], UHost = [], Path = ''*'', RawPath = [], RawQuery = []\<rparr>
        else (case get_scheme raw [] raw of None \<Rightarrow> None
          | Some (scheme, rest0) \<Rightarrow>
             (case cut_at CHR ''?'' rest0 of (rest, query) \<Rightarrow>
                let u = \<lparr>Scheme = map to_lower scheme, UHost = [], Path = [], RawPath = [],
                         RawQuery = (case query of None \<Rightarrow> [] | Some q \<Rightarrow> q)\<rparr>
                in if \<not> HasPrefix rest ''/'' \<and> (scheme \<noteq> [] \<or> CHR '':'' \<in> set (takeWhile (\<lambda>c. c \<noteq> CHR ''/'') rest))
                   then None
                   else if (scheme \<noteq> [] \<or> \<not> HasPrefix rest ''///'') \<and> HasPrefix rest ''//'' then
                     (let authority = takeWhile (\<lambda>c. c \<noteq> CHR ''/'') (drop 2 rest);
                          path = dropWhile (\<lambda>c. c \<noteq> CHR ''/'') (drop 2 rest)
                      in if host_ok authority then setPath (u\<lparr>UHost := authority\<rparr>) path else None)
                   else setPath u rest)))"

lemma cut_at_absent [simp]: "c \<notin> set s \<Longrightarrow> cut_at c s = (s, None)"
proof -
  assume "c \<notin> set s"
  then have "dropWhile (\<lambda>x. x \<noteq> c) s = []" unfolding dropWhile_eq_Nil_conv by blast
  then show ?thesis unfolding cut_at_def by (simp only: list.case)
qed

lemma cut_at_present [simp]: "c \<notin> set s \<Longrightarrow> cut_at c (s @ c # t) = (s, Some t)"
  by (induction s) (auto simp: cut_at_def split: list.splits)

text \<open>A URL under \<open>http://host\<close>: parsing it fails exactly when its path does not decode.\<close>

lemma url_Parse_http:
  assumes "host_ok h" "CHR ''/'' \<notin> set h" "CHR ''?'' \<notin> set h" "CHR ''#'' \<notin> set h" "\<forall>c \<in> set (h @ p). \<not> is_ctl c"
    "p = [] \<or> hd p = CHR ''/''" "CHR ''?'' \<notin> set p" "CHR ''#'' \<notin> set p"
  shows "url_Parse (''http://'' @ h @ p) =
    setPath \<lparr>Scheme = ''http'', UHost = h, Path = [], RawPath = [], RawQuery = []\<rparr> p"
proof -
  have s: "get_scheme raw [] (''http://'' @ h @ p) = Some (''http'', ''//'' @ h @ p)" for raw
    by (simp add: is_letter_def is_alnum_def)
  have ctl: "\<not> (\<exists>c \<in> set (''http://'' @ h @ p). is_ctl c)"
    using assms(5) by (auto simp: is_ctl_def)
  have t: "takeWhile (\<lambda>c. c \<noteq> CHR ''/'') (h @ p) = h" "dropWhile (\<lambda>c. c \<noteq> CHR ''/'') (h @ p) = p"
    using assms(2,6) by (cases p; auto simp: takeWhile_append dropWhile_append)+
  have "cut_at CHR ''#'' (''http://'' @ h @ p) = (''http://'' @ h @ p, None)"
    "cut_at CHR ''?'' (''//'' @ h @ p) = (''//'' @ h @ p, None)"
    using assms by (intro cut_at_absent; simp)+
  with s ctl t assms(1) show ?thesis
    by (simp add: url_Parse_def Let_def HasPrefix_def to_lower_def)
qed

text \<open>A URL under \<open>http://host\<close> with a query.\<close>

lemma url_Parse_query:
  assumes "host_ok h" "CHR ''/'' \<notin> set h" "CHR ''?'' \<notin> set h" "CHR ''#'' \<notin> set h" "\<forall>c \<in> set (h @ p @ q). \<not> is_ctl c"
    "p = [] \<or> hd p = CHR ''/''" "CHR ''?'' \<notin> set p" "CHR ''#'' \<notin> set p" "CHR ''#'' \<notin> set q"
  shows "url_Parse (''http://'' @ h @ p @ CHR ''?'' # q) =
    setPath \<lparr>Scheme = ''http'', UHost = h, Path = [], RawPath = [], RawQuery = q\<rparr> p"
proof -
  have s: "get_scheme raw [] (''http://'' @ t) = Some (''http'', ''//'' @ t)" for raw t
    by (simp add: is_letter_def is_alnum_def)
  have ctl: "\<not> (\<exists>c \<in> set (''http://'' @ h @ p @ CHR ''?'' # q). is_ctl c)"
    using assms(5) by (auto simp: is_ctl_def)
  have t: "takeWhile (\<lambda>c. c \<noteq> CHR ''/'') (h @ p) = h" "dropWhile (\<lambda>c. c \<noteq> CHR ''/'') (h @ p) = p"
    using assms(2,6) by (cases p; auto simp: takeWhile_append dropWhile_append)+
  have c1: "cut_at CHR ''#'' (''http://'' @ h @ p @ CHR ''?'' # q) = (''http://'' @ h @ p @ CHR ''?'' # q, None)"
    using assms by (intro cut_at_absent) simp
  have "CHR ''?'' \<notin> set (''//'' @ h @ p)" using assms by simp
  from cut_at_present [OF this, of q]
  have c2: "cut_at CHR ''?'' (''//'' @ h @ p @ CHR ''?'' # q) = (''//'' @ h @ p, Some q)" by simp
  show ?thesis using s ctl t assms(1) c1 c2
    by (simp add: url_Parse_def Let_def HasPrefix_def to_lower_def)
qed

definition plain_target :: "string \<Rightarrow> string \<Rightarrow> string \<Rightarrow> bool" where
  "plain_target h p q \<longleftrightarrow> host_ok h \<and> CHR ''/'' \<notin> set h \<and> CHR ''?'' \<notin> set h \<and> CHR ''#'' \<notin> set h
     \<and> (\<forall>c \<in> set (h @ p @ q). \<not> is_ctl c) \<and> (p = [] \<or> hd p = CHR ''/'') \<and> CHR ''?'' \<notin> set p \<and> CHR ''#'' \<notin> set p
     \<and> CHR ''#'' \<notin> set q"

text \<open>A URL under \<open>http://host\<close> with a path and a query, both as they are written.\<close>

lemma url_Parse_plain:
  assumes "plain_target h p q"
  shows "url_Parse (''http://'' @ h @ p @ (if q = [] then [] else ''?'' @ q)) =
    setPath \<lparr>Scheme = ''http'', UHost = h, Path = [], RawPath = [], RawQuery = q\<rparr> p"
  using assms url_Parse_http [of h p] url_Parse_query [of h p q] by (simp add: plain_target_def)

text \<open>A fragment is dropped, once it decodes; the path ends at the first \<open>?\<close>, whatever follows.\<close>

lemma url_Parse_fragment:
  assumes "CHR ''#'' \<notin> set raw" "unescape f \<noteq> None"
  shows "url_Parse (raw @ CHR ''#'' # f) = url_Parse raw"
proof -
  obtain g where "unescape f = Some g" using assms(2) by blast
  with assms(1) show ?thesis by (simp add: url_Parse_def)
qed

lemma url_Parse_cut:
  assumes "plain_target h p []" "q = [] \<or> hd q = CHR ''?''" "\<forall>c \<in> set q. \<not> is_ctl c \<and> c \<noteq> CHR ''#''"
    and "f = [] \<or> hd f = CHR ''#'' \<and> unescape (tl f) \<noteq> None"
  shows "url_Parse (''http://'' @ h @ p @ q @ f) = setPath \<lparr>Scheme = ''http'', UHost = h, Path = [], RawPath = [], RawQuery = tl q\<rparr> p"
proof -
  have n: "CHR ''#'' \<notin> set (''http://'' @ h @ p @ q)" using assms(1,3) by (auto simp: plain_target_def)
  have "url_Parse ((''http://'' @ h @ p @ q) @ f) = url_Parse (''http://'' @ h @ p @ q)"
  proof (cases f)
    case (Cons c g)
    with assms(4) have "f = CHR ''#'' # g" "unescape g \<noteq> None" by simp_all
    then show ?thesis using url_Parse_fragment [OF n] by (simp only:)
  qed simp
  also have "\<dots> = setPath \<lparr>Scheme = ''http'', UHost = h, Path = [], RawPath = [], RawQuery = tl q\<rparr> p"
    using assms(1-3) url_Parse_http [of h p] url_Parse_query [of h p "tl q"] by (cases q) (auto simp: plain_target_def)
  finally show ?thesis by simp
qed

definition plain_path :: "string \<Rightarrow> bool" where
  "plain_path p \<longleftrightarrow> p \<noteq> [] \<and> hd p = CHR ''/'' \<and> (\<forall>c \<in> set p. \<not> shouldEscape c)"

lemma plain_char: "\<not> shouldEscape c \<Longrightarrow> \<not> is_ctl c \<and> c \<noteq> CHR ''?'' \<and> c \<noteq> CHR ''#'' \<and> c \<noteq> CHR ''%''"
  by (auto simp: shouldEscape_def is_alnum_def is_ctl_def Let_def)

lemma url_String_plain:
  assumes "plain_path p" "h \<noteq> []"
  shows "url_String \<lparr>Scheme = ''http'', UHost = h, Path = p, RawPath = [], RawQuery = q\<rparr>
    = ''http://'' @ h @ p @ (if q = [] then [] else ''?'' @ q)"
  using assms by (auto simp: url_String_def Let_def EscapedPath_def plain_path_def escape_id)

text \<open>Printing such a URL and parsing the text gives it back.\<close>

lemma url_reparse:
  assumes "plain_path p" "plain_target h [] q" "h \<noteq> []"
  shows "url_Parse (url_String \<lparr>Scheme = ''http'', UHost = h, Path = p, RawPath = [], RawQuery = q\<rparr>)
    = Some \<lparr>Scheme = ''http'', UHost = h, Path = p, RawPath = [], RawQuery = q\<rparr>"
proof -
  have c: "\<And>x. x \<in> set p \<Longrightarrow> \<not> is_ctl x \<and> x \<noteq> CHR ''?'' \<and> x \<noteq> CHR ''#'' \<and> x \<noteq> CHR ''%''"
    using assms(1) plain_char unfolding plain_path_def by blast
  then have "plain_target h p q" using assms(1,2) by (auto simp: plain_target_def plain_path_def)
  moreover have "unescape p = Some p" using c by (intro unescape_plain) blast
  moreover have "escape p = p" using assms(1) by (simp add: plain_path_def escape_id)
  ultimately show ?thesis
    by (simp only: url_String_plain [OF assms(1,3)] url_Parse_plain) (simp add: setPath_def)
qed

section \<open>Requests\<close>

text \<open>\<open>removeEmptyPort\<close>.\<close>

definition remove_empty_port :: "string \<Rightarrow> string" where
  "remove_empty_port h = (if LastIndexByte h CHR '':'' > LastIndexByte h CHR '']'' then TrimSuffix h '':'' else h)"

definition http_NewRequest :: "string \<Rightarrow> string \<Rightarrow> body option \<Rightarrow> request option" where
  "http_NewRequest method raw body =
     (let m = (if method = [] then ''GET'' else method)
      in if \<not> (\<forall>c \<in> set m. is_token_char c) then None
         else (case url_Parse raw of None \<Rightarrow> None
           | Some u \<Rightarrow> Some \<lparr>Method = m, URL = u\<lparr>UHost := remove_empty_port (UHost u)\<rparr>, Header = (\<lambda>_. None),
               RHost = remove_empty_port (UHost u), RemoteAddr = [], Body = body, RVars = (\<lambda>_. None)\<rparr>))"

section \<open>Clients\<close>

text \<open>
  \<open>http.Client.Do\<close>: the response, nil where the request failed, and the error. What is at the
  other end is the world \<open>'w\<close>.
\<close>

type_synonym 'w client = "request \<Rightarrow> ('w, response option \<times> goerror) prog"

end
