(* ===== verification/Router.thy ===== *)
theory Router
  imports Middleware GoUrl
begin

text \<open>
  The request router the gateway is wired with (gorilla/mux, in the repository's vendor directory),
  as far as the gateway's routes use it: path templates, methods, path prefixes, and the redirect
  to the clean path. A template is a list of pieces; after a name piece every template ends or
  goes on with a slash, which is no name character, so a name is matched in one way only.
\<close>

section \<open>Templates\<close>

datatype piece =
    Lit string
  | Name string      \<comment> \<open>one or more of the characters of \<open>NameExpression\<close>\<close>
  | NameOpt string   \<comment> \<open>any number of them\<close>
  | Params string    \<comment> \<open>anything but a line break, to the end\<close>
  | AnyRest          \<comment> \<open>the rest of a path prefix\<close>

text \<open>\<open>NameExpression\<close>: \<^verbatim>\<open>-a-zA-Z_0-9.\<close>\<close>

definition name_char :: "char \<Rightarrow> bool" where
  "name_char c \<longleftrightarrow> is_alnum c \<or> c \<in> set ''-_.''"

type_synonym vars = "(string \<times> string) list"

fun match_pieces :: "piece list \<Rightarrow> string \<Rightarrow> vars option" where
  "match_pieces [] s = (if s = [] then Some [] else None)"
| "match_pieces (Lit l # ps) s = (if HasPrefix s l then match_pieces ps (drop (length l) s) else None)"
| "match_pieces (Name v # ps) s =
     (if takeWhile name_char s = [] then None
      else map_option (\<lambda>vs. (v, takeWhile name_char s) # vs) (match_pieces ps (dropWhile name_char s)))"
| "match_pieces (NameOpt v # ps) s =
     map_option (\<lambda>vs. (v, takeWhile name_char s) # vs) (match_pieces ps (dropWhile name_char s))"
| "match_pieces (Params v # ps) s = (if char_of (10 :: nat) \<in> set s then None else Some [(v, s)])"
| "match_pieces (AnyRest # ps) s = Some []"

section \<open>Routes\<close>

text \<open>A route without methods takes every method.\<close>

type_synonym 'h route = "piece list \<times> string list \<times> 'h"

datatype 'h found = Dispatch 'h vars | MethodMismatch | NoRoute

fun find_route :: "'h route list \<Rightarrow> string \<Rightarrow> string \<Rightarrow> 'h found" where
  "find_route [] method path = NoRoute"
| "find_route ((t, ms, h) # rs) method path =
     (case match_pieces t path of
        None \<Rightarrow> find_route rs method path
      | Some vs \<Rightarrow>
          if ms = [] \<or> method \<in> set ms then Dispatch h vs
          else (case find_route rs method path of NoRoute \<Rightarrow> MethodMismatch | f \<Rightarrow> f))"

definition cleanPath :: "string \<Rightarrow> string" where
  "cleanPath p0 =
     (if p0 = [] then ''/''
      else (let p = (if hd p0 = CHR ''/'' then p0 else CHR ''/'' # p0);
                np = path_Clean p
            in if last p = CHR ''/'' \<and> np \<noteq> ''/'' then np @ ''/'' else np))"

definition Router_ServeHTTP :: "'w handler route list \<Rightarrow> 'w handler" where
  "Router_ServeHTTP routes r =
     (let p = cleanPath (Path (URL r))
      in if p \<noteq> Path (URL r) then
           bindp (on_rw (header_map (header_Set ''Location'' (url_String ((URL r)\<lparr>Path := p\<rparr>))))) (\<lambda>_.
             on_rw (WriteHeader 301))
         else (case find_route routes (Method r) p of
             Dispatch h vs \<Rightarrow> h (r\<lparr>RVars := map_of vs\<rparr>)
           | MethodMismatch \<Rightarrow> on_rw (WriteHeader StatusMethodNotAllowed)
           | NoRoute \<Rightarrow> http_Error ''404 page not found'' StatusNotFound))"

section \<open>What a lookup finds\<close>

lemma find_route_Dispatch:
  "find_route rs m p = Dispatch h vs \<Longrightarrow> \<exists>t ms. (t, ms, h) \<in> set rs \<and> match_pieces t p = Some vs \<and> (ms = [] \<or> m \<in> set ms)"
  by (induction rs m p rule: find_route.induct) (auto split: option.splits if_splits found.splits)

lemma match_Lit_prefix: "match_pieces (Lit l # ps) s = Some vs \<Longrightarrow> HasPrefix s l"
  by (simp split: if_splits)

lemma match_Lit_only: "match_pieces [Lit l] s = (if s = l then Some [] else None)"
  by (auto simp: HasPrefix_iff)

lemma takeWhile_name:
  assumes "\<forall>c \<in> set name. name_char c" "rest = [] \<or> \<not> name_char (hd rest)"
  shows "takeWhile name_char (name @ rest) = name" "dropWhile name_char (name @ rest) = rest"
  using assms by (cases rest; simp add: takeWhile_append2 dropWhile_append2 takeWhile_eq_all_conv [THEN iffD2] dropWhile_eq_Nil_conv [THEN iffD2])+

text \<open>The three templates of a function's routes on a path below the prefix \<open>l\<close>.\<close>

lemma match_name:
  assumes "name \<noteq> []" "\<forall>c \<in> set name. name_char c" "rest = [] \<or> hd rest = CHR ''/''"
  shows "match_pieces [Lit l, Name v] (l @ name @ rest) = (if rest = [] then Some [(v, name)] else None)"
    and "match_pieces [Lit l, Name v, Lit ''/''] (l @ name @ rest) = (if rest = ''/'' then Some [(v, name)] else None)"
    and "match_pieces [Lit l, Name v, Lit ''/'', Params u] (l @ name @ rest) =
      (if rest \<noteq> [] \<and> char_of (10 :: nat) \<notin> set rest then Some [(v, name), (u, tl rest)] else None)"
proof -
  have "\<not> name_char CHR ''/''" by code_simp
  then have "rest = [] \<or> \<not> name_char (hd rest)" using assms(3) by auto
  note n = takeWhile_name [OF assms(2) this]
  have l: "match_pieces (Lit l # ps) (l @ s) = match_pieces ps s" for ps s by simp
  show "match_pieces [Lit l, Name v] (l @ name @ rest) = (if rest = [] then Some [(v, name)] else None)"
    using assms(1) n by (simp add: l del: match_pieces.simps(2))
  show "match_pieces [Lit l, Name v, Lit ''/''] (l @ name @ rest) = (if rest = ''/'' then Some [(v, name)] else None)"
    using assms(1) n by (simp add: l match_Lit_only del: match_pieces.simps(2))
  have "CHR ''/'' \<noteq> char_of (10 :: nat)" by code_simp
  then have "match_pieces [Lit ''/'', Params u] rest =
      (if rest \<noteq> [] \<and> char_of (10 :: nat) \<notin> set rest then Some [(u, tl rest)] else None)"
    using assms(3) by (cases rest) (auto simp: HasPrefix_def)
  then show "match_pieces [Lit l, Name v, Lit ''/'', Params u] (l @ name @ rest) =
      (if rest \<noteq> [] \<and> char_of (10 :: nat) \<notin> set rest then Some [(v, name), (u, tl rest)] else None)"
    using assms(1) n by (simp add: l del: match_pieces.simps(2))
qed

section \<open>Guarded routes\<close>

lemma Router_answers:
  assumes "rw_sent (rw s) = None"
    and "\<And>h vs. find_route routes (Method r) (Path (URL r)) = Dispatch h vs \<Longrightarrow>
      \<exists>t. h (r\<lparr>RVars := map_of vs\<rparr>) s = (Val (), t) \<and> final_status (rw t) \<in> S \<and> hworld t = hworld s"
    and "{301, 404, 405} \<subseteq> S"
  shows "\<exists>t. Router_ServeHTTP routes r s = (Val (), t) \<and> final_status (rw t) \<in> S \<and> hworld t = hworld s"
proof (cases "cleanPath (Path (URL r)) = Path (URL r)")
  case False
  then show ?thesis using assms(1,3)
    by (simp add: Router_ServeHTTP_def Let_def go_simps WriteHeader_fresh final_status_def)
next
  case True
  have e: "\<exists>t. http_Error ''404 page not found'' 404 s = (Val (), t) \<and> hworld t = hworld s \<and> final_status (rw t) = 404"
    using http_Error_run [OF assms(1), of 404] by auto
  show ?thesis
  proof (cases "find_route routes (Method r) (Path (URL r))")
    case (Dispatch h vs)
    from assms(2) [OF this] Dispatch True show ?thesis by (simp add: Router_ServeHTTP_def Let_def)
  next
    case MethodMismatch
    then show ?thesis using True assms(1,3)
      by (simp add: Router_ServeHTTP_def Let_def go_simps WriteHeader_fresh final_status_def)
  next
    case NoRoute
    then show ?thesis using True e assms(3) by (auto simp: Router_ServeHTTP_def Let_def)
  qed
qed

text \<open>
  A router whose routes, but for those of the open paths, refuse every request that is not allowed:
  they answer 401 and touch nothing.
\<close>

locale guarded_router =
  fixes routes :: "'w handler route list" and allowed :: "request \<Rightarrow> bool" and is_open :: "string \<Rightarrow> bool"
  assumes refuses: "(t, ms, h) \<in> set routes \<Longrightarrow> match_pieces t p = Some vs \<Longrightarrow> \<not> is_open p \<Longrightarrow>
      rw_sent (rw s) = None \<Longrightarrow> \<not> allowed r \<Longrightarrow>
      \<exists>u. h r s = (Val (), u) \<and> final_status (rw u) = 401 \<and> hworld u = hworld s"
    and allowed_vars: "allowed (r\<lparr>RVars := v\<rparr>) = allowed r"
begin

lemma router_refuses:
  assumes "\<not> allowed r" "\<not> is_open (Path (URL r))" "rw_sent (rw s) = None"
  shows "\<exists>t. Router_ServeHTTP routes r s = (Val (), t) \<and> final_status (rw t) \<in> {301, 401, 404, 405} \<and> hworld t = hworld s"
proof (rule Router_answers [OF assms(3)])
  fix h vs
  assume f: "find_route routes (Method r) (Path (URL r)) = Dispatch h vs"
  obtain t ms where "(t, ms, h) \<in> set routes" "match_pieces t (Path (URL r)) = Some vs"
    using find_route_Dispatch [OF f] by blast
  from refuses [OF this assms(2,3), of "r\<lparr>RVars := map_of vs\<rparr>"] assms(1)
  show "\<exists>t. h (r\<lparr>RVars := map_of vs\<rparr>) s = (Val (), t) \<and> final_status (rw t) \<in> {301, 401, 404, 405} \<and> hworld t = hworld s"
    by (auto simp: allowed_vars)
qed auto

end

end
