(* ===== verification/BasicAuth.thy ===== *)
theory BasicAuth
  imports Middleware GoUrl
begin

text \<open>
  Basic authentication: base64, the header \<open>Request.SetBasicAuth\<close> writes and \<open>Request.BasicAuth\<close>
  reads, and the middleware \<open>DecorateWithBasicAuth\<close> of the faas-provider library (its file
  \<open>auth/basic_auth.go\<close>), which guards the gateway's management routes.
\<close>

section \<open>Base64\<close>

definition base64_alphabet :: string where
  "base64_alphabet = ''ABCDEFGHIJKLMNOPQRSTUVWXYZabcdefghijklmnopqrstuvwxyz0123456789+/''"

definition enc6 :: "nat \<Rightarrow> char" where
  "enc6 n = base64_alphabet ! n"

definition dec6 :: "char \<Rightarrow> nat option" where
  "dec6 c = (let i = length (takeWhile (\<lambda>x. x \<noteq> c) base64_alphabet) in if i < 64 then Some i else None)"

abbreviation byte :: "char \<Rightarrow> nat" where "byte c \<equiv> of_char c"

fun base64_encode :: "string \<Rightarrow> string" where
  "base64_encode [] = []"
| "base64_encode [a] = [enc6 (byte a div 4), enc6 (byte a mod 4 * 16), CHR ''='', CHR ''='']"
| "base64_encode [a, b] =
     [enc6 (byte a div 4), enc6 (byte a mod 4 * 16 + byte b div 16), enc6 (byte b mod 16 * 4), CHR ''='']"
| "base64_encode (a # b # c # s) =
     enc6 (byte a div 4) # enc6 (byte a mod 4 * 16 + byte b div 16) # enc6 (byte b mod 16 * 4 + byte c div 64)
       # enc6 (byte c mod 64) # base64_encode s"

text \<open>
  The decoder works in quadruples after line breaks are dropped; only the last one may be padded.
  Bits beyond the last byte are not looked at.
\<close>

fun base64_quads :: "string \<Rightarrow> string option" where
  "base64_quads [] = Some []"
| "base64_quads (p # q # r # t # s) =
     (case (dec6 p, dec6 q) of
        (Some w, Some x) \<Rightarrow>
          if r = CHR ''='' then (if t = CHR ''='' \<and> s = [] then Some [char_of (w * 4 + x div 16)] else None)
          else (case dec6 r of None \<Rightarrow> None
            | Some y \<Rightarrow>
                if t = CHR ''='' then
                  (if s = [] then Some [char_of (w * 4 + x div 16), char_of (x mod 16 * 16 + y div 4)] else None)
                else (case (dec6 t, base64_quads s) of
                    (Some z, Some d) \<Rightarrow>
                      Some (char_of (w * 4 + x div 16) # char_of (x mod 16 * 16 + y div 4) # char_of (y mod 4 * 64 + z) # d)
                  | _ \<Rightarrow> None))
      | _ \<Rightarrow> None)"
| "base64_quads s = None"

definition base64_decode :: "string \<Rightarrow> string option" where
  "base64_decode s = base64_quads (filter (\<lambda>c. c \<noteq> char_of (13 :: nat) \<and> c \<noteq> char_of (10 :: nat)) s)"

lemma alphabet_length: "length base64_alphabet = 64"
  by (simp add: base64_alphabet_def)

lemma alphabet_index: "\<forall>n < 64. dec6 (enc6 n) = Some n \<and> enc6 n \<noteq> CHR ''='' \<and> enc6 n \<notin> {char_of (13 :: nat), char_of (10 :: nat)}"
  by code_simp

lemma dec6_enc6 [simp]: "n < 64 \<Longrightarrow> dec6 (enc6 n) = Some n" "n < 64 \<Longrightarrow> enc6 n \<noteq> CHR ''=''"
  using alphabet_index by auto

lemma byte_bound: "byte a < 256"
  by (rule nat_of_char_less_256)

lemma sextets:
  "byte a div 4 < 64" "byte a mod 4 * 16 < 64" "byte a mod 4 * 16 + byte b div 16 < 64" "byte b mod 16 * 4 < 64"
  "byte b mod 16 * 4 + byte c div 64 < 64" "byte c mod 64 < 64"
  using byte_bound [of a] byte_bound [of b] byte_bound [of c] by linarith+

lemma joined_bits:
  "byte a div 4 * 4 + (byte a mod 4 * 16) div 16 = byte a"
  "byte a div 4 * 4 + (byte a mod 4 * 16 + byte b div 16) div 16 = byte a"
  "(byte a mod 4 * 16 + byte b div 16) mod 16 * 16 + (byte b mod 16 * 4) div 4 = byte b"
  "(byte a mod 4 * 16 + byte b div 16) mod 16 * 16 + (byte b mod 16 * 4 + byte c div 64) div 4 = byte b"
  "(byte b mod 16 * 4 + byte c div 64) mod 4 * 64 + byte c mod 64 = byte c"
proof -
  have b: "byte b div 16 < 16" and c: "byte c div 64 < 4" using byte_bound [of b] byte_bound [of c] by linarith+
  have d: "(k * 16 + byte b div 16) div 16 = k" "(k * 16 + byte b div 16) mod 16 = byte b div 16"
    "(k * 4 + byte c div 64) div 4 = k" "(k * 4 + byte c div 64) mod 4 = byte c div 64" for k
    using b c by simp_all
  show "byte a div 4 * 4 + (byte a mod 4 * 16) div 16 = byte a"
    "byte a div 4 * 4 + (byte a mod 4 * 16 + byte b div 16) div 16 = byte a"
    "(byte a mod 4 * 16 + byte b div 16) mod 16 * 16 + (byte b mod 16 * 4) div 4 = byte b"
    "(byte a mod 4 * 16 + byte b div 16) mod 16 * 16 + (byte b mod 16 * 4 + byte c div 64) div 4 = byte b"
    "(byte b mod 16 * 4 + byte c div 64) mod 4 * 64 + byte c mod 64 = byte c"
    unfolding d by simp_all
qed

lemma base64_quads_encode: "base64_quads (base64_encode s) = Some s"
proof (induction s rule: base64_encode.induct)
  case (4 a b c s)
  then show ?case
    using sextets(1) [of a] sextets(2) [of a] sextets(3) [of a b] sextets(4) [of b] sextets(5) [of b c] sextets(6) [of c]
      joined_bits(2) [of a b] joined_bits(4) [of a b c] joined_bits(5) [of b c]
    by (simp del: mult_div_mod_eq mod_mult_self1 mod_mult_self2 mod_mult_self3 mod_mult_self4 div_mult_self1 div_mult_self2 div_mult_self3 div_mult_self4)
next
  case (3 a b)
  then show ?case
    using sextets(1) [of a] sextets(3) [of a b] sextets(4) [of b] joined_bits(2) [of a b] joined_bits(3) [of a b]
    by (simp del: mult_div_mod_eq mod_mult_self1 mod_mult_self2 mod_mult_self3 mod_mult_self4 div_mult_self1 div_mult_self2 div_mult_self3 div_mult_self4)
next
  case (2 a)
  then show ?case using sextets(1) [of a] sextets(2) [of a] joined_bits(1) [of a] by simp
qed simp

lemma base64_encode_chars: "x \<in> set (base64_encode s) \<Longrightarrow> x = CHR ''='' \<or> (\<exists>n < 64. x = enc6 n)"
proof (induction s rule: base64_encode.induct)
  case (4 a b c s)
  have l: "\<exists>n < 64. enc6 (byte c mod 64) = enc6 n" by (rule exI [of _ "byte c mod 64"]) simp
  from 4(2) consider "x = enc6 (byte a div 4)" | "x = enc6 (byte a mod 4 * 16 + byte b div 16)"
    | "x = enc6 (byte b mod 16 * 4 + byte c div 64)" | "x = enc6 (byte c mod 64)" | "x \<in> set (base64_encode s)"
    by (simp only: base64_encode.simps list.set insert_iff) blast
  then show ?case
    by cases (use sextets(1) [of a] sextets(3) [of a b] sextets(5) [of b c] l 4(1) in blast)+
next
  case (3 a b)
  have l: "\<exists>n < 64. enc6 (byte b mod 16 * 4) = enc6 n" using sextets(4) [of b] by blast
  from 3 show ?case using sextets(1) [of a] sextets(3) [of a b] l by auto
next
  case (2 a)
  have l: "\<exists>n < 64. enc6 (byte a mod 4 * 16) = enc6 n" using sextets(2) [of a] by blast
  from 2 show ?case using sextets(1) [of a] l by auto
qed simp

lemma base64_decode_encode: "base64_decode (base64_encode s) = Some s"
proof -
  have "x \<noteq> char_of (13 :: nat) \<and> x \<noteq> char_of (10 :: nat)" if "x \<in> set (base64_encode s)" for x
  proof -
    have "CHR ''='' \<noteq> char_of (13 :: nat) \<and> CHR ''='' \<noteq> char_of (10 :: nat)" by code_simp
    then show ?thesis using base64_encode_chars [OF that] alphabet_index by auto
  qed
  then show ?thesis by (simp add: base64_decode_def base64_quads_encode cong: filter_cong)
qed

section \<open>Credentials in a request\<close>

definition basic_value :: "string \<Rightarrow> string \<Rightarrow> string" where
  "basic_value username password = ''Basic '' @ base64_encode (username @ '':'' @ password)"

definition request_BasicAuth :: "request \<Rightarrow> (string \<times> string) option" where
  "request_BasicAuth r =
     (let auth = header_Get (Header r) ''Authorization''
      in if length auth < 6 \<or> map to_lower (take 6 auth) \<noteq> ''basic '' then None
         else (case base64_decode (drop 6 auth) of
             None \<Rightarrow> None
           | Some cs \<Rightarrow> (case cut_at CHR '':'' cs of
               (username, Some password) \<Rightarrow> Some (username, password)
             | (_, None) \<Rightarrow> None)))"

definition StatusUnauthorized :: int where
  "StatusUnauthorized = 401"

definition basic_realm :: string where
  "basic_realm = ''Basic realm='' @ [char_of (34 :: nat)] @ ''Restricted'' @ [char_of (34 :: nat)]"

text \<open>\<open>ConstantTimeCompare\<close> answers whether the two byte strings are equal.\<close>

definition DecorateWithBasicAuth :: "'w handler \<Rightarrow> BasicAuthCredentials \<Rightarrow> 'w handler" where
  "DecorateWithBasicAuth nxt creds r =
     (if (case request_BasicAuth r of None \<Rightarrow> True
          | Some (user, password) \<Rightarrow> user \<noteq> User creds \<or> Password creds \<noteq> password)
      then bindp (on_rw (header_map (header_Set ''WWW-Authenticate'' basic_realm))) (\<lambda>_.
           bindp (on_rw (WriteHeader StatusUnauthorized)) (\<lambda>_. on_rw (Write ''invalid credentials'')))
      else nxt r)"

section \<open>Properties\<close>

lemma auth_gate:
  "DecorateWithBasicAuth nxt creds r = (if request_BasicAuth r = Some (User creds, Password creds) then nxt r
     else bindp (on_rw (header_map (header_Set ''WWW-Authenticate'' basic_realm))) (\<lambda>_.
           bindp (on_rw (WriteHeader StatusUnauthorized)) (\<lambda>_. on_rw (Write ''invalid credentials''))))"
  by (auto simp: DecorateWithBasicAuth_def split: option.splits)

lemma auth_refuses:
  assumes "rw_sent (rw s) = None" "request_BasicAuth r \<noteq> Some (User creds, Password creds)"
  shows "\<exists>t. DecorateWithBasicAuth nxt creds r s = (Val (), t) \<and> final_status (rw t) = 401 \<and> hworld t = hworld s
    \<and> rw_body (rw t) = rw_body (rw s) @ ''invalid credentials''"
  using assms by (simp add: auth_gate go_simps WriteHeader_fresh StatusUnauthorized_def final_status_def)

lemma request_BasicAuth_value:
  assumes "Header r ''Authorization'' = Some [basic_value user password]"
  shows "request_BasicAuth r = (case cut_at CHR '':'' (user @ '':'' @ password) of
     (u, Some p) \<Rightarrow> Some (u, p) | (_, None) \<Rightarrow> None)"
proof -
  have "header_Get (Header r) ''Authorization'' = ''Basic '' @ base64_encode (user @ '':'' @ password)"
    using assms by (simp add: header_Get_def basic_value_def)
  moreover have "map to_lower ''Basic '' = ''basic ''" by code_simp
  ultimately show ?thesis by (simp add: request_BasicAuth_def base64_decode_encode split: prod.split option.split)
qed

text \<open>
  C31: the header that the gateway writes for its own calls to the provider carries exactly the
  configured user and password, whatever bytes they have, and a guard with the same credentials lets
  the call through, provided the user has no colon.
\<close>

theorem injected_credentials_accepted:
  assumes "CHR '':'' \<notin> set (User creds)"
  shows "\<exists>q. BasicAuthInjector_Inject basic_value (Some creds) (Some r) = Some q
    \<and> request_BasicAuth q = Some (User creds, Password creds)
    \<and> DecorateWithBasicAuth nxt creds q = nxt q"
proof -
  let ?q = "SetBasicAuth basic_value (User creds) (Password creds) r"
  have "Header ?q ''Authorization'' = Some [basic_value (User creds) (Password creds)]"
    by (simp add: SetBasicAuth_def header_Set_def)
  from request_BasicAuth_value [OF this] have "request_BasicAuth ?q = Some (User creds, Password creds)"
    using assms by simp
  then show ?thesis by (simp add: BasicAuthInjector_Inject_def auth_gate)
qed

text \<open>
  with a colon in the configured user every call is refused with 401, the gateway's own
  included: the header is cut at its first colon.
\<close>

theorem colon_in_user_locks_out:
  assumes "CHR '':'' \<in> set (User creds)" "rw_sent (rw s) = None"
  shows "\<exists>t. DecorateWithBasicAuth nxt creds r s = (Val (), t) \<and> final_status (rw t) = 401 \<and> hworld t = hworld s"
proof -
  have "CHR '':'' \<notin> set u" if "request_BasicAuth r = Some (u, p)" for u p
  proof -
    obtain cs where "cut_at CHR '':'' cs = (u, Some p)"
      using \<open>request_BasicAuth r = Some (u, p)\<close>
      by (auto simp: request_BasicAuth_def Let_def split: if_splits option.splits prod.splits)
    then have "u = takeWhile (\<lambda>x. x \<noteq> CHR '':'') cs" by (auto simp: cut_at_def split: list.splits)
    then show ?thesis using set_takeWhileD by fastforce
  qed
  then have "request_BasicAuth r \<noteq> Some (User creds, Password creds)" using assms(1) by blast
  with auth_refuses [OF assms(2)] show ?thesis by blast
qed

section \<open>Witnesses\<close>

definition demo_credentials :: BasicAuthCredentials where
  "demo_credentials = \<lparr>User = ''admin'', Password = ''s:3cret''\<rparr>"

definition demo_plain_request :: request where
  "demo_plain_request = \<lparr>Method = ''GET'', URL = \<lparr>Scheme = [], UHost = [], Path = ''/system/info'', RawPath = [], RawQuery = []\<rparr>,
     Header = (\<lambda>_. None), RHost = ''gw'', RemoteAddr = ''1.2.3.4:5'', Body = None, RVars = (\<lambda>_. None)\<rparr>"

lemma injected_credentials_accepted_witness:
  "\<exists>q. BasicAuthInjector_Inject basic_value (Some demo_credentials) (Some demo_plain_request) = Some q
    \<and> request_BasicAuth q = Some (''admin'', ''s:3cret'')"
  using injected_credentials_accepted [of demo_credentials demo_plain_request] by (auto simp: demo_credentials_def)

lemma colon_in_user_locks_out_witness:
  "\<exists>t. DecorateWithBasicAuth (\<lambda>r. retp ()) \<lparr>User = ''a:b'', Password = ''pw''\<rparr> demo_plain_request \<lparr>rw = new_writer, hworld = (0 :: nat)\<rparr> = (Val (), t)
    \<and> final_status (rw t) = 401"
  using colon_in_user_locks_out [of "\<lparr>User = ''a:b'', Password = ''pw''\<rparr>" "\<lparr>rw = new_writer, hworld = (0 :: nat)\<rparr>" "\<lambda>r. retp ()" demo_plain_request]
  by (auto simp: new_writer_def)

end
