(* ===== verification/GoQuery.thy ===== *)
theory GoQuery
  imports GoUrl "HOL-Library.List_Lexorder" "HOL-Library.Char_ord"
begin

text \<open>
  Query strings: the part of \<open>net/url\<close> that escapes, parses and encodes them. \<open>url.Values\<close> is
  the list of its pairs in the order they were added; only the order of the values of one key
  and the sorted order of the keys are ever observed.
\<close>

section \<open>Escaping\<close>

text \<open>\<open>shouldEscape(c, encodeQueryComponent)\<close>.\<close>

definition query_plain :: "char \<Rightarrow> bool" where
  "query_plain c \<longleftrightarrow> is_alnum c \<or> c \<in> set ''-_.~''"

fun QueryEscape :: "string \<Rightarrow> string" where
  "QueryEscape [] = []"
| "QueryEscape (c # cs) =
     (if query_plain c then c # QueryEscape cs
      else if c = CHR '' '' then CHR ''+'' # QueryEscape cs
      else CHR ''%'' # hex_digit (of_char c div 16) # hex_digit (of_char c mod 16) # QueryEscape cs)"

fun QueryUnescape :: "string \<Rightarrow> string option" where
  "QueryUnescape [] = Some []"
| "QueryUnescape (c # cs) =
     (if c = CHR ''%'' then
        (case cs of
           a # b # ds \<Rightarrow>
             (case (hex_val a, hex_val b, QueryUnescape ds) of
                (Some x, Some y, Some t) \<Rightarrow> Some (char_of (16 * x + y) # t)
              | _ \<Rightarrow> None)
         | _ \<Rightarrow> None)
      else map_option (\<lambda>t. (if c = CHR ''+'' then CHR '' '' else c) # t) (QueryUnescape cs))"

lemma query_plain_special [simp]:
  "\<not> query_plain CHR ''%''" "\<not> query_plain CHR ''+''" "\<not> query_plain CHR ''&''" "\<not> query_plain CHR '';''"
  "\<not> query_plain CHR ''=''" "\<not> query_plain CHR ''#''"
  by (simp_all add: query_plain_def is_alnum_def)

lemma hex_digit_plain: "d < 16 \<Longrightarrow> query_plain (hex_digit d)"
  by (auto simp: query_plain_def hex_digit_def is_alnum_def Let_def)

lemma char_halves: "(of_char c :: nat) div 16 < 16 \<and> (of_char c :: nat) mod 16 < 16"
  using nat_of_char_less_256 [of c] by (simp add: less_mult_imp_div_less)

lemma QueryUnescape_QueryEscape: "QueryUnescape (QueryEscape s) = Some s"
proof (induction s)
  case (Cons c s)
  have "char_of (16 * ((of_char c :: nat) div 16) + of_char c mod 16) = c"
    by (simp only: mult_div_mod_eq char_of_char)
  then have h: "QueryUnescape (QueryEscape (c # s)) = Some (c # s)" if "\<not> query_plain c" "c \<noteq> CHR '' ''"
    using that Cons.IH char_halves [of c] by simp
  have "c \<noteq> CHR ''%''" "c \<noteq> CHR ''+''" if "query_plain c" using that by auto
  with Cons.IH h show ?case by (cases "query_plain c"; cases "c = CHR '' ''") simp_all
qed simp

lemma QueryEscape_chars: "x \<in> set (QueryEscape s) \<Longrightarrow> query_plain x \<or> x = CHR ''%'' \<or> x = CHR ''+''"
proof (induction s)
  case (Cons c s)
  then show ?case using char_halves [of c] by (auto simp: hex_digit_plain split: if_splits)
qed simp

lemma QueryEscape_free: "c \<in> set ''&;=#'' \<Longrightarrow> c \<notin> set (QueryEscape s)"
  using QueryEscape_chars [of c s] by auto

section \<open>Values\<close>

type_synonym qvalues = "(string \<times> string) list"

definition parse_pair :: "string \<Rightarrow> qvalues" where
  "parse_pair w =
     (if CHR '';'' \<in> set w \<or> w = [] then []
      else (case cut_at CHR ''='' w of (k, v) \<Rightarrow>
        (case (QueryUnescape k, QueryUnescape (case v of None \<Rightarrow> [] | Some x \<Rightarrow> x)) of
           (Some k', Some v') \<Rightarrow> [(k', v')]
         | _ \<Rightarrow> [])))"

text \<open>\<open>URL.Query\<close>: pairs that do not parse are dropped.\<close>

definition url_Query :: "string \<Rightarrow> qvalues" where
  "url_Query q = concat (map parse_pair (split_on CHR ''&'' q))"

definition values_Set :: "string \<Rightarrow> string \<Rightarrow> qvalues \<Rightarrow> qvalues" where
  "values_Set k v vs = filter (\<lambda>p. fst p \<noteq> k) vs @ [(k, v)]"

definition encode_pair :: "string \<times> string \<Rightarrow> string" where
  "encode_pair p = QueryEscape (fst p) @ ''='' @ QueryEscape (snd p)"

definition values_Encode :: "qvalues \<Rightarrow> string" where
  "values_Encode vs = join_with ''&'' (map encode_pair (sort_key fst vs))"

definition values_Get :: "qvalues \<Rightarrow> string \<Rightarrow> string option" where
  "values_Get vs k = map_of vs k"

section \<open>Reading an encoded query back\<close>

lemma split_on_free: "c \<notin> set w \<Longrightarrow> split_on c (w @ c # s) = w # split_on c s"
  by (induction w) auto

lemma split_on_none: "c \<notin> set w \<Longrightarrow> split_on c w = [w]"
  by (induction w) auto

lemma split_on_join:
  "ws \<noteq> [] \<Longrightarrow> \<forall>w \<in> set ws. c \<notin> set w \<Longrightarrow> split_on c (join_with [c] ws) = ws"
  by (induction "[c]" ws rule: join_with.induct) (auto simp: split_on_free split_on_none)

lemma encode_pair_free: "CHR ''&'' \<notin> set (encode_pair p)"
  by (simp add: encode_pair_def QueryEscape_free)

lemma parse_encode_pair: "parse_pair (encode_pair p) = [p]"
proof -
  have f: "CHR ''='' \<notin> set (QueryEscape (fst p))" "CHR '';'' \<notin> set (encode_pair p)"
    by (simp_all add: encode_pair_def QueryEscape_free)
  have "cut_at CHR ''='' (encode_pair p) = (QueryEscape (fst p), Some (QueryEscape (snd p)))"
    unfolding encode_pair_def using cut_at_present [OF f(1)] by simp
  moreover have "encode_pair p \<noteq> []" by (simp add: encode_pair_def)
  ultimately show ?thesis using f(2) by (simp add: parse_pair_def QueryUnescape_QueryEscape)
qed

lemma url_Query_Encode: "url_Query (values_Encode vs) = sort_key fst vs"
proof (cases "vs = []")
  case True
  then show ?thesis by (simp add: values_Encode_def url_Query_def parse_pair_def)
next
  case False
  then have "sort_key fst vs \<noteq> []" by (metis length_0_conv length_sort)
  then have "split_on CHR ''&'' (values_Encode vs) = map encode_pair (sort_key fst vs)"
    unfolding values_Encode_def by (intro split_on_join) (auto simp: encode_pair_free)
  then show ?thesis by (simp add: url_Query_def comp_def parse_encode_pair)
qed

text \<open>Sorting by key is stable, so the first value of every key stays the same.\<close>

lemma map_of_filter_key: "map_of vs k = map_of (filter (\<lambda>p. fst p = k) vs) k"
  by (induction vs) auto

lemma map_of_sort_key: "map_of (sort_key fst vs) k = map_of vs k"
  using map_of_filter_key [of "sort_key fst vs" k] map_of_filter_key [of vs k]
  by (simp add: sort_key_stable)

lemma map_of_values_Set: "map_of (values_Set k v vs) k' = (if k' = k then Some v else map_of vs k')"
proof (cases "k' = k")
  case True
  then have "map_of (filter (\<lambda>p. fst p \<noteq> k) vs) k = None" by (auto simp: map_of_eq_None_iff)
  with True show ?thesis by (simp add: values_Set_def map_add_def)
next
  case False
  then have "map_of (filter (\<lambda>p. fst p \<noteq> k) vs) k' = map_of vs k'" by (induction vs) auto
  with False show ?thesis by (simp add: values_Set_def map_add_def split: option.split)
qed

lemma read_back_Set:
  "values_Get (url_Query (values_Encode (values_Set k v (url_Query q)))) k' =
    (if k' = k then Some v else values_Get (url_Query q) k')"
  by (simp add: values_Get_def url_Query_Encode map_of_sort_key map_of_values_Set)

end
