(* ===== verification/Float64.thy ===== *)
theory Float64
  imports Complex_Main "HOL-Library.Log_Nat"
begin

text \<open>
  The float64 arithmetic the replica calculation uses: non-negative values as rationals, every
  operation rounded to 53 significant bits, ties to even. The values of the program lie between
  1/100 and 2 to the 64, far from the overflow and the subnormal range of the format.
\<close>

text \<open>Round to the nearest integer, ties to even.\<close>

definition round_even :: "rat \<Rightarrow> int" where
  "round_even x = (let d = \<lfloor>x\<rfloor>; r = x - of_int d
     in if r < 1 / 2 \<or> r = 1 / 2 \<and> even d then d else d + 1)"

text \<open>The exponent that puts \<open>x\<close> between 2 to the 52 and 2 to the 53.\<close>

definition exponent :: "rat \<Rightarrow> int" where
  "exponent x = (case quotient_of x of (p, q) \<Rightarrow>
     let e = int (floorlog 2 (nat p)) - int (floorlog 2 (nat q)) - 53
     in if x / 2 powi e < 2 ^ 53 then e else e + 1)"

definition float64 :: "rat \<Rightarrow> rat" where
  "float64 x = (if x \<le> 0 then 0 else of_int (round_even (x / 2 powi exponent x)) * 2 powi exponent x)"

lemma round_even_near: "\<bar>of_int (round_even x) - x\<bar> \<le> 1 / 2"
proof -
  have "of_int \<lfloor>x\<rfloor> \<le> x" "x < of_int \<lfloor>x\<rfloor> + 1" by linarith+
  then show ?thesis unfolding round_even_def Let_def abs_le_iff by (auto simp: not_less; linarith)
qed

lemma nat_bits: "0 < p \<Longrightarrow> (2::rat) ^ (floorlog 2 (nat p) - 1) \<le> of_int p \<and> of_int p < (2::rat) ^ floorlog 2 (nat p)
   \<and> 0 < floorlog 2 (nat p)" for p :: int
proof -
  assume p: "0 < p"
  then have b: "2 ^ (floorlog 2 (nat p) - 1) \<le> nat p \<and> nat p < 2 ^ floorlog 2 (nat p)"
    using floorlog_bounds [of "nat p" 2] by simp
  have r: "of_nat (nat p) = (of_int p :: rat)" using p by simp
  from b have "(of_nat (2 ^ (floorlog 2 (nat p) - 1)) :: rat) \<le> of_nat (nat p)"
    "(of_nat (nat p) :: rat) < of_nat (2 ^ floorlog 2 (nat p))" by (meson of_nat_le_iff of_nat_less_iff)+
  moreover have "0 < floorlog 2 (nat p)" using p by (simp add: floorlog_def)
  ultimately show ?thesis unfolding r by simp
qed

text \<open>The mantissa has 53 bits.\<close>

lemma exponent_bounds:
  assumes "0 < x"
  shows "2 ^ 52 \<le> x / 2 powi exponent x \<and> x / 2 powi exponent x < 2 ^ 53"
proof -
  obtain p q where q: "quotient_of x = (p, q)" by (cases "quotient_of x")
  then have x: "x = of_int p / of_int q" and "0 < q" by (rule quotient_of_div, rule quotient_of_denom_pos)
  then have "0 < p" using assms by (simp add: zero_less_divide_iff)
  define a b where ab: "a = floorlog 2 (nat p)" "b = floorlog 2 (nat q)"
  define e where "e = int a - int b - 53"
  have P: "2 ^ (a - 1) \<le> (of_int p :: rat)" "of_int p < (2::rat) ^ a" "0 < a"
    and Q: "2 ^ (b - 1) \<le> (of_int q :: rat)" "of_int q < (2::rat) ^ b" "0 < b"
    using nat_bits [OF \<open>0 < p\<close>] nat_bits [OF \<open>0 < q\<close>] unfolding ab by auto
  have s: "x / 2 powi e = of_int p * 2 ^ b * 2 ^ 53 / (of_int q * 2 ^ a)"
    unfolding x e_def by (simp add: power_int_diff power_int_add field_simps)
  have "2 ^ 52 * (of_int q * 2 ^ a) \<le> of_int p * 2 ^ b * (2 ^ 53 :: rat)"
  proof -
    have "(2::rat) ^ a = 2 * 2 ^ (a - 1)" using P(3) by (cases a) simp_all
    then have "of_int q * 2 ^ a \<le> (2 ^ b * (2 * of_int p) :: rat)"
      using P(1) Q(2) \<open>0 < p\<close> \<open>0 < q\<close> by (intro mult_mono) auto
    then show ?thesis by (simp add: ac_simps)
  qed
  then have lo: "2 ^ 52 \<le> x / 2 powi e" using \<open>0 < q\<close> unfolding s by (simp add: field_simps)
  have "of_int p * 2 ^ b * (2 ^ 53 :: rat) < 2 ^ 54 * (of_int q * 2 ^ a)"
  proof -
    have "(2::rat) ^ b = 2 * 2 ^ (b - 1)" using Q(3) by (cases b) simp_all
    then have "(of_int p * 2 ^ b :: rat) < 2 ^ a * (2 * of_int q)"
      using P(2) Q(1) \<open>0 < p\<close> \<open>0 < q\<close> by (intro mult_less_le_imp_less) auto
    then show ?thesis by (simp add: ac_simps)
  qed
  then have hi: "x / 2 powi e < 2 ^ 54" using \<open>0 < q\<close> unfolding s by (simp add: field_simps)
  have "exponent x = (if x / 2 powi e < 2 ^ 53 then e else e + 1)"
    unfolding exponent_def q by (simp add: e_def ab Let_def)
  moreover have "x / 2 powi (e + 1) = x / 2 powi e / 2" by (simp add: power_int_add)
  ultimately show ?thesis using lo hi by auto
qed

text \<open>The relative error of a rounding is at most 2 to the -53.\<close>

lemma float64_near:
  assumes "0 < x"
  shows "\<bar>float64 x - x\<bar> \<le> x / 2 ^ 53"
proof -
  define u :: rat where "u = 2 powi exponent x"
  have u: "0 < u" unfolding u_def by simp
  have "\<bar>of_int (round_even (x / u)) - x / u\<bar> * u \<le> 1 / 2 * u"
    using round_even_near u by (intro mult_right_mono) auto
  also have "\<bar>of_int (round_even (x / u)) - x / u\<bar> * u = \<bar>of_int (round_even (x / u)) * u - x\<bar>"
    using u by (simp add: abs_mult_pos left_diff_distrib)
  finally have "\<bar>float64 x - x\<bar> \<le> u / 2" using assms by (simp add: float64_def u_def)
  moreover have "2 ^ 52 * u \<le> x" using exponent_bounds [OF assms] u unfolding u_def by (simp add: field_simps)
  ultimately show ?thesis by simp
qed

lemma float64_val:
  assumes "2 ^ 52 \<le> x * 2 ^ k" "x * 2 ^ k < 2 ^ 53"
    "\<bar>x * 2 ^ k - of_int m\<bar> < 1 / 2 \<or> \<bar>x * 2 ^ k - of_int m\<bar> = 1 / 2 \<and> even m"
  shows "float64 x = of_int m / 2 ^ k"
proof -
  have x: "0 < x" using assms(1) by (metis less_le_trans zero_less_mult_pos2 zero_less_numeral zero_less_power)
  have "exponent x = - int k"
  proof (rule antisym)
    note b = exponent_bounds [OF x]
    show "exponent x \<le> - int k"
    proof (rule ccontr)
      assume "\<not> exponent x \<le> - int k"
      then have "(2::rat) powi (1 - int k) \<le> 2 powi exponent x" by (intro power_int_increasing) auto
      then have "2 * 2 ^ 52 * (1 / 2 ^ k) \<le> 2 ^ 52 * (2 powi exponent x :: rat)"
        by (simp add: power_int_diff)
      also have "\<dots> \<le> x" using b by (simp add: field_simps)
      finally show False using assms(2) by (simp add: field_simps)
    qed
    show "- int k \<le> exponent x"
    proof (rule ccontr)
      assume "\<not> - int k \<le> exponent x"
      then have "(2::rat) powi exponent x \<le> 2 powi (- int k - 1)" by (intro power_int_increasing) auto
      then have "2 ^ 53 * (2 powi exponent x :: rat) \<le> 2 ^ 52 / 2 ^ k"
        by (simp add: power_int_diff power_int_minus field_simps)
      moreover have "x < 2 ^ 53 * 2 powi exponent x" using b by (simp add: field_simps)
      ultimately have "x < 2 ^ 52 / 2 ^ k" by (rule less_le_trans [rotated])
      then show False using assms(1) by (simp add: pos_less_divide_eq)
    qed
  qed
  then have "x / 2 powi exponent x = x * 2 ^ k" "(2::rat) powi exponent x = 1 / 2 ^ k"
    by (simp_all add: power_int_minus field_simps)
  moreover have "round_even (x * 2 ^ k) = m"
  proof (cases "of_int m \<le> x * 2 ^ k")
    case True
    then have "\<lfloor>x * 2 ^ k\<rfloor> = m" using assms(3) by (simp add: floor_eq_iff) linarith
    with True assms(3) show ?thesis by (auto simp: round_even_def Let_def)
  next
    case False
    then have "\<lfloor>x * 2 ^ k\<rfloor> = m - 1" using assms(3) by (simp add: floor_eq_iff) linarith
    with False assms(3) show ?thesis by (auto simp: round_even_def Let_def)
  qed
  ultimately show ?thesis using x by (simp add: float64_def)
qed

text \<open>Integers below 2 to the 53 are exact.\<close>

lemma float64_nat:
  assumes "n < 2 ^ 53"
  shows "float64 (of_nat n) = of_nat n"
proof (cases "n = 0")
  case False
  define x where "x = (of_nat n :: rat)"
  have x: "1 \<le> x" "x < 2 ^ 53"
    using False assms unfolding x_def
    by (metis One_nat_def Suc_leI neq0_conv of_nat_1 of_nat_le_iff, metis of_nat_less_iff of_nat_numeral of_nat_power)
  then have "0 < x" by simp
  note b = exponent_bounds [OF this]
  have "exponent x \<le> 0"
  proof (rule ccontr)
    assume "\<not> exponent x \<le> 0"
    then have "(2::rat) powi 1 \<le> 2 powi exponent x" by (intro power_int_increasing) auto
    then have "2 ^ 52 * 2 \<le> 2 ^ 52 * (2 powi exponent x :: rat)" by simp
    also have "\<dots> \<le> x" using b by (simp add: field_simps)
    finally show False using x by simp
  qed
  then obtain k where k: "exponent x = - int k" by (metis nonpos_int_cases)
  then have "x / 2 powi exponent x = of_int (int n * 2 ^ k)" "(2::rat) powi exponent x = 1 / 2 ^ k"
    by (simp_all add: power_int_minus x_def inverse_eq_divide)
  moreover have "round_even (of_int j) = j" for j by (simp add: round_even_def)
  ultimately have "float64 x = of_int (int n * 2 ^ k) * (1 / 2 ^ k)"
    using \<open>0 < x\<close> unfolding float64_def by (simp only: not_le [symmetric] if_False)
  then show ?thesis by (simp add: x_def)
qed (simp add: float64_def)

text \<open>Rounding never takes a number of at least 6 below 5.\<close>

lemma float64_min5: "min (float64 (of_nat n)) 5 = of_nat (min n 5)"
proof (cases "n < 2 ^ 53")
  case True
  then show ?thesis by (simp add: float64_nat min_def)
next
  case False
  then have "(of_nat (2 ^ 53) :: rat) \<le> of_nat n" by (subst of_nat_le_iff) simp
  then have n: "2 ^ 53 \<le> (of_nat n :: rat)" by simp
  then have "\<bar>float64 (of_nat n) - of_nat n\<bar> \<le> of_nat n / 2 ^ 53" by (intro float64_near) simp
  then have "of_nat n - of_nat n / 2 ^ 53 \<le> float64 (of_nat n)" by linarith
  moreover have "5 \<le> of_nat n - of_nat n / (2 ^ 53 :: rat)" using n by simp
  ultimately have "5 \<le> float64 (of_nat n)" by linarith
  with False show ?thesis by (simp add: min_def)
qed

section \<open>Percentages\<close>

text \<open>\<open>math.Ceil(float64(maxReplicas) / 100 * float64(scalingFactor))\<close>.\<close>

definition percentage_up :: "nat \<Rightarrow> nat \<Rightarrow> int" where
  "percentage_up m sf = \<lceil>float64 (float64 (float64 (of_nat m) / 100) * float64 (of_nat sf))\<rceil>"

text \<open>The hundredths, as the hardware stores them.\<close>

lemma hundredths:
  "float64 (1 / 100) = 5764607523034235 / 2 ^ 59" "float64 (2 / 100) = 5764607523034235 / 2 ^ 58"
  "float64 (3 / 100) = 8646911284551352 / 2 ^ 58" "float64 (4 / 100) = 5764607523034235 / 2 ^ 57"
  "float64 (5 / 100) = 7205759403792794 / 2 ^ 57"
  using float64_val [of "1 / 100" 59 5764607523034235] float64_val [of "2 / 100" 58 5764607523034235]
    float64_val [of "3 / 100" 58 8646911284551352] float64_val [of "4 / 100" 57 5764607523034235]
    float64_val [of "5 / 100" 57 7205759403792794]
  by (simp_all add: abs_less_iff)

text \<open>Where the exact product is a whole number, the rounded one is that number.\<close>

lemma whole_products:
  "float64 (float64 (1 / 100) * 100) = 1" "float64 (float64 (2 / 100) * 50) = 1"
  "float64 (float64 (2 / 100) * 100) = 2" "float64 (float64 (3 / 100) * 100) = 3"
  "float64 (float64 (4 / 100) * 25) = 1" "float64 (float64 (4 / 100) * 50) = 2"
  "float64 (float64 (4 / 100) * 75) = 3" "float64 (float64 (4 / 100) * 100) = 4"
  "float64 (float64 (5 / 100) * 20) = 1" "float64 (float64 (5 / 100) * 40) = 2"
  "float64 (float64 (5 / 100) * 60) = 3" "float64 (float64 (5 / 100) * 80) = 4"
  "float64 (float64 (5 / 100) * 100) = 5"
  unfolding hundredths
  using float64_val [of "5764607523034235 / 2 ^ 59 * 100" 52 4503599627370496]
    float64_val [of "5764607523034235 / 2 ^ 58 * 50" 52 4503599627370496]
    float64_val [of "5764607523034235 / 2 ^ 58 * 100" 51 4503599627370496]
    float64_val [of "8646911284551352 / 2 ^ 58 * 100" 51 6755399441055744]
    float64_val [of "5764607523034235 / 2 ^ 57 * 25" 52 4503599627370496]
    float64_val [of "5764607523034235 / 2 ^ 57 * 50" 51 4503599627370496]
    float64_val [of "5764607523034235 / 2 ^ 57 * 75" 51 6755399441055744]
    float64_val [of "5764607523034235 / 2 ^ 57 * 100" 50 4503599627370496]
    float64_val [of "7205759403792794 / 2 ^ 57 * 20" 52 4503599627370496]
    float64_val [of "7205759403792794 / 2 ^ 57 * 40" 51 4503599627370496]
    float64_val [of "7205759403792794 / 2 ^ 57 * 60" 51 6755399441055744]
    float64_val [of "7205759403792794 / 2 ^ 57 * 80" 50 4503599627370496]
    float64_val [of "7205759403792794 / 2 ^ 57 * 100" 50 5629499534213120]
  by (simp_all add: abs_less_iff)

text \<open>Elsewhere the rounding errors are far smaller than the distance to a whole number.\<close>

lemma step_error:
  assumes "m \<le> 5" "sf \<le> 100"
  shows "\<bar>float64 (float64 (of_nat m / 100) * of_nat sf) - of_nat (m * sf) / 100\<bar> < 1 / 100"
proof (cases "m = 0 \<or> sf = 0")
  case False
  define x a v :: rat where "x = of_nat m / 100" and "a = float64 x" and "v = float64 (a * of_nat sf)"
  have x: "0 < x" "x \<le> 1 / 20" using False assms by (simp_all add: x_def)
  have s: "1 \<le> (of_nat sf :: rat)" "(of_nat sf :: rat) \<le> 100" using False assms by simp_all
  have a1: "\<bar>a - x\<bar> \<le> x / 2 ^ 53" unfolding a_def by (rule float64_near [OF x(1)])
  moreover have "x / 2 ^ 53 < x" using x by simp
  ultimately have a: "0 < a" "a \<le> 1" using x(2) by linarith+
  have av: "0 < a * of_nat sf" "a * of_nat sf \<le> 1 * 100" using a s by (simp, intro mult_mono) auto
  then have "\<bar>v - a * of_nat sf\<bar> \<le> a * of_nat sf / 2 ^ 53" unfolding v_def by (intro float64_near)
  also have "\<dots> \<le> 100 / 2 ^ 53" using av by (simp add: divide_right_mono)
  finally have v1: "\<bar>v - a * of_nat sf\<bar> \<le> 100 / 2 ^ 53" .
  have "\<bar>a - x\<bar> * of_nat sf \<le> (1 / 20 / 2 ^ 53) * 100" using a1 x s by (intro mult_mono) auto
  then have "\<bar>a * of_nat sf - x * of_nat sf\<bar> \<le> 5 / 2 ^ 53"
    using s by (simp add: abs_mult left_diff_distrib [symmetric])
  with v1 have "\<bar>v - x * of_nat sf\<bar> \<le> 105 / 2 ^ 53" by linarith
  then show ?thesis by (simp add: v_def a_def x_def)
qed (auto simp: float64_def)

lemma ceiling_near:
  fixes v :: rat
  assumes "\<bar>v - of_nat N / 100\<bar> < 1 / 100" "\<not> 100 dvd N"
  shows "\<lceil>v\<rceil> = int ((N + 99) div 100)"
proof -
  define q r where "q = N div 100" and "r = N mod 100"
  have N: "N = 100 * q + r" and r: "1 \<le> r" "r \<le> 99"
    using assms(2) by (simp_all add: q_def r_def dvd_eq_mod_eq_0 Suc_leI)
  have e: "(of_nat N :: rat) / 100 = of_nat q + of_nat r / 100" unfolding N by (simp add: field_simps)
  have "1 \<le> (of_nat r :: rat)" "(of_nat r :: rat) \<le> 99" using r by simp_all
  with assms(1) have "of_nat q < v \<and> v < of_nat q + 1" unfolding e abs_less_iff by (simp add: field_simps)
  then have "\<lceil>v\<rceil> = int q + 1" by (simp add: ceiling_eq_iff)
  also have "\<dots> = int ((N + 99) div 100)" using r unfolding N by simp
  finally show ?thesis .
qed

lemma whole_cases:
  assumes "m \<le> 5" "sf \<le> 100" "100 dvd m * sf" "m \<noteq> 0" "sf \<noteq> (0::nat)"
  shows "(m, sf) \<in> {(1, 100), (2, 50), (2, 100), (3, 100), (4, 25), (4, 50), (4, 75), (4, 100),
    (5, 20), (5, 40), (5, 60), (5, 80), (5, 100)}"
proof -
  obtain k where k: "m * sf = 100 * k" using assms(3) by (auto elim: dvdE)
  have "m * sf \<le> 5 * 100" using assms by (intro mult_le_mono)
  then have "k = 0 \<or> k = 1 \<or> k = 2 \<or> k = 3 \<or> k = 4 \<or> k = 5" using k by linarith
  moreover have "m = 1 \<or> m = 2 \<or> m = 3 \<or> m = 4 \<or> m = 5" using assms by linarith
  ultimately show ?thesis using k assms(2,5) by (elim disjE; simp; presburger?)
qed

text \<open>So the floating-point step is the exact percentage, rounded up.\<close>

lemma percentage_up_exact:
  assumes "m \<le> 5" "sf \<le> 100"
  shows "percentage_up m sf = int ((m * sf + 99) div 100)"
proof -
  have f: "float64 (of_nat m) = of_nat m" "float64 (of_nat sf) = of_nat sf"
    using assms by (simp_all add: float64_nat)
  consider "m = 0 \<or> sf = 0" | "m \<noteq> 0" "sf \<noteq> 0" "100 dvd m * sf" | "\<not> 100 dvd m * sf" by blast
  then show ?thesis
  proof cases
    case 1
    then show ?thesis by (auto simp: percentage_up_def float64_def)
  next
    case 2
    from whole_cases [OF assms 2(3,1,2)] show ?thesis
      unfolding percentage_up_def f using whole_products by auto
  next
    case 3
    with ceiling_near step_error [OF assms] show ?thesis unfolding percentage_up_def f by blast
  qed
qed

end
