(* ===== verification/AddMetrics.thy ===== *)
theory AddMetrics
  imports GoQuery Float64
begin

text \<open>
  Package \<open>metrics\<close>, files \<open>prometheus_query.go\<close> and \<open>add_metrics.go\<close>: the query of the
  Prometheus server and the handler that adds the invocation counts to the list of functions.
  Encoding and decoding JSON and \<open>strconv.ParseFloat\<close> are parameters; theories ParseFloat and JsonCodecs
  have the readers of the library.
\<close>

section \<open>Floats\<close>

text \<open>The sums of \<open>float64\<close>; the sign of a zero, which nothing here shows, is left out.\<close>

datatype gofloat = Finite rat | Infinite bool | NotANumber

definition rounded :: "rat \<Rightarrow> gofloat" where
  "rounded x = (let r = (if x < 0 then - float64 (- x) else float64 x)
     in if 2 ^ 1024 \<le> \<bar>r\<bar> then Infinite (x < 0) else Finite r)"

fun float_add :: "gofloat \<Rightarrow> gofloat \<Rightarrow> gofloat" where
  "float_add (Finite x) (Finite y) = rounded (x + y)"
| "float_add (Infinite a) (Infinite b) = (if a = b then Infinite a else NotANumber)"
| "float_add NotANumber y = NotANumber"
| "float_add x NotANumber = NotANumber"
| "float_add (Infinite a) (Finite y) = Infinite a"
| "float_add (Finite x) (Infinite b) = Infinite b"

text \<open>Whole numbers below 2 to the 53 are added exactly.\<close>

lemma float_add_nat:
  assumes "m + n < 2 ^ 53"
  shows "float_add (Finite (of_nat m)) (Finite (of_nat n)) = Finite (of_nat (m + n))"
proof -
  have "(of_nat (m + n) :: rat) < of_nat (2 ^ 53)" using assms by (simp only: of_nat_less_iff)
  then have s: "(of_nat (m + n) :: rat) < 2 ^ 1024" by simp
  have "\<not> (of_nat (m + n) :: rat) < 0" by (simp only: of_nat_less_0_iff simp_thms)
  with s float64_nat [OF assms] show ?thesis
    by (simp only: float_add.simps of_nat_add [symmetric] rounded_def Let_def if_False abs_of_nat not_le [symmetric]
        simp_thms split: if_splits)
qed

section \<open>Data\<close>

text \<open>
  \<open>FunctionStatus\<close> of the provider's list, with the fields these handlers do not look at in
  \<open>LRest\<close>. A slice is \<open>None\<close> when it is nil.
\<close>

record 'x listed =
  LName :: string
  LNamespace :: string
  LInvocationCount :: gofloat
  LReplicas :: uint64
  LRest :: 'x

text \<open>A value decoded into \<open>interface{}\<close>, as far as the handler tells them apart.\<close>

datatype json = JString string | JOther

record VectorResult =
  VCode :: string
  VFunctionName :: string
  VValue :: "json list"

type_synonym VectorQueryResponse = "VectorResult list"

record 'x list_codec =
  unmarshal_functions :: "string \<Rightarrow> string + 'x listed list option"
  marshal_functions :: "'x listed list option \<Rightarrow> string + string"
  unmarshal_vector :: "string \<Rightarrow> string + VectorQueryResponse"
  ParseFloat :: "string \<Rightarrow> gofloat option"

section \<open>The query\<close>

record 'w PrometheusQuery =
  PHost :: string
  PPort :: int
  PClient :: "'w client"
  PAgent :: string

definition NewPrometheusQuery :: "string \<Rightarrow> int \<Rightarrow> 'w client \<Rightarrow> string \<Rightarrow> 'w PrometheusQuery" where
  "NewPrometheusQuery host port client userAgentVersion =
     \<lparr>PHost = host, PPort = port, PClient = client, PAgent = userAgentVersion\<rparr>"

type_synonym 'w fetcher = "string \<Rightarrow> ('w, VectorQueryResponse option \<times> goerror) prog"

definition Fetch :: "'x list_codec \<Rightarrow> 'w PrometheusQuery \<Rightarrow> 'w fetcher" where
  "Fetch cd q query =
     (let raw = ''http://'' @ PHost q @ '':'' @ Itoa (PPort q) @ ''/api/v1/query?query='' @ query
      in case http_NewRequest ''GET'' raw None of
           None \<Rightarrow> retp (None, Some (''parse '' @ raw))
         | Some req0 \<Rightarrow>
             (let req = req0\<lparr>Header := header_Set ''User-Agent''
                    (''openfaas-gateway/'' @ PAgent q @ '' (Prometheus query)'') (Header req0)\<rparr>
              in bindp (PClient q req) (\<lambda>(res, err).
                case (err, res) of
                  (Some e, _) \<Rightarrow> retp (None, Some e)
                | (None, None) \<Rightarrow> panicp ''nil pointer dereference''
                | (None, Some resp) \<Rightarrow>
                    (case RespBody resp of
                       None \<Rightarrow> panicp ''nil pointer dereference''
                     | Some (_, Some e) \<Rightarrow> retp (None, Some e)
                     | Some (bytesOut, None) \<Rightarrow>
                         if StatusCode resp \<noteq> StatusOK then
                           retp (None, Some (''unexpected status code from Prometheus want: 200, got: ''
                             @ Itoa (StatusCode resp) @ '', body: '' @ bytesOut))
                         else (case unmarshal_vector cd bytesOut of
                             Inl e \<Rightarrow> retp (None, Some (''error unmarshaling result: '' @ e @ '', '' @
                               [char_of (39 :: nat)] @ bytesOut @ [char_of (39 :: nat)]))
                           | Inr vs \<Rightarrow> retp (Some vs, None))))))"

section \<open>Mixing the counts in\<close>

text \<open>The inner loop, over the results, for the function at one index.\<close>

fun mixIn_results :: "'x list_codec \<Rightarrow> VectorResult list \<Rightarrow> 'x listed \<Rightarrow> 'x listed go" where
  "mixIn_results cd [] function = Val function"
| "mixIn_results cd (v # vs) function =
     (if VFunctionName v = LName function @ ''.'' @ LNamespace function then
        if length (VValue v) \<le> 1 then Panic ''index out of range''
        else (case VValue v ! 1 of
            JString value \<Rightarrow>
              (case ParseFloat cd value of
                 None \<Rightarrow> mixIn_results cd vs function
               | Some f \<Rightarrow> mixIn_results cd vs
                   (function\<lparr>LInvocationCount := float_add (LInvocationCount function) f\<rparr>))
          | JOther \<Rightarrow> mixIn_results cd vs function)
      else mixIn_results cd vs function)"

fun mixIn_loop :: "'x list_codec \<Rightarrow> VectorResult list \<Rightarrow> 'x listed list \<Rightarrow> 'x listed list go" where
  "mixIn_loop cd vs [] = Val []"
| "mixIn_loop cd vs (f # fs) =
     (case mixIn_results cd vs f of Panic e \<Rightarrow> Panic e
      | Val f' \<Rightarrow> (case mixIn_loop cd vs fs of Panic e \<Rightarrow> Panic e | Val fs' \<Rightarrow> Val (f' # fs')))"

text \<open>\<open>mixIn\<close>: nil metrics are dereferenced as soon as there is a function.\<close>

definition mixIn :: "'x list_codec \<Rightarrow> 'x listed list \<Rightarrow> VectorQueryResponse option \<Rightarrow> 'x listed list go" where
  "mixIn cd functions metrics =
     (case metrics of
        None \<Rightarrow> if functions = [] then Val [] else Panic ''nil pointer dereference''
      | Some m \<Rightarrow> mixIn_loop cd m functions)"

section \<open>The handler\<close>

text \<open>\<open>ResponseRecorder.Code\<close>: the first status set, 200 when a body came first or nothing at all.\<close>

definition recorder_Code :: "response_writer \<Rightarrow> int" where
  "recorder_Code w = (case rw_events w of EvHeader c # _ \<Rightarrow> c | _ \<Rightarrow> 200)"

definition reset_counts :: "'x listed list \<Rightarrow> 'x listed list" where
  "reset_counts = map (\<lambda>f. f\<lparr>LInvocationCount := Finite 0\<rparr>)"

definition invocations_query :: "string \<Rightarrow> string" where
  "invocations_query ns =
     ''sum(gateway_function_invocation_total{function_name=~'' @ [char_of (34 :: nat)] @ ''.*.'' @ ns
       @ [char_of (34 :: nat)] @ ''}) by (function_name)''"

definition reply_json :: "string \<Rightarrow> ('w hstate, unit) prog" where
  "reply_json d =
     bindp (on_rw (header_map (header_Set ''Content-Type'' ''application/json''))) (\<lambda>_.
     bindp (on_rw (WriteHeader StatusOK)) (\<lambda>_. on_rw (Write d)))"

definition AddMetricsHandler :: "'x list_codec \<Rightarrow> 'w handler \<Rightarrow> 'w fetcher \<Rightarrow> 'w handler" where
  "AddMetricsHandler cd handler fetch r =
     bindp (with_recorder handler r) (\<lambda>recorder.
       let upstreamBody = rw_body recorder
       in if recorder_Code recorder \<noteq> StatusOK then http_Error upstreamBody (recorder_Code recorder)
          else (case unmarshal_functions cd upstreamBody of
              Inl _ \<Rightarrow> http_Error ''Unable to parse list of functions from provider'' StatusInternalServerError
            | Inr decoded \<Rightarrow>
                bindp (case map_option reset_counts decoded of
                    Some (f # fs) \<Rightarrow>
                      bindp (on_hworld (fetch (QueryEscape (invocations_query (LNamespace f))))) (\<lambda>(results, err).
                        case mixIn cd (f # fs) results of
                          Panic e \<Rightarrow> panicp e
                        | Val mixed \<Rightarrow> retp (Some mixed))
                  | other \<Rightarrow> retp other) (\<lambda>functions.
                  case marshal_functions cd functions of
                    Inl _ \<Rightarrow> http_Error ''Error writing response after adding metrics'' StatusInternalServerError
                  | Inr bytesOut \<Rightarrow> reply_json bytesOut)))"

section \<open>What the counts are\<close>

text \<open>
  The values Prometheus reports for a function, in the order of the results, and the function
  with their sum. A result is well formed when it has its two elements, time and value.
\<close>

definition counts_of :: "'x list_codec \<Rightarrow> VectorResult list \<Rightarrow> string \<Rightarrow> gofloat list" where
  "counts_of cd vs label = List.map_filter (\<lambda>v. if VFunctionName v = label
     then (case VValue v ! 1 of JString s \<Rightarrow> ParseFloat cd s | JOther \<Rightarrow> None) else None) vs"

definition counted :: "'x list_codec \<Rightarrow> VectorResult list \<Rightarrow> 'x listed \<Rightarrow> 'x listed" where
  "counted cd vs f = f\<lparr>LInvocationCount :=
     foldl float_add (LInvocationCount f) (counts_of cd vs (LName f @ ''.'' @ LNamespace f))\<rparr>"

definition two_values :: "VectorResult list \<Rightarrow> bool" where
  "two_values vs \<longleftrightarrow> (\<forall>v \<in> set vs. 2 \<le> length (VValue v))"

lemma mixIn_results_counted: "two_values vs \<Longrightarrow> mixIn_results cd vs f = Val (counted cd vs f)"
proof (induction cd vs f rule: mixIn_results.induct)
  case (2 cd v vs f)
  then show ?case
    by (auto simp: counted_def counts_of_def two_values_def List.map_filter_simps split: json.splits option.splits)
qed (simp add: counted_def counts_of_def List.map_filter_simps)

lemma mixIn_counted: "two_values vs \<Longrightarrow> mixIn cd fs (Some vs) = Val (map (counted cd vs) fs)"
  by (induction fs) (simp_all add: mixIn_def mixIn_results_counted)

lemma foldl_float_nat:
  "m + sum_list ns < 2 ^ 53 \<Longrightarrow>
   foldl float_add (Finite (of_nat m)) (map (\<lambda>n. Finite (of_nat n)) ns) = Finite (of_nat (m + sum_list ns))"
proof (induction ns arbitrary: m)
  case (Cons n ns)
  have "m + n < 2 ^ 53" using Cons.prems by simp
  from Cons.IH [of "m + n"] Cons.prems show ?case
    unfolding list.map foldl_Cons float_add_nat [OF \<open>m + n < 2 ^ 53\<close>] by (simp add: add.assoc)
qed simp

section \<open>Properties\<close>

lemma recorder_run:
  "h r \<lparr>rw = new_writer, hworld = hworld s\<rparr> = (Val (), t) \<Longrightarrow>
   bindp (with_recorder h r) k s = k (rw t) (s\<lparr>hworld := hworld t\<rparr>)"
  by (simp add: bindp_def with_recorder_def split: unit.splits)

lemma reply_json_run:
  assumes "rw_sent (rw s) = None"
  shows "\<exists>t. reply_json d s = (Val (), t) \<and> final_status (rw t) = 200 \<and> rw_body (rw t) = rw_body (rw s) @ d
    \<and> header_Get (final_header (rw t)) ''Content-Type'' = ''application/json'' \<and> hworld t = hworld s"
  using assms by (simp add: reply_json_def go_simps WriteHeader_fresh final_status_def final_header_def)


text \<open>
  the errors of the list of functions. A status other than 200 of the provider's answer is passed
  on with its body, a body that is not a list of functions is answered 500, and in both cases
  Prometheus is not asked.
\<close>

theorem AddMetrics_errors:
  assumes "handler r \<lparr>rw = new_writer, hworld = hworld s\<rparr> = (Val (), t)" "rw_sent (rw s) = None"
    and "recorder_Code (rw t) = code" "200 \<le> code" "code \<le> 999"
    and "code \<noteq> 200 \<or> unmarshal_functions cd (rw_body (rw t)) = Inl e"
  shows "\<exists>t'. AddMetricsHandler cd handler fetch r s = (Val (), t') \<and> hworld t' = hworld t
    \<and> (if code = 200 then final_status (rw t') = 500
       else final_status (rw t') = code
         \<and> rw_body (rw t') = rw_body (rw s) @ rw_body (rw t) @ [char_of (10 :: nat)])"
proof -
  let ?s = "s\<lparr>hworld := hworld t\<rparr>"
  have "AddMetricsHandler cd handler fetch r s =
    (if code = 200 then http_Error ''Unable to parse list of functions from provider'' 500
     else http_Error (rw_body (rw t)) code) ?s"
    using assms(3,6) unfolding AddMetricsHandler_def recorder_run [of handler r s t, OF assms(1)]
    by (cases "code = 200") (simp_all add: Let_def)
  moreover have sent: "rw_sent (rw ?s) = None" using assms(2) by simp
  ultimately show ?thesis
    using http_Error_run [OF sent assms(4,5), of "rw_body (rw t)"]
      http_Error_run [OF sent, of 500 "''Unable to parse list of functions from provider''"]
    by (cases "code = 200") auto
qed

lemma Fetch_client_error:
  assumes "\<And>req. PClient q req w = (Val (res, Some e), w)"
  shows "\<exists>e'. Fetch cd q query w = (Val (None, Some e'), w)"
  using assms by (auto simp: Fetch_def Let_def go_simps split: option.split)

text \<open>
  C15: when Prometheus cannot be reached, a request for a list of functions that is not empty panics: the
  nil result of \<open>Fetch\<close> is dereferenced. The provider has been asked, but nothing is written to the client, where the
  comment says that the empty result is handled.
\<close>

theorem AddMetrics_panics_without_prometheus:
  assumes "handler r \<lparr>rw = new_writer, hworld = hworld s\<rparr> = (Val (), t)" "recorder_Code (rw t) = 200"
    and "unmarshal_functions cd (rw_body (rw t)) = Inr (Some (f # fs))"
    and "\<And>req. PClient q req (hworld t) = (Val (res, Some e), hworld t)"
  shows "AddMetricsHandler cd handler (Fetch cd q) r s = (Panic ''nil pointer dereference'', s\<lparr>hworld := hworld t\<rparr>)"
proof -
  let ?query = "QueryEscape (invocations_query (LNamespace f))"
  obtain e' where fetch: "Fetch cd q ?query (hworld t) = (Val (None, Some e'), hworld t)"
    using Fetch_client_error [of q "hworld t", OF assms(4)] by blast
  show ?thesis
    using assms(2,3) fetch unfolding AddMetricsHandler_def recorder_run [of handler r s t, OF assms(1)]
    by (simp add: Let_def reset_counts_def bindp_run on_hworld_run mixIn_def panicp_run)
qed

lemma mixIn_exact_sum:
  assumes "two_values vs" "i < length fs"
    and "counts_of cd vs (LName (fs ! i) @ ''.'' @ LNamespace (fs ! i)) = map (\<lambda>n. Finite (of_nat n)) ns"
    and "sum_list ns < 2 ^ 53"
  shows "\<exists>gs. mixIn cd (reset_counts fs) (Some vs) = Val gs \<and> length gs = length fs
    \<and> gs ! i = (fs ! i)\<lparr>LInvocationCount := Finite (of_nat (sum_list ns))\<rparr>"
  using assms foldl_float_nat [of 0 ns] by (simp add: mixIn_counted reset_counts_def counted_def)

text \<open>
  the counts. Where Prometheus reports whole numbers below 2 to the 53 in total for a function,
  its count is their exact sum; its other fields are those the provider sent.
\<close>

theorem mixIn_exact_counts:
  assumes "two_values vs" "i < length fs"
    and "counts_of cd vs (LName (fs ! i) @ ''.'' @ LNamespace (fs ! i)) = map (\<lambda>n. Finite (of_nat n)) ns"
    and "sum_list ns < 2 ^ 53"
  shows "\<exists>gs. mixIn cd (reset_counts fs) (Some vs) = Val gs \<and> length gs = length fs
    \<and> gs ! i = (fs ! i)\<lparr>LInvocationCount := Finite (of_nat (sum_list ns))\<rparr>"
  using assms by (rule mixIn_exact_sum)

section \<open>Witnesses\<close>

definition demo_listed :: "unit listed" where
  "demo_listed = \<lparr>LName = ''f'', LNamespace = ''fn'', LInvocationCount = Finite 9, LReplicas = 1, LRest = ()\<rparr>"

definition demo_list_codec :: "unit list_codec" where
  "demo_list_codec = \<lparr>unmarshal_functions = (\<lambda>b. if b = ''ok'' then Inr (Some [demo_listed]) else Inl ''bad''),
     marshal_functions = (\<lambda>fs. case fs of None \<Rightarrow> Inr ''null'' | Some gs \<Rightarrow> Inr (concat (map LName gs))),
     unmarshal_vector = (\<lambda>_. Inl ''bad''), ParseFloat = (\<lambda>s. map_option (\<lambda>n. Finite (of_nat n)) (parse_digits 0 s))\<rparr>"

definition demo_vector :: VectorQueryResponse where
  "demo_vector = [\<lparr>VCode = ''200'', VFunctionName = ''f.fn'', VValue = [JOther, JString ''12'']\<rparr>,
     \<lparr>VCode = ''200'', VFunctionName = ''g.fn'', VValue = [JOther, JString ''5'']\<rparr>,
     \<lparr>VCode = ''500'', VFunctionName = ''f.fn'', VValue = [JOther, JString ''3'']\<rparr>]"

definition demo_provider :: "string \<Rightarrow> nat handler" where
  "demo_provider b r = on_rw (Write b)"

definition demo_list_request :: request where
  "demo_list_request = \<lparr>Method = ''GET'', URL = \<lparr>Scheme = [], UHost = [], Path = ''/system/functions'', RawPath = [], RawQuery = []\<rparr>,
     Header = (\<lambda>_. None), RHost = ''gw'', RemoteAddr = ''1.2.3.4:5'', Body = None, RVars = (\<lambda>_. None)\<rparr>"

definition demo_writer_state :: "nat hstate" where
  "demo_writer_state = \<lparr>rw = new_writer, hworld = 0\<rparr>"

definition demo_down :: "nat PrometheusQuery" where
  "demo_down = NewPrometheusQuery ''prometheus'' 9090 (\<lambda>req. retp (None, Some ''refused'')) ''dev''"

lemma demo_provider_run:
  "demo_provider b r \<lparr>rw = new_writer, hworld = n\<rparr> =
    (Val (), \<lparr>rw = new_writer\<lparr>rw_sent := Some (200, rw_header new_writer), rw_body := b, rw_events := [EvBody b]\<rparr>, hworld = n\<rparr>)"
  by (simp add: demo_provider_def on_rw_run Write_run new_writer_def)

lemma demo_counts: "counts_of demo_list_codec demo_vector ''f.fn'' = map (\<lambda>n. Finite (of_nat n)) [12, 3]"
  by (simp add: counts_of_def demo_vector_def demo_list_codec_def List.map_filter_simps digit_val_def)

lemma demo_two_values: "two_values demo_vector"
  by (simp add: two_values_def demo_vector_def)


lemma AddMetrics_errors_witness:
  "\<exists>t'. AddMetricsHandler demo_list_codec (demo_provider ''<html>'') (\<lambda>q. retp (Some demo_vector, None)) demo_list_request demo_writer_state = (Val (), t')
    \<and> final_status (rw t') = 500"
proof -
  note run = AddMetrics_errors [where s = demo_writer_state and r = demo_list_request and cd = demo_list_codec and e = "''bad''"
      and handler = "demo_provider ''<html>''" and fetch = "\<lambda>q. retp (Some demo_vector, None)" and code = 200
      and t = "\<lparr>rw = new_writer\<lparr>rw_sent := Some (200, rw_header new_writer), rw_body := ''<html>'', rw_events := [EvBody ''<html>'']\<rparr>, hworld = 0\<rparr>"]
  show ?thesis
    using run by (auto simp: demo_writer_state_def demo_provider_def on_rw_run Write_run recorder_Code_def demo_list_codec_def new_writer_def)
qed

lemma AddMetrics_panics_without_prometheus_witness:
  "fst (AddMetricsHandler demo_list_codec (demo_provider ''ok'') (Fetch demo_list_codec demo_down) demo_list_request demo_writer_state)
    = Panic ''nil pointer dereference''"
proof -
  note run = AddMetrics_panics_without_prometheus [where s = demo_writer_state and r = demo_list_request and cd = demo_list_codec and e = "''refused''"
      and handler = "demo_provider ''ok''" and q = demo_down and f = demo_listed and fs = "[]" and res = None
      and t = "\<lparr>rw = new_writer\<lparr>rw_sent := Some (200, rw_header new_writer), rw_body := ''ok'', rw_events := [EvBody ''ok'']\<rparr>, hworld = 0\<rparr>"]
  show ?thesis
    using run by (simp add: demo_writer_state_def demo_provider_run recorder_Code_def demo_list_codec_def demo_down_def
        NewPrometheusQuery_def retp_run)
qed

lemma mixIn_exact_counts_witness:
  "\<exists>gs. mixIn demo_list_codec (reset_counts [demo_listed]) (Some demo_vector) = Val gs
    \<and> gs ! 0 = demo_listed\<lparr>LInvocationCount := Finite (of_nat 15)\<rparr>"
  using mixIn_exact_counts [where vs = demo_vector and fs = "[demo_listed]" and i = 0 and ns = "[12, 3]" and cd = demo_list_codec]
    demo_two_values demo_counts by (auto simp: demo_listed_def)

end
