(* ===== verification/ScalingTypes.thy ===== *)
theory ScalingTypes
  imports GoStrings
begin

text \<open>
  The data and the interfaces of package \<open>scaling\<close>: what a service query answers, the
  constants, and the interfaces \<open>ServiceQuery\<close> and \<open>FunctionCacher\<close> as records of programs
  over a state, together with the clock the code reads and sleeps on.
\<close>

section \<open>Service queries\<close>

record ServiceQueryResponse =
  Replicas :: uint64
  MaxReplicas :: uint64
  MinReplicas :: uint64
  ScalingFactor :: uint64
  AvailableReplicas :: uint64
  Annotations :: "(string \<Rightarrow> string option) option"

definition empty_response :: ServiceQueryResponse where
  "empty_response = \<lparr>Replicas = 0, MaxReplicas = 0, MinReplicas = 0, ScalingFactor = 0,
     AvailableReplicas = 0, Annotations = None\<rparr>"

record 's ServiceQuery =
  GetReplicas :: "string \<Rightarrow> string \<Rightarrow> ('s, ServiceQueryResponse \<times> goerror) prog"
  SetReplicas :: "string \<Rightarrow> string \<Rightarrow> uint64 \<Rightarrow> ('s, goerror) prog"

record 's FunctionCacher =
  CSet :: "string \<Rightarrow> string \<Rightarrow> ServiceQueryResponse \<Rightarrow> ('s, unit) prog"
  CGet :: "string \<Rightarrow> string \<Rightarrow> ('s, ServiceQueryResponse \<times> bool) prog"

text \<open>The request to scale a function, as the provider's API has it.\<close>

record ScaleServiceRequest =
  ServiceName :: string
  ReqReplicas :: uint64
  ReqNamespace :: string

section \<open>Constants\<close>

definition DefaultMinReplicas :: int where "DefaultMinReplicas = 1"
definition DefaultMaxReplicas :: int where "DefaultMaxReplicas = 5"
definition DefaultScalingFactor :: int where "DefaultScalingFactor = 10"
definition DefaultTypeScale :: string where "DefaultTypeScale = ''rps''"
definition MinScaleLabel :: string where "MinScaleLabel = ''com.openfaas.scale.min''"
definition MaxScaleLabel :: string where "MaxScaleLabel = ''com.openfaas.scale.max''"
definition ScalingFactorLabel :: string where "ScalingFactorLabel = ''com.openfaas.scale.factor''"

section \<open>The clock\<close>

record 's Env =
  Now :: "'s \<Rightarrow> instant \<times> 's"
  Sleep :: "duration \<Rightarrow> 's \<Rightarrow> 's"

definition time_Now :: "'s Env \<Rightarrow> ('s, instant) prog" where
  "time_Now env = (\<lambda>s. case Now env s of (t, s') \<Rightarrow> (Val t, s'))"

definition time_Sleep :: "'s Env \<Rightarrow> duration \<Rightarrow> ('s, unit) prog" where
  "time_Sleep env d = (\<lambda>s. (Val (), Sleep env d s))"

definition time_Since :: "'s Env \<Rightarrow> instant \<Rightarrow> ('s, duration) prog" where
  "time_Since env start = bindp (time_Now env) (\<lambda>t. retp (t - start))"

lemma time_Now_run [go_simps]: "time_Now env s = (case Now env s of (t, s') \<Rightarrow> (Val t, s'))"
  by (simp add: time_Now_def)

lemma time_Sleep_run [go_simps]: "time_Sleep env d s = (Val (), Sleep env d s)"
  by (simp add: time_Sleep_def)

lemma time_Since_run [go_simps]:
  "time_Since env start s = (case Now env s of (t, s') \<Rightarrow> (Val (t - start), s'))"
  by (auto simp: time_Since_def go_simps split: prod.splits)

section \<open>Single flight\<close>

text \<open>
  \<open>singleflight.Group.Do(key, f)\<close> as one caller sees it. A caller that finds no call in flight
  for the key runs \<open>f\<close>. A caller that joins a call in flight waits and gets the outcome of
  that call; the keys below name the operation and the function, so this is again an outcome
  of the same query, and queries are arbitrary programs here. How callers wait for each other
  is the subject of theory SingleFlight.
\<close>

definition Do :: "string \<Rightarrow> ('s, 'a) prog \<Rightarrow> ('s, 'a) prog" where
  "Do key f = f"

definition getKey :: "string \<Rightarrow> string \<Rightarrow> string" where
  "getKey fn ns = ''GetReplicas-'' @ fn @ ''.'' @ ns"

definition setKey :: "string \<Rightarrow> string \<Rightarrow> string" where
  "setKey fn ns = ''SetReplicas-'' @ fn @ ''.'' @ ns"

lemma Do_run [simp]: "Do key f = f"
  by (simp add: Do_def)

section \<open>Scaling configuration\<close>

record 's ScalingConfig =
  MaxPollCount :: uint64
  FunctionPollInterval :: duration
  CacheExpiry :: duration
  ConfigServiceQuery :: "'s ServiceQuery"
  SetScaleRetries :: uint64

section \<open>The contract of a service query\<close>

text \<open>
  What the autoscaler relies on: an answer without error carries a scaling factor that is a
  percentage of at least 1.
\<close>

locale service_query =
  fixes Q :: "'s ServiceQuery"
  assumes factor_percent: "GetReplicas Q fn ns s = (Val (q, None), s') \<Longrightarrow>
    1 \<le> unat (ScalingFactor q) \<and> unat (ScalingFactor q) \<le> 100"

end
