(* ===== verification/Notifiers.thy ===== *)
theory Notifiers
  imports Middleware ScalingTypes Float64
begin

text \<open>
  The gateway's metrics (package \<open>metrics\<close>, file \<open>metrics.go\<close>), the notifiers that record
  them (package \<open>handlers\<close>, files \<open>notifiers.go\<close> and \<open>notifier_handler.go\<close>) and the writer the
  faas-provider library puts around a response writer to learn its status
  (\<open>httputil.HttpWriteInterceptor\<close>).
\<close>

section \<open>Metrics\<close>

text \<open>
  A counter vector is a function from label values to counts, a histogram vector one to the
  observed values (durations), a gauge vector a partial map.
\<close>

record MetricOptions =
  GatewayFunctionInvocation :: "string \<times> string \<Rightarrow> nat"
  GatewayFunctionsHistogram :: "string \<times> string \<Rightarrow> duration list"
  GatewayFunctionInvocationStarted :: "string \<Rightarrow> nat"
  ServiceReplicasGauge :: "string \<Rightarrow> rat option"

definition BuildMetricsOptions :: MetricOptions where
  "BuildMetricsOptions = \<lparr>GatewayFunctionInvocation = (\<lambda>_. 0), GatewayFunctionsHistogram = (\<lambda>_. []),
     GatewayFunctionInvocationStarted = (\<lambda>_. 0), ServiceReplicasGauge = (\<lambda>_. None)\<rparr>"

text \<open>The world of a handler: the metrics, the log and what its calls act on.\<close>

record 'w gworld =
  metrics :: MetricOptions
  loglines :: "string list"
  net :: 'w

definition on_metrics :: "(MetricOptions, 'a) prog \<Rightarrow> ('w gworld, 'a) prog" where
  "on_metrics m = zoom metrics (\<lambda>x w. w\<lparr>metrics := x\<rparr>) m"

definition on_net :: "('w, 'a) prog \<Rightarrow> ('w gworld, 'a) prog" where
  "on_net m = zoom net (\<lambda>x w. w\<lparr>net := x\<rparr>) m"

lemma on_metrics_run [go_simps]: "on_metrics m w = (case m (metrics w) of (v, x) \<Rightarrow> (v, w\<lparr>metrics := x\<rparr>))"
  by (simp add: on_metrics_def zoom_def)

lemma on_net_run [go_simps]: "on_net m w = (case m (net w) of (v, x) \<Rightarrow> (v, w\<lparr>net := x\<rparr>))"
  by (simp add: on_net_def zoom_def)

section \<open>Notifiers\<close>

text \<open>\<open>HTTPNotifier.Notify(method, URL, originalURL, statusCode, event, duration)\<close>.\<close>

type_synonym 'w notifier = "string \<Rightarrow> string \<Rightarrow> string \<Rightarrow> int \<Rightarrow> string \<Rightarrow> duration \<Rightarrow> ('w, unit) prog"

definition urlToLabel :: "string \<Rightarrow> string" where
  "urlToLabel path0 =
     (let path = (if length path0 > 0 then TrimRight path0 ''/'' else path0)
      in if path = [] then ''/'' else path)"

text \<open>The label \<open>function_name\<close>.\<close>

definition metric_name :: "string \<Rightarrow> string \<Rightarrow> string" where
  "metric_name functionNamespace originalURL =
     (let serviceName = GetServiceName originalURL
      in if length functionNamespace > 0 \<and> \<not> ContainsByte serviceName CHR ''.''
         then serviceName @ ''.'' @ functionNamespace else serviceName)"

definition PrometheusFunctionNotifier_Notify :: "string \<Rightarrow> 'w gworld notifier" where
  "PrometheusFunctionNotifier_Notify functionNamespace method target originalURL statusCode event duration =
     (let serviceName = metric_name functionNamespace originalURL;
          labels = (serviceName, Itoa statusCode)
      in on_metrics (modifyp (\<lambda>m.
           if event = ''completed'' then
             m\<lparr>GatewayFunctionsHistogram := (GatewayFunctionsHistogram m)(labels := GatewayFunctionsHistogram m labels @ [duration]),
               GatewayFunctionInvocation := (GatewayFunctionInvocation m)(labels := GatewayFunctionInvocation m labels + 1)\<rparr>
           else if event = ''started'' then
             m\<lparr>GatewayFunctionInvocationStarted :=
                 (GatewayFunctionInvocationStarted m)(serviceName := GatewayFunctionInvocationStarted m serviceName + 1)\<rparr>
           else m)))"

text \<open>The log line, without the seconds.\<close>

definition LoggingNotifier_Notify :: "'w gworld notifier" where
  "LoggingNotifier_Notify method target originalURL statusCode event duration =
     (if event = ''completed''
      then modifyp (\<lambda>w. w\<lparr>loglines := loglines w @
             [''Forwarded ['' @ method @ ''] to '' @ originalURL @ '' - ['' @ Itoa statusCode @ '']'']\<rparr>)
      else retp ())"

fun notify_all :: "'w notifier list \<Rightarrow> string \<Rightarrow> string \<Rightarrow> string \<Rightarrow> int \<Rightarrow> string \<Rightarrow> duration \<Rightarrow> ('w, unit) prog" where
  "notify_all [] method target originalURL statusCode event duration = retp ()"
| "notify_all (n # ns) method target originalURL statusCode event duration =
     bindp (n method target originalURL statusCode event duration) (\<lambda>_.
       notify_all ns method target originalURL statusCode event duration)"

section \<open>The write interceptor\<close>

text \<open>
  The interceptor's \<open>statusCode\<close> after the calls made on it, and the calls it passes on: the first
  \<open>Write\<close> without a header sends 200 first.
\<close>

fun interceptor_code :: "int \<Rightarrow> rw_event list \<Rightarrow> int" where
  "interceptor_code c [] = c"
| "interceptor_code c (EvHeader h # es) = interceptor_code h es"
| "interceptor_code c (EvBody d # es) = interceptor_code (if c = 0 then 200 else c) es"

fun passed_on :: "int \<Rightarrow> rw_event list \<Rightarrow> rw_event list" where
  "passed_on c [] = []"
| "passed_on c (EvHeader h # es) = EvHeader h # passed_on h es"
| "passed_on c (EvBody d # es) = (if c = 0 then EvHeader 200 # EvBody d # passed_on 200 es else EvBody d # passed_on c es)"

definition interceptor_Status :: "rw_event list \<Rightarrow> int" where
  "interceptor_Status es = (let c = interceptor_code 0 es in if c = 0 then StatusOK else c)"

text \<open>Run a handler on an intercepted writer and return the interceptor's status.\<close>

definition intercepted :: "'w handler \<Rightarrow> request \<Rightarrow> ('w hstate, int) prog" where
  "intercepted nxt r = (\<lambda>s.
     let old = rw_events (rw s) in
     (case nxt r (s\<lparr>rw := (rw s)\<lparr>rw_events := []\<rparr>\<rparr>) of
        (v, t) \<Rightarrow>
          (let es = rw_events (rw t);
               t' = t\<lparr>rw := (rw t)\<lparr>rw_events := old @ passed_on 0 es\<rparr>\<rparr>
           in case v of Val _ \<Rightarrow> (Val (interceptor_Status es), t') | Panic e \<Rightarrow> (Panic e, t'))))"

text \<open>
  \<open>MakeNotifierWrapper\<close>. Each notifier is called with the time since the start at its turn.
\<close>

fun notify_completed :: "'w Env \<Rightarrow> 'w notifier list \<Rightarrow> instant \<Rightarrow> string \<Rightarrow> string \<Rightarrow> int \<Rightarrow> ('w, unit) prog" where
  "notify_completed env [] start method url status = retp ()"
| "notify_completed env (n # ns) start method url status =
     bindp (time_Since env start) (\<lambda>d. bindp (n method url url status ''completed'' d) (\<lambda>_.
       notify_completed env ns start method url status))"

definition MakeNotifierWrapper :: "'w Env \<Rightarrow> 'w handler \<Rightarrow> 'w notifier list \<Rightarrow> 'w handler" where
  "MakeNotifierWrapper env nxt notifiers r =
     bindp (on_hworld (time_Now env)) (\<lambda>start.
     bindp (intercepted nxt r) (\<lambda>status.
     on_hworld (notify_completed env notifiers start (Method r) (url_String (URL r)) status)))"

section \<open>What the interceptor reports\<close>

text \<open>A sequence of calls on a writer, and its effect on a writer.\<close>

fun run_events :: "rw_event list \<Rightarrow> response_writer \<Rightarrow> response_writer" where
  "run_events [] w = w"
| "run_events (EvHeader c # es) w = run_events es (snd (WriteHeader c w))"
| "run_events (EvBody d # es) w = run_events es (snd (Write d w))"

fun header_codes :: "rw_event list \<Rightarrow> int list" where
  "header_codes [] = []"
| "header_codes (EvHeader c # es) = c # header_codes es"
| "header_codes (EvBody d # es) = header_codes es"

lemma sent_stays: "rw_sent w = Some x \<Longrightarrow> rw_sent (run_events es w) = Some x"
  by (induction es w rule: run_events.induct) (auto simp: WriteHeader_def Write_def modifyp_run)

lemma code_of_bodies: "c \<noteq> 0 \<Longrightarrow> header_codes es = [] \<Longrightarrow> interceptor_code c es = c"
  by (induction c es rule: interceptor_code.induct) auto

text \<open>
  the status the interceptor reports, and hence the \<open>code\<close> of the metrics, is the status the
  client gets, for every handler that sets its status at most once, with a final status code and
  before it writes the body.
\<close>

theorem interceptor_reports_client_status:
  assumes "rw_sent w = None" "es = EvHeader c # bs \<or> es = bs" "header_codes bs = []" "200 \<le> c" "c \<le> 999"
  shows "interceptor_Status es = final_status (run_events es w)"
proof -
  have b: "interceptor_Status bs = final_status (run_events bs w)" if "header_codes bs = []"
  proof (cases bs)
    case Nil
    with assms(1) show ?thesis by (simp add: interceptor_Status_def final_status_def)
  next
    case (Cons e es')
    with that obtain d where e: "e = EvBody d" "header_codes es' = []" by (cases e) auto
    have "rw_sent (run_events es' (snd (Write d w))) = Some (200, rw_header w)"
      by (rule sent_stays) (simp add: Write_run assms(1))
    with Cons e show ?thesis by (simp add: interceptor_Status_def final_status_def code_of_bodies)
  qed
  have "interceptor_Status (EvHeader c # bs) = c"
    using assms(3,4) by (simp add: interceptor_Status_def code_of_bodies)
  moreover have "rw_sent (run_events bs (snd (WriteHeader c w))) = Some (c, rw_header w)"
    by (rule sent_stays) (simp add: WriteHeader_fresh assms)
  ultimately show ?thesis using assms(2) b [OF assms(3)] by (auto simp: final_status_def)
qed

text \<open>
  for a handler that sets its status twice, the client gets the first status and the metrics
  record the second.
\<close>

theorem interceptor_records_last_status:
  assumes "rw_sent w = None" "200 \<le> c" "c \<le> 999" "d \<noteq> 0"
  shows "final_status (run_events [EvHeader c, EvHeader d] w) = c \<and> interceptor_Status [EvHeader c, EvHeader d] = d"
  using assms by (simp add: WriteHeader_fresh final_status_def interceptor_Status_def, simp add: WriteHeader_def)

text \<open>Passing the calls on leaves the same response: the header the interceptor adds is the implicit one.\<close>

definition same_response :: "response_writer \<Rightarrow> response_writer \<Rightarrow> bool" where
  "same_response v w \<longleftrightarrow> rw_sent v = rw_sent w \<and> rw_body v = rw_body w \<and> rw_header v = rw_header w"

lemma same_WriteHeader: "same_response v w \<Longrightarrow> same_response (snd (WriteHeader c v)) (snd (WriteHeader c w))"
  by (cases "rw_sent w") (simp_all add: same_response_def WriteHeader_def Let_def)

lemma same_Write: "same_response v w \<Longrightarrow> same_response (snd (Write d v)) (snd (Write d w))"
  by (cases "rw_sent w") (simp_all add: same_response_def Write_run)

lemma same_run: "same_response v w \<Longrightarrow> same_response (run_events es v) (run_events es w)"
proof (induction es arbitrary: v w rule: header_codes.induct)
  case (2 c es)
  from 2(1) [OF same_WriteHeader [OF 2(2)]] show ?case by simp
next
  case (3 d es)
  from 3(1) [OF same_Write [OF 3(2)]] show ?case by simp
qed simp

lemma implicit_header:
  "same_response (snd (Write d (snd (WriteHeader 200 w)))) (snd (Write d w))"
  by (simp add: same_response_def WriteHeader_def Write_run Let_def split: option.split)

lemma same_trans: "same_response u v \<Longrightarrow> same_response v w \<Longrightarrow> same_response u w"
  by (simp add: same_response_def)

lemma passed_on_same:
  "same_response (run_events (passed_on c es) w) (run_events es w)"
proof (induction c es arbitrary: w rule: passed_on.induct)
  case (3 c d es)
  show ?case
  proof (cases "c = 0")
    case True
    let ?w = "snd (Write d (snd (WriteHeader 200 w)))"
    have "same_response (run_events (passed_on 200 es) ?w) (run_events es ?w)" using 3(1) True by blast
    moreover have "same_response (run_events es ?w) (run_events es (snd (Write d w)))"
      by (rule same_run [OF implicit_header])
    ultimately show ?thesis using True by (auto intro: same_trans)
  next
    case False
    from 3(2) [OF False, of "snd (Write d w)"] False show ?thesis by simp
  qed
qed (simp_all add: same_response_def)

section \<open>Witnesses\<close>

lemma interceptor_reports_client_status_witness:
  "interceptor_Status [EvHeader 404, EvBody ''no''] = final_status (run_events [EvHeader 404, EvBody ''no''] new_writer)"
  by (rule interceptor_reports_client_status [where c = 404 and bs = "[EvBody ''no'']"]) (simp_all add: new_writer_def)

lemma interceptor_records_last_status_witness:
  "final_status (run_events [EvHeader 404, EvHeader 500] new_writer) = 404 \<and> interceptor_Status [EvHeader 404, EvHeader 500] = 500"
  by (rule interceptor_records_last_status) (simp_all add: new_writer_def)

end
