(* ===== verification/ForwardingProxy.thy ===== *)
theory ForwardingProxy
  imports Notifiers GoUrl
begin

text \<open>
  Package \<open>handlers\<close>, file \<open>forwarding_proxy.go\<close>, with the client of \<open>types/proxy_client.go\<close>: the
  reverse proxy in front of the provider and the functions.
\<close>

section \<open>Building the upstream request\<close>

definition copyHeaders :: "header \<Rightarrow> header \<Rightarrow> header" where
  "copyHeaders destination source = (\<lambda>k. case source k of None \<Rightarrow> destination k | Some v \<Rightarrow> Some v)"

fun deleteHeaders :: "header \<Rightarrow> string list \<Rightarrow> header" where
  "deleteHeaders target [] = target"
| "deleteHeaders target (h # exclude) = deleteHeaders (header_Del h target) exclude"

definition hopHeaders :: "string list" where
  "hopHeaders = [''Connection'', ''Proxy-Connection'', ''Keep-Alive'', ''Proxy-Authenticate'',
     ''Proxy-Authorization'', ''Te'', ''Trailer'', ''Transfer-Encoding'', ''Upgrade'']"

text \<open>
  The header of the upstream request; the two assignments write the map directly.
\<close>

definition upstream_header :: "request \<Rightarrow> header" where
  "upstream_header r =
     (let h0 = deleteHeaders (copyHeaders (\<lambda>_. None) (Header r)) hopHeaders;
          h1 = (if length (RHost r) > 0 \<and> header_Get h0 ''X-Forwarded-Host'' = []
                then h0(''X-Forwarded-Host'' \<mapsto> [RHost r]) else h0)
      in if header_Get h1 ''X-Forwarded-For'' = [] then h1(''X-Forwarded-For'' \<mapsto> [RemoteAddr r]) else h1)"

definition upstream_url :: "request \<Rightarrow> string \<Rightarrow> string \<Rightarrow> string" where
  "upstream_url r baseURL requestURL =
     (let url = baseURL @ requestURL
      in if length (RawQuery (URL r)) > 0 then url @ ''?'' @ RawQuery (URL r) else url)"

text \<open>The error of \<open>http.NewRequest\<close> is dropped, and the header of the nil request is read.\<close>

definition buildUpstreamRequest :: "request \<Rightarrow> string \<Rightarrow> string \<Rightarrow> request go" where
  "buildUpstreamRequest r baseURL requestURL =
     (case http_NewRequest (Method r) (upstream_url r baseURL requestURL) None of
        None \<Rightarrow> Panic ''nil pointer dereference''
      | Some upstreamReq \<Rightarrow>
          Val (upstreamReq\<lparr>Header := upstream_header r,
            Body := (case Body r of None \<Rightarrow> None | Some b \<Rightarrow> Some b)\<rparr>))"

section \<open>The client\<close>

text \<open>\<open>NewHTTPClientReverseProxy\<close>: redirects are handed back, and the transport sets a user agent.\<close>

record 'w HTTPClientReverseProxy =
  ProxyBaseURL :: url
  Client :: "duration \<Rightarrow> 'w client"
  Timeout :: duration

definition proxyTransport_RoundTrip :: "string \<Rightarrow> 'w client \<Rightarrow> 'w client" where
  "proxyTransport_RoundTrip buildVersion transport req =
     transport (if Header req ''User-Agent'' = None
       then req\<lparr>Header := header_Set ''User-Agent'' (''openfaas-ce-gateway/'' @ buildVersion) (Header req)\<rparr> else req)"

definition NewHTTPClientReverseProxy :: "string \<Rightarrow> url \<Rightarrow> duration \<Rightarrow> (duration \<Rightarrow> 'w client) \<Rightarrow> 'w HTTPClientReverseProxy" where
  "NewHTTPClientReverseProxy buildVersion baseURL timeout transport =
     \<lparr>ProxyBaseURL = baseURL, Client = (\<lambda>t. proxyTransport_RoundTrip buildVersion (transport t)), Timeout = timeout\<rparr>"

section \<open>Event streams\<close>

text \<open>
  The library's reverse proxy: \<open>outgoing\<close> is what it makes of the header of the incoming request,
  \<open>transport\<close> is the default transport. On an error of the transport the error handler runs, which
  here does nothing. A response's connection headers are left out, its status goes through
  \<open>WriteHeader\<close>, and an aborted body copy panics with \<open>http.ErrAbortHandler\<close>.
\<close>

definition abort_handler :: string where
  "abort_handler = ''net/http: abort Handler''"

definition reverse_proxy_ServeHTTP :: "(request \<Rightarrow> header) \<Rightarrow> 'w client \<Rightarrow> (request \<Rightarrow> request go) \<Rightarrow> 'w handler" where
  "reverse_proxy_ServeHTTP outgoing transport director r =
     (case director r of
        Panic e \<Rightarrow> panicp e
      | Val outreq \<Rightarrow>
          bindp (on_hworld (transport (outreq\<lparr>Header := outgoing outreq\<rparr>))) (\<lambda>(res, err).
            case (err, res) of
              (Some _, _) \<Rightarrow> retp ()
            | (None, None) \<Rightarrow> panicp ''nil pointer dereference''
            | (None, Some resp) \<Rightarrow>
                bindp (on_rw (header_map (\<lambda>h. copyHeaders h (deleteHeaders (RespHeader resp) hopHeaders)))) (\<lambda>_.
                bindp (on_rw (WriteHeader (StatusCode resp))) (\<lambda>_.
                  case RespBody resp of
                    None \<Rightarrow> retp ()
                  | Some (b, e) \<Rightarrow>
                      bindp (if b = [] then retp () else on_rw (Write b)) (\<lambda>_.
                        if e = None then retp () else panicp abort_handler)))))"

text \<open>
  \<open>makeRewriteProxy\<close>'s director. \<open>resolve\<close> and \<open>transform\<close> are the resolver and the transformer.
\<close>

definition director :: "(request \<Rightarrow> string) \<Rightarrow> (request \<Rightarrow> string) \<Rightarrow> request \<Rightarrow> request go" where
  "director resolve transform r =
     (case url_Parse (resolve r) of
        None \<Rightarrow> Panic ''nil pointer dereference''
      | Some baseURLu \<Rightarrow>
          Val (r\<lparr>URL := (URL r)\<lparr>Scheme := ''http'', Path := transform r, UHost := UHost baseURLu\<rparr>\<rparr>))"

text \<open>
  \<open>handleEventStream\<close>: the proxy runs in a goroutine of its own. A panic with an error value is
  recovered; of the panics modelled here only the one of \<open>WriteHeader\<close> carries a string, on which
  the type assertion \<open>r.(error)\<close> panics again, outside every recover, and ends the process.
\<close>

definition process_crash :: string where
  "process_crash = ''fatal: panic in a goroutine''"

definition handleEventStream :: "'w handler \<Rightarrow> request \<Rightarrow> ('w hstate, int) prog" where
  "handleEventStream reverseProxy r = (\<lambda>s.
     (case intercepted reverseProxy r s of
        (Val status, t) \<Rightarrow> (Val status, t)
      | (Panic e, t) \<Rightarrow>
          if e = ''invalid WriteHeader code'' then (Panic process_crash, t)
          else (Val (interceptor_Status (drop (length (rw_events (rw s))) (rw_events (rw t)))), t)))"

section \<open>Forwarding\<close>

definition forwardRequest :: "'w HTTPClientReverseProxy \<Rightarrow> (request \<Rightarrow> request) option \<Rightarrow> 'w handler
    \<Rightarrow> request \<Rightarrow> string \<Rightarrow> string \<Rightarrow> ('w hstate, int \<times> goerror) prog" where
  "forwardRequest proxy serviceAuthInjector reverseProxy r baseURL requestURL =
     (case buildUpstreamRequest r baseURL requestURL of
        Panic e \<Rightarrow> panicp e
      | Val upstreamReq0 \<Rightarrow>
          (let upstreamReq = (case serviceAuthInjector of None \<Rightarrow> upstreamReq0 | Some inject \<Rightarrow> inject upstreamReq0)
           in if HasPrefix (header_Get (Header r) ''Accept'') ''text/event-stream''
              then bindp (handleEventStream reverseProxy r) (\<lambda>status. retp (status, None))
              else bindp (on_hworld (Client proxy (Timeout proxy) upstreamReq)) (\<lambda>(res, err).
                case (err, res) of
                  (Some e, _) \<Rightarrow> bindp (on_rw (WriteHeader StatusBadGateway)) (\<lambda>_. retp (StatusBadGateway, Some e))
                | (None, None) \<Rightarrow> panicp ''nil pointer dereference''
                | (None, Some resp) \<Rightarrow>
                    bindp (on_rw (header_map (\<lambda>h. copyHeaders h (RespHeader resp)))) (\<lambda>_.
                    bindp (on_rw (WriteHeader (StatusCode resp))) (\<lambda>_.
                    bindp (case RespBody resp of Some (b, _) \<Rightarrow> if b = [] then retp () else on_rw (Write b)
                                              | None \<Rightarrow> retp ()) (\<lambda>_.
                      retp (StatusCode resp, None)))))))"

definition MakeForwardingProxyHandler :: "'w Env \<Rightarrow> 'w HTTPClientReverseProxy \<Rightarrow> 'w notifier list
    \<Rightarrow> (request \<Rightarrow> string) \<Rightarrow> (request \<Rightarrow> string) \<Rightarrow> (request \<Rightarrow> request) option \<Rightarrow> (request \<Rightarrow> header) \<Rightarrow> 'w client
    \<Rightarrow> 'w handler" where
  "MakeForwardingProxyHandler env proxy notifiers resolve transform serviceAuthInjector outgoing transport r =
     (let reverseProxy = reverse_proxy_ServeHTTP outgoing transport (director resolve transform);
          baseURL = resolve r;
          originalURL = url_String (URL r);
          requestURL = transform r
      in bindp (on_hworld (notify_all notifiers (Method r) requestURL originalURL StatusProcessing ''started'' 0)) (\<lambda>_.
         bindp (on_hworld (time_Now env)) (\<lambda>start.
         bindp (forwardRequest proxy serviceAuthInjector reverseProxy r baseURL requestURL) (\<lambda>(statusCode, err).
         bindp (on_hworld (time_Since env start)) (\<lambda>seconds.
           on_hworld (notify_all notifiers (Method r) requestURL originalURL statusCode ''completed'' seconds))))))"

section \<open>The upstream request\<close>

lemma hop_canonical [simp]:
  "CanonicalHeaderKey ''Connection'' = ''Connection''" "CanonicalHeaderKey ''Proxy-Connection'' = ''Proxy-Connection''"
  "CanonicalHeaderKey ''Keep-Alive'' = ''Keep-Alive''" "CanonicalHeaderKey ''Proxy-Authenticate'' = ''Proxy-Authenticate''"
  "CanonicalHeaderKey ''Proxy-Authorization'' = ''Proxy-Authorization''" "CanonicalHeaderKey ''Te'' = ''Te''"
  "CanonicalHeaderKey ''Trailer'' = ''Trailer''" "CanonicalHeaderKey ''Transfer-Encoding'' = ''Transfer-Encoding''"
  "CanonicalHeaderKey ''Upgrade'' = ''Upgrade''"
  by code_simp+

lemma deleteHeaders_keys: "\<forall>x \<in> set ks. CanonicalHeaderKey x = x \<Longrightarrow> deleteHeaders h ks k = (if k \<in> set ks then None else h k)"
  by (induction ks arbitrary: h) (auto simp: header_Del_def)

lemma hop_all: "\<forall>x \<in> set hopHeaders. CanonicalHeaderKey x = x"
  by (simp add: hopHeaders_def)

text \<open>
  C19: the header the upstream gets: no hop-by-hop header of the client; the host and the address of
  the client in \<open>X-Forwarded-Host\<close> and \<open>X-Forwarded-For\<close> where the client's request does not
  carry a value for them already; every other header as the client sent it.
\<close>

theorem upstream_header_spec:
  "upstream_header r k =
    (if k \<in> set hopHeaders then None
     else if k = ''X-Forwarded-Host'' \<and> RHost r \<noteq> [] \<and> header_Get (Header r) k = [] then Some [RHost r]
     else if k = ''X-Forwarded-For'' \<and> header_Get (Header r) k = [] then Some [RemoteAddr r]
     else Header r k)"
proof -
  define h0 where "h0 = deleteHeaders (copyHeaders (\<lambda>_. None) (Header r)) hopHeaders"
  have h0: "h0 k = (if k \<in> set hopHeaders then None else Header r k)" for k
    by (simp add: h0_def deleteHeaders_keys [OF hop_all] copyHeaders_def split: option.split)
  have g: "header_Get h0 ''X-Forwarded-Host'' = header_Get (Header r) ''X-Forwarded-Host''"
    "header_Get h0 ''X-Forwarded-For'' = header_Get (Header r) ''X-Forwarded-For''"
    by (simp_all add: header_Get_def h0 hopHeaders_def)
  have g': "header_Get (h0(''X-Forwarded-Host'' \<mapsto> v)) ''X-Forwarded-For'' = header_Get (Header r) ''X-Forwarded-For''" for v
    by (simp add: header_Get_def h0 hopHeaders_def)
  have n: "''X-Forwarded-Host'' \<notin> set hopHeaders" "''X-Forwarded-For'' \<notin> set hopHeaders"
    by (simp_all add: hopHeaders_def)
  show ?thesis
    unfolding upstream_header_def Let_def h0_def [symmetric] using h0 [of k] n by (auto simp: g g')
qed

lemma upstream_url_parse:
  assumes "plain_target h p (RawQuery (URL r))"
  shows "url_Parse (upstream_url r (''http://'' @ h) p) =
    setPath \<lparr>Scheme = ''http'', UHost = h, Path = [], RawPath = [], RawQuery = RawQuery (URL r)\<rparr> p"
  using url_Parse_plain [OF assms] by (cases "RawQuery (URL r) = []") (simp_all add: upstream_url_def Let_def)

lemma buildUpstreamRequest_val:
  assumes "plain_target h p (RawQuery (URL r))" "Method r \<noteq> []" "\<forall>c \<in> set (Method r). is_token_char c"
    "unescape p = Some q"
  shows "\<exists>req. buildUpstreamRequest r (''http://'' @ h) p = Val req \<and> Method req = Method r \<and> Path (URL req) = q
    \<and> UHost (URL req) = remove_empty_port h \<and> RawQuery (URL req) = RawQuery (URL r)
    \<and> Header req = upstream_header r \<and> Body req = Body r"
  using assms(2-) upstream_url_parse [OF assms(1)]
  by (simp add: buildUpstreamRequest_def http_NewRequest_def setPath_def split: option.split)

text \<open>
  C20: what becomes of a request that is forwarded to a plain host: its method, body and header (as above) arrive,
  and of its path \<open>requestURL\<close> and its query what is left when the text of the two is parsed again. The
  path is decoded once more, and where it was already decoded to hold a \<open>?\<close> or a \<open>#\<close> it ends
  there. Without those two (\<open>p2\<close> and \<open>p3\<close> empty) path and query arrive whole; from a \<open>?\<close>
  on the path becomes part of the query, and from a \<open>#\<close> on path and query are lost. There are no control bytes
  and no \<open>#\<close> in the query, and what is decoded again decodes.
\<close>

theorem buildUpstreamRequest_forwards:
  assumes "plain_target h p1 []" "p2 = [] \<or> hd p2 = CHR ''?''" "p3 = [] \<or> hd p3 = CHR ''#''"
    and "CHR ''#'' \<notin> set p2" "CHR ''#'' \<notin> set (RawQuery (URL r))" "\<forall>c \<in> set (p2 @ RawQuery (URL r)). \<not> is_ctl c"
    and "unescape p1 = Some q" "p3 \<noteq> [] \<Longrightarrow> unescape (tl p3 @ (if RawQuery (URL r) = [] then [] else ''?'' @ RawQuery (URL r))) \<noteq> None"
    and "Method r \<noteq> []" "\<forall>c \<in> set (Method r). is_token_char c"
  shows "\<exists>req. buildUpstreamRequest r (''http://'' @ h) (p1 @ p2 @ p3) = Val req
    \<and> Method req = Method r \<and> Body req = Body r \<and> Header req = upstream_header r
    \<and> UHost (URL req) = remove_empty_port h \<and> Path (URL req) = q
    \<and> RawQuery (URL req) =
        (if p3 \<noteq> [] then tl p2
         else if p2 = [] then RawQuery (URL r)
         else tl p2 @ (if RawQuery (URL r) = [] then [] else ''?'' @ RawQuery (URL r)))"
proof -
  define q' where "q' = (if RawQuery (URL r) = [] then [] else ''?'' @ RawQuery (URL r))"
  define Q F where "Q = (if p3 = [] then p2 @ q' else p2)" and "F = (if p3 = [] then [] else p3 @ q')"
  have "q' = [] \<or> hd q' = CHR ''?''" by (simp add: q'_def)
  then have Q: "Q = [] \<or> hd Q = CHR ''?''" using assms(2) by (cases p2) (simp_all add: Q_def)
  have "\<forall>c \<in> set q'. \<not> is_ctl c \<and> c \<noteq> CHR ''#''" using assms(5,6) by (auto simp: q'_def is_ctl_def)
  then have chars: "\<forall>c \<in> set Q. \<not> is_ctl c \<and> c \<noteq> CHR ''#''" using assms(4,6) by (auto simp: Q_def)
  have F: "F = [] \<or> hd F = CHR ''#'' \<and> unescape (tl F) \<noteq> None"
    using assms(3,8) unfolding F_def q'_def [symmetric] by (cases p3) simp_all
  have tl: "tl Q = (if p3 \<noteq> [] then tl p2 else if p2 = [] then RawQuery (URL r) else tl p2 @ q')"
    by (cases p2) (simp_all add: Q_def q'_def)
  have "upstream_url r (''http://'' @ h) (p1 @ p2 @ p3) = ''http://'' @ h @ p1 @ Q @ F"
    by (simp add: upstream_url_def Let_def Q_def F_def q'_def)
  with url_Parse_cut [OF assms(1) Q chars F]
  have "url_Parse (upstream_url r (''http://'' @ h) (p1 @ p2 @ p3)) = setPath \<lparr>Scheme = ''http'', UHost = h, Path = [],
      RawPath = [], RawQuery = tl Q\<rparr> p1" by (simp only:)
  then show ?thesis using assms(7,9,10) unfolding q'_def [symmetric] tl [symmetric]
    by (cases "Body r") (simp_all add: buildUpstreamRequest_def http_NewRequest_def setPath_def del: append.simps)
qed

text \<open>
  a path that does not decode a second time, such as the one a client sends as
  \<open>/function/f/%25zz\<close>, makes the handler panic while it builds the upstream request, before
  anything is sent to the client or to the function.
\<close>

theorem undecodable_path_panics:
  assumes "plain_target h p (RawQuery (URL r))" "unescape p = None"
  shows "forwardRequest proxy auth rp r (''http://'' @ h) p s = (Panic ''nil pointer dereference'', s)"
proof -
  have "url_Parse (upstream_url r (''http://'' @ h) p) = None"
    using assms(2) upstream_url_parse [OF assms(1)] by (simp add: setPath_def)
  then have "http_NewRequest (Method r) (upstream_url r (''http://'' @ h) p) None = None"
    by (simp add: http_NewRequest_def Let_def del: append.simps)
  then show ?thesis by (simp add: forwardRequest_def buildUpstreamRequest_def panicp_run del: append.simps)
qed

section \<open>What the client gets\<close>

definition is_event_stream :: "request \<Rightarrow> bool" where
  "is_event_stream r \<longleftrightarrow> HasPrefix (header_Get (Header r) ''Accept'') ''text/event-stream''"

text \<open>
  C18: the answer to a forwarded request, other than an event stream, whose upstream request was
  built: when the upstream cannot be reached the client gets 502, without a body, and the error is
  returned for the log; otherwise the client gets the upstream's status, body and headers, and the
  status returned for the metrics is the one the client gets.
\<close>

theorem forwardRequest_answers:
  assumes "buildUpstreamRequest r base target = Val up" "\<not> is_event_stream r" "rw_sent (rw s) = None"
    "Client proxy (Timeout proxy) (case auth of None \<Rightarrow> up | Some inject \<Rightarrow> inject up) (hworld s) = (Val (res, err), w)"
    "case (res, err) of (None, None) \<Rightarrow> False | (Some resp, None) \<Rightarrow> 200 \<le> StatusCode resp \<and> StatusCode resp \<le> 999 | _ \<Rightarrow> True"
  shows "\<exists>t st. forwardRequest proxy auth rp r base target s = (Val (st, err), t) \<and> hworld t = w \<and> final_status (rw t) = st
    \<and> (case (res, err) of
         (Some resp, None) \<Rightarrow> st = StatusCode resp \<and> final_header (rw t) = copyHeaders (rw_header (rw s)) (RespHeader resp)
           \<and> rw_body (rw t) = rw_body (rw s) @ (case RespBody resp of None \<Rightarrow> [] | Some (b, _) \<Rightarrow> b)
       | _ \<Rightarrow> st = 502 \<and> rw_body (rw t) = rw_body (rw s))"
  using assms
  by (cases err; cases res; cases "RespBody (the res)")
    (auto simp: forwardRequest_def is_event_stream_def Let_def bindp_run on_hworld_run on_rw_run header_map_run
      WriteHeader_fresh Write_run retp_run final_status_def final_header_def split: if_splits)

lemma event_stream_forward:
  assumes "buildUpstreamRequest r base target = Val up" "is_event_stream r"
  shows "forwardRequest proxy auth rp r base target s = bindp (handleEventStream rp r) (\<lambda>st. retp (st, None)) s"
  using assms by (simp add: forwardRequest_def is_event_stream_def Let_def)

text \<open>
  an event stream whose upstream cannot be reached is answered 200 with an empty body and
  recorded with status 200: the error handler of the reverse proxy does nothing.
\<close>

theorem event_stream_hides_failure:
  assumes "buildUpstreamRequest r base target = Val up" "is_event_stream r" "rw_sent (rw s) = None"
    "director resolve transform r = Val out" "transport (out\<lparr>Header := outgoing out\<rparr>) (hworld s) = (Val (res, Some e), w)"
  shows "\<exists>t. forwardRequest proxy auth (reverse_proxy_ServeHTTP outgoing transport (director resolve transform)) r base target s
      = (Val (200, None), t) \<and> hworld t = w \<and> final_status (rw t) = 200 \<and> rw_body (rw t) = rw_body (rw s)"
  using assms(3-)
  by (simp add: event_stream_forward [OF assms(1,2)] handleEventStream_def intercepted_def reverse_proxy_ServeHTTP_def
      Let_def bindp_run on_hworld_run retp_run interceptor_Status_def final_status_def)

text \<open>
  an upstream that answers an event stream with a status below 100 ends the gateway's process:
  \<open>WriteHeader\<close> panics with a string in the goroutine of the reverse proxy, and the type assertion
  in the deferred function panics again.
\<close>

theorem event_stream_bad_status_crashes:
  assumes "buildUpstreamRequest r base target = Val up" "is_event_stream r" "rw_sent (rw s) = None"
    "director resolve transform r = Val out" "transport (out\<lparr>Header := outgoing out\<rparr>) (hworld s) = (Val (Some resp, None), w)"
    "StatusCode resp < 100"
  shows "\<exists>t. forwardRequest proxy auth (reverse_proxy_ServeHTTP outgoing transport (director resolve transform)) r base target s
      = (Panic process_crash, t)"
  using assms(3-)
  by (simp add: event_stream_forward [OF assms(1,2)] handleEventStream_def intercepted_def reverse_proxy_ServeHTTP_def
      Let_def bindp_run on_hworld_run on_rw_run header_map_run WriteHeader_def retp_run)

text \<open>
  the service credentials are added to the upstream request of an event stream, which is not
  sent; what is sent does not depend on the injector.
\<close>

theorem event_stream_ignores_injector:
  assumes "is_event_stream r"
  shows "forwardRequest proxy (Some inject) rp r base target = forwardRequest proxy None rp r base target"
  using assms by (cases "buildUpstreamRequest r base target") (simp_all add: forwardRequest_def is_event_stream_def Let_def)

section \<open>Notifications\<close>

text \<open>The proxy's client and clock act on the network part of the world.\<close>

definition lift_genv :: "'w Env \<Rightarrow> 'w gworld Env" where
  "lift_genv env = \<lparr>Now = (\<lambda>g. case Now env (net g) of (t, w) \<Rightarrow> (t, g\<lparr>net := w\<rparr>)),
     Sleep = (\<lambda>d g. g\<lparr>net := Sleep env d (net g)\<rparr>)\<rparr>"

definition lift_client :: "'w client \<Rightarrow> 'w gworld client" where
  "lift_client c req = on_net (c req)"

definition keeps_metrics :: "('w gworld hstate, 'a) prog \<Rightarrow> bool" where
  "keeps_metrics m \<longleftrightarrow> step_rel (\<lambda>s t. metrics (hworld t) = metrics (hworld s)) m"

lemma keeps_refl: "reflp (\<lambda>s t. metrics (hworld t) = metrics (hworld s))"
  by (simp add: reflp_def)

lemma keeps_trans: "transp (\<lambda>s t. metrics (hworld t) = metrics (hworld s))"
  by (simp add: transp_def)

lemma keeps_bindp: "keeps_metrics m \<Longrightarrow> (\<And>x. keeps_metrics (k x)) \<Longrightarrow> keeps_metrics (bindp m k)"
  unfolding keeps_metrics_def by (rule step_rel_bindp [OF keeps_trans])

lemma keeps_retp: "keeps_metrics (retp x)" and keeps_panicp: "keeps_metrics (panicp e)"
  unfolding keeps_metrics_def by (rule step_rel_retp [OF keeps_refl], rule step_rel_panicp [OF keeps_refl])

lemma keeps_on_rw: "keeps_metrics (on_rw m)"
  by (simp add: keeps_metrics_def step_rel_def on_rw_run split: prod.split)

lemma keeps_on_net: "keeps_metrics (on_hworld (on_net m))"
  by (simp add: keeps_metrics_def step_rel_def on_hworld_run on_net_run split: prod.split)

lemma keeps_now: "keeps_metrics (on_hworld (time_Now (lift_genv env)))"
  by (simp add: keeps_metrics_def step_rel_def on_hworld_run time_Now_run lift_genv_def split: prod.split)

lemma keeps_intercepted: "keeps_metrics (h r) \<Longrightarrow> keeps_metrics (intercepted h r)"
  unfolding keeps_metrics_def step_rel_def intercepted_def Let_def
  by (auto split: prod.splits go.splits) (metis hstate.select_convs(2) hstate.surjective hstate.update_convs(1) snd_conv)+

lemma keeps_event_stream: "keeps_metrics (h r) \<Longrightarrow> keeps_metrics (handleEventStream h r)"
proof -
  assume "keeps_metrics (h r)"
  then have "keeps_metrics (intercepted h r)" by (rule keeps_intercepted)
  then show ?thesis unfolding keeps_metrics_def step_rel_def handleEventStream_def
    by (auto split: prod.splits go.splits) (metis snd_conv)+
qed

lemmas keeps_intros = keeps_bindp keeps_retp keeps_panicp keeps_on_rw keeps_on_net keeps_now

lemma keeps_reverse_proxy: "keeps_metrics (reverse_proxy_ServeHTTP outgoing (lift_client transport) dir r)"
  unfolding reverse_proxy_ServeHTTP_def lift_client_def
  by (auto intro!: keeps_intros split: go.split option.split prod.split)

lemma keeps_forward:
  assumes "\<And>t. Client proxy t = lift_client (c t)" "keeps_metrics (rp r)"
  shows "keeps_metrics (forwardRequest proxy auth rp r base target)"
  unfolding forwardRequest_def Let_def assms(1) lift_client_def
  by (auto intro!: keeps_intros keeps_event_stream [of rp r] assms(2) split: go.split option.split prod.split)

text \<open>What the two notifiers of a function proxy do at the start and at the end of a request.\<close>

definition count_started :: "string \<Rightarrow> MetricOptions \<Rightarrow> MetricOptions" where
  "count_started name m = m\<lparr>GatewayFunctionInvocationStarted :=
     (GatewayFunctionInvocationStarted m)(name := GatewayFunctionInvocationStarted m name + 1)\<rparr>"

definition count_completed :: "string \<Rightarrow> int \<Rightarrow> duration \<Rightarrow> MetricOptions \<Rightarrow> MetricOptions" where
  "count_completed name st d m =
     m\<lparr>GatewayFunctionsHistogram := (GatewayFunctionsHistogram m)((name, Itoa st) := GatewayFunctionsHistogram m (name, Itoa st) @ [d]),
       GatewayFunctionInvocation := (GatewayFunctionInvocation m)((name, Itoa st) := GatewayFunctionInvocation m (name, Itoa st) + 1)\<rparr>"

lemma notify_started:
  "notify_all [LoggingNotifier_Notify, PrometheusFunctionNotifier_Notify ns] m target u st ''started'' d g
    = (Val (), g\<lparr>metrics := count_started (metric_name ns u) (metrics g)\<rparr>)"
  by (simp add: LoggingNotifier_Notify_def PrometheusFunctionNotifier_Notify_def Let_def bindp_run retp_run
      on_metrics_run modifyp_run count_started_def)

lemma notify_completed_metrics:
  "notify_all [LoggingNotifier_Notify, PrometheusFunctionNotifier_Notify ns] m target u st ''completed'' d g = (v, g') \<Longrightarrow>
   metrics g' = count_completed (metric_name ns u) st d (metrics g)"
  by (auto simp: LoggingNotifier_Notify_def PrometheusFunctionNotifier_Notify_def Let_def bindp_run retp_run
      on_metrics_run modifyp_run count_completed_def)

text \<open>
  C21: a function call that the proxy finishes, in any way but a panic, counts exactly once as started
  and once as completed, under the same function name, and adds one duration to the histogram;
  nothing else in the metrics changes. The label \<open>code\<close> is the status \<open>forwardRequest\<close> returned.
\<close>

theorem function_call_counted_once:
  assumes "\<And>d. Client proxy d = lift_client (c d)"
    "MakeForwardingProxyHandler (lift_genv env) proxy [LoggingNotifier_Notify, PrometheusFunctionNotifier_Notify ns]
       resolve transform auth outgoing (lift_client transport) r s = (Val (), t)"
  shows "\<exists>st d. metrics (hworld t) =
    count_completed (metric_name ns (url_String (URL r))) st d (count_started (metric_name ns (url_String (URL r))) (metrics (hworld s)))"
proof -
  let ?name = "metric_name ns (url_String (URL r))"
  let ?rp = "reverse_proxy_ServeHTTP outgoing (lift_client transport) (director resolve transform)"
  let ?s1 = "s\<lparr>hworld := (hworld s)\<lparr>metrics := count_started ?name (metrics (hworld s))\<rparr>\<rparr>"
  from assms(2) obtain start s2 st err s3 d s4 where
    2: "on_hworld (time_Now (lift_genv env)) ?s1 = (Val start, s2)" and
    3: "forwardRequest proxy auth ?rp r (resolve r) (transform r) s2 = (Val (st, err), s3)" and
    4: "on_hworld (time_Since (lift_genv env) start) s3 = (Val d, s4)" and
    5: "on_hworld (notify_all [LoggingNotifier_Notify, PrometheusFunctionNotifier_Notify ns] (Method r) (transform r)
          (url_String (URL r)) st ''completed'' d) s4 = (Val (), t)"
    unfolding MakeForwardingProxyHandler_def Let_def
    by (auto simp: on_hworld_run [of "notify_all _ _ _ _ _ ''started'' _"] notify_started simp del: notify_all.simps elim!: bindp_ValE)
  have k: "metrics (hworld y) = metrics (hworld x)" if "keeps_metrics m" "m x = (v, y)" for m :: "('w gworld hstate, 'b) prog" and x v y
    using that unfolding keeps_metrics_def by (rule step_relD)
  have "metrics (hworld s2) = count_started ?name (metrics (hworld s))"
    using k [OF keeps_now 2] by simp
  moreover have "metrics (hworld s3) = metrics (hworld s2)"
    by (rule k [OF keeps_forward [OF assms(1) keeps_reverse_proxy] 3])
  moreover have "metrics (hworld s4) = metrics (hworld s3)"
    using 4 by (auto simp: on_hworld_run time_Since_run lift_genv_def split: prod.splits)
  moreover have "metrics (hworld t) = count_completed ?name st d (metrics (hworld s4))"
    using 5 notify_completed_metrics by (fastforce simp: on_hworld_run simp del: notify_all.simps split: prod.splits)
  ultimately show ?thesis by auto
qed

section \<open>Witnesses\<close>

text \<open>
  A request for a path, with an Accept header, and an upstream whose world counts the requests: it
  refuses the first one, answers the second one with 200 and the others with status 99.
\<close>

definition demo_forward :: "string \<Rightarrow> string \<Rightarrow> request" where
  "demo_forward accept path = \<lparr>Method = ''GET'', URL = \<lparr>Scheme = [], UHost = [], Path = path, RawPath = [], RawQuery = ''q=1''\<rparr>,
     Header = [''Accept'' \<mapsto> [accept], ''Connection'' \<mapsto> [''close'']], RHost = ''gw'', RemoteAddr = ''1.2.3.4:5'', Body = None, RVars = (\<lambda>_. None)\<rparr>"

definition demo_net :: "nat client" where
  "demo_net req n = (if n = 0 then (Val (None, Some ''refused''), 1)
     else (Val (Some \<lparr>StatusCode = (if n = 1 then 200 else 99), RespHeader = (\<lambda>_. None), RespBody = Some (''hi'', None)\<rparr>, None), n + 1))"

definition demo_proxy :: "nat HTTPClientReverseProxy" where
  "demo_proxy = NewHTTPClientReverseProxy ''dev'' \<lparr>Scheme = ''http'', UHost = ''p:8080'', Path = [], RawPath = [], RawQuery = []\<rparr>
     60 (\<lambda>_. demo_net)"

definition demo_hs :: "'w \<Rightarrow> 'w hstate" where
  "demo_hs w = \<lparr>rw = new_writer, hworld = w\<rparr>"

lemma demo_target: "plain_target ''p:8080'' ''/function/f'' ''q=1''" "plain_target ''p:8080'' ''/function/f/%zz'' ''q=1''"
  by code_simp+

lemma demo_method: "\<forall>c \<in> set ''GET''. is_token_char c"
  by code_simp

text \<open>The path \<open>/function/f/a%3Fb\<close> with the query \<open>q=1\<close>: the function is called at \<open>a\<close>.\<close>

lemma buildUpstreamRequest_forwards_witness:
  "\<exists>req. buildUpstreamRequest (demo_forward ''text/html'' ''/function/f/a?b'') (''http://'' @ ''p:8080'') ''/function/f/a?b'' = Val req
    \<and> Path (URL req) = ''/function/f/a'' \<and> RawQuery (URL req) = ''b?q=1''"
proof -
  have "unescape ''/function/f/a'' = Some ''/function/f/a''" "plain_target ''p:8080'' ''/function/f/a'' []"
    "\<forall>c \<in> set (''?b'' @ ''q=1''). \<not> is_ctl c" by code_simp+
  then show ?thesis
    using buildUpstreamRequest_forwards [of "''p:8080''" "''/function/f/a''" "''?b''" "[]" "demo_forward ''text/html'' ''/function/f/a?b''" "''/function/f/a''"]
      demo_method by (auto simp: demo_forward_def)
qed

lemma undecodable_path_panics_witness:
  "fst (forwardRequest demo_proxy None (\<lambda>r. retp ()) (demo_forward ''text/html'' ''/function/f/%zz'') (''http://'' @ ''p:8080'')
      ''/function/f/%zz'' (demo_hs 0)) = Panic ''nil pointer dereference''"
proof -
  have "unescape ''/function/f/%zz'' = None" by code_simp
  from undecodable_path_panics [OF _ this, of "''p:8080''" "demo_forward ''text/html'' ''/function/f/%zz''" demo_proxy] demo_target(2)
  show ?thesis by (simp add: demo_forward_def)
qed

lemma demo_built: obtains up where "buildUpstreamRequest (demo_forward accept ''/function/f'') ''http://p:8080'' ''/function/f'' = Val up"
proof -
  have u: "unescape ''/function/f'' = Some ''/function/f''" by code_simp
  have "url_Parse (upstream_url (demo_forward accept ''/function/f'') (''http://'' @ ''p:8080'') ''/function/f'') \<noteq> None"
    using upstream_url_parse [of "''p:8080''" "''/function/f''" "demo_forward accept ''/function/f''"] demo_target(1) u
    by (simp add: demo_forward_def setPath_def)
  then have "\<exists>up. buildUpstreamRequest (demo_forward accept ''/function/f'') (''http://'' @ ''p:8080'') ''/function/f'' = Val up"
    using demo_method by (auto simp: buildUpstreamRequest_def http_NewRequest_def demo_forward_def simp del: append.simps)
  with that show thesis by auto
qed

lemma forwardRequest_answers_witness:
  "\<exists>t. forwardRequest demo_proxy None (\<lambda>r. retp ()) (demo_forward ''text/html'' ''/function/f'') ''http://p:8080'' ''/function/f'' (demo_hs 1)
      = (Val (200, None), t) \<and> final_status (rw t) = 200 \<and> rw_body (rw t) = ''hi''"
proof -
  obtain up where up: "buildUpstreamRequest (demo_forward ''text/html'' ''/function/f'') ''http://p:8080'' ''/function/f'' = Val up"
    by (rule demo_built)
  have n: "\<not> is_event_stream (demo_forward ''text/html'' ''/function/f'')"
    by (simp add: is_event_stream_def demo_forward_def header_Get_def HasPrefix_def)
  have c: "Client demo_proxy (Timeout demo_proxy) (case None of None \<Rightarrow> up | Some inject \<Rightarrow> inject up) (hworld (demo_hs 1))
    = (Val (Some \<lparr>StatusCode = 200, RespHeader = (\<lambda>_. None), RespBody = Some (''hi'', None)\<rparr>, None), 2)"
    by (simp add: demo_proxy_def NewHTTPClientReverseProxy_def proxyTransport_RoundTrip_def demo_net_def demo_hs_def)
  have "rw_sent (rw (demo_hs (1 :: nat))) = None" by (simp add: demo_hs_def new_writer_def)
  from forwardRequest_answers [OF up n this c, of "\<lambda>r. retp ()"] show ?thesis
    by (simp add: demo_hs_def new_writer_def) metis
qed

text \<open>The same function with an event stream, through the reverse proxy.\<close>

definition demo_resolve :: "request \<Rightarrow> string" where "demo_resolve r = ''http://p:8080''"

lemma demo_director: obtains out where "director demo_resolve Transparent_Transform (demo_forward accept ''/function/f'') = Val out"
proof -
  have "url_Parse ''http://p:8080'' \<noteq> None" by code_simp
  with that show thesis by (auto simp: director_def demo_resolve_def)
qed

lemma demo_stream: "is_event_stream (demo_forward ''text/event-stream'' ''/function/f'')"
  by (simp add: is_event_stream_def demo_forward_def header_Get_def HasPrefix_def)

lemma event_stream_hides_failure_witness:
  "\<exists>t. forwardRequest demo_proxy None (reverse_proxy_ServeHTTP Header demo_net (director demo_resolve Transparent_Transform))
      (demo_forward ''text/event-stream'' ''/function/f'') ''http://p:8080'' ''/function/f'' (demo_hs 0)
      = (Val (200, None), t) \<and> final_status (rw t) = 200 \<and> rw_body (rw t) = []"
proof -
  obtain up out where up: "buildUpstreamRequest (demo_forward ''text/event-stream'' ''/function/f'') ''http://p:8080'' ''/function/f'' = Val up"
    and out: "director demo_resolve Transparent_Transform (demo_forward ''text/event-stream'' ''/function/f'') = Val out"
    by (meson demo_built demo_director)
  have w: "rw_sent (rw (demo_hs (0 :: nat))) = None" by (simp add: demo_hs_def new_writer_def)
  have "demo_net (out\<lparr>Header := Header out\<rparr>) (hworld (demo_hs 0)) = (Val (None, Some ''refused''), 1)"
    by (simp add: demo_net_def demo_hs_def)
  from event_stream_hides_failure [where outgoing = Header and transport = demo_net and proxy = demo_proxy and auth = None, OF up demo_stream w out this] show ?thesis by (auto simp: demo_hs_def new_writer_def)
qed

lemma event_stream_bad_status_crashes_witness:
  "\<exists>t. forwardRequest demo_proxy None (reverse_proxy_ServeHTTP Header demo_net (director demo_resolve Transparent_Transform))
      (demo_forward ''text/event-stream'' ''/function/f'') ''http://p:8080'' ''/function/f'' (demo_hs 2) = (Panic process_crash, t)"
proof -
  obtain up out where up: "buildUpstreamRequest (demo_forward ''text/event-stream'' ''/function/f'') ''http://p:8080'' ''/function/f'' = Val up"
    and out: "director demo_resolve Transparent_Transform (demo_forward ''text/event-stream'' ''/function/f'') = Val out"
    by (meson demo_built demo_director)
  have w: "rw_sent (rw (demo_hs (2 :: nat))) = None" by (simp add: demo_hs_def new_writer_def)
  have "demo_net (out\<lparr>Header := Header out\<rparr>) (hworld (demo_hs 2))
    = (Val (Some \<lparr>StatusCode = 99, RespHeader = (\<lambda>_. None), RespBody = Some (''hi'', None)\<rparr>, None), 3)"
    by (simp add: demo_net_def demo_hs_def)
  from event_stream_bad_status_crashes [where outgoing = Header and transport = demo_net and proxy = demo_proxy and auth = None, OF up demo_stream w out this] show ?thesis by simp
qed

lemma event_stream_ignores_injector_witness:
  "forwardRequest demo_proxy (Some (SetBasicAuth (\<lambda>u p. u @ p) ''admin'' ''pw'')) (\<lambda>r. retp ())
      (demo_forward ''text/event-stream'' ''/function/f'') ''http://p:8080'' ''/function/f''
   = forwardRequest demo_proxy None (\<lambda>r. retp ()) (demo_forward ''text/event-stream'' ''/function/f'') ''http://p:8080'' ''/function/f''"
  by (rule event_stream_ignores_injector [OF demo_stream])

definition demo_clock :: "nat Env" where
  "demo_clock = \<lparr>Now = (\<lambda>w. (0, w)), Sleep = (\<lambda>d w. w)\<rparr>"

definition demo_gproxy :: "nat gworld HTTPClientReverseProxy" where
  "demo_gproxy = \<lparr>ProxyBaseURL = ProxyBaseURL demo_proxy, Client = (\<lambda>_. lift_client demo_net), Timeout = 60\<rparr>"

definition demo_gworld :: "nat gworld" where
  "demo_gworld = \<lparr>metrics = BuildMetricsOptions, loglines = [], net = 0\<rparr>"

lemma demo_run: "\<exists>t. MakeForwardingProxyHandler (lift_genv demo_clock) demo_gproxy
    [LoggingNotifier_Notify, PrometheusFunctionNotifier_Notify ''fn''] demo_resolve Transparent_Transform None Header
    (lift_client demo_net) (demo_forward ''text/html'' ''/function/f'') (demo_hs demo_gworld) = (Val (), t)"
proof -
  obtain up where up: "buildUpstreamRequest (demo_forward ''text/html'' ''/function/f'') ''http://p:8080'' ''/function/f'' = Val up"
    by (rule demo_built)
  have "\<not> HasPrefix ''text/html'' ''text/event-stream''" by (simp add: HasPrefix_def)
  moreover have "header_Get (Header (demo_forward ''text/html'' ''/function/f'')) ''Accept'' = ''text/html''"
    by (simp add: demo_forward_def header_Get_def)
  moreover have "Path (URL (demo_forward ''text/html'' ''/function/f'')) = ''/function/f''" by (simp add: demo_forward_def)
  ultimately show ?thesis using up
    by (simp add: MakeForwardingProxyHandler_def Let_def demo_resolve_def Transparent_Transform_def demo_hs_def demo_gworld_def
      on_hworld_run bindp_run notify_started forwardRequest_def demo_gproxy_def lift_client_def on_net_run demo_net_def
      on_rw_run WriteHeader_def new_writer_def retp_run time_Now_run time_Since_run lift_genv_def demo_clock_def
      LoggingNotifier_Notify_def PrometheusFunctionNotifier_Notify_def on_metrics_run modifyp_run)
qed

lemma function_call_counted_once_witness:
  "\<exists>t. fst (MakeForwardingProxyHandler (lift_genv demo_clock) demo_gproxy
      [LoggingNotifier_Notify, PrometheusFunctionNotifier_Notify ''fn''] demo_resolve Transparent_Transform None Header
      (lift_client demo_net) (demo_forward ''text/html'' ''/function/f'') (demo_hs demo_gworld)) = Val ()
    \<and> snd (MakeForwardingProxyHandler (lift_genv demo_clock) demo_gproxy
      [LoggingNotifier_Notify, PrometheusFunctionNotifier_Notify ''fn''] demo_resolve Transparent_Transform None Header
      (lift_client demo_net) (demo_forward ''text/html'' ''/function/f'') (demo_hs demo_gworld)) = t
    \<and> GatewayFunctionInvocationStarted (metrics (hworld t)) ''f.fn'' = 1"
proof -
  obtain t where run: "MakeForwardingProxyHandler (lift_genv demo_clock) demo_gproxy
      [LoggingNotifier_Notify, PrometheusFunctionNotifier_Notify ''fn''] demo_resolve Transparent_Transform None Header
      (lift_client demo_net) (demo_forward ''text/html'' ''/function/f'') (demo_hs demo_gworld) = (Val (), t)" using demo_run by blast
  have c: "Client demo_gproxy d = lift_client ((\<lambda>_. demo_net) d)" for d by (simp add: demo_gproxy_def)
  have n: "metric_name ''fn'' (url_String (URL (demo_forward ''text/html'' ''/function/f''))) = ''f.fn''" by code_simp
  from function_call_counted_once [OF c run] run show ?thesis
    by (auto simp: n count_completed_def count_started_def demo_hs_def demo_gworld_def BuildMetricsOptions_def)
qed

end
