(* ===== verification/Handlers.thy ===== *)
theory Handlers
  imports AddMetrics ForwardingProxy
begin

text \<open>
  Package \<open>handlers\<close>, files \<open>healthhandler.go\<close>, \<open>cors.go\<close>, \<open>infohandler.go\<close> and \<open>logs.go\<close>, with
  \<open>types/inforequest.go\<close> and \<open>requests/forward_request.go\<close>: the handlers for health, the store's
  assets, the gateway's version and the logs.
\<close>

section \<open>Health and CORS\<close>

definition HealthzHandler :: "'w handler" where
  "HealthzHandler r =
     (if Method r = ''GET'' then bindp (on_rw (WriteHeader StatusOK)) (\<lambda>_. on_rw (Write ''OK''))
      else on_rw (WriteHeader StatusMethodNotAllowed))"

definition CORSHandler_ServeHTTP :: "'w handler \<Rightarrow> string \<Rightarrow> 'w handler" where
  "CORSHandler_ServeHTTP upstream allowedHost r =
     bindp (on_rw (header_map (header_Set ''Access-Control-Allow-Headers'' ''Content-Type''))) (\<lambda>_.
     bindp (on_rw (header_map (header_Set ''Access-Control-Allow-Methods'' ''GET''))) (\<lambda>_.
     bindp (on_rw (header_map (header_Set ''Access-Control-Allow-Origin'' allowedHost))) (\<lambda>_.
       upstream r)))"

definition DecorateWithCORS :: "'w handler \<Rightarrow> string \<Rightarrow> 'w handler" where
  "DecorateWithCORS upstream allowedHost = CORSHandler_ServeHTTP upstream allowedHost"

section \<open>Information\<close>

record VersionInfo =
  CommitMessage :: string
  Release :: string
  SHA :: string

record 'p GatewayInfo =
  Provider :: "'p option"
  GVersion :: VersionInfo
  Arch :: string

text \<open>
  What the linker sets, and JSON: \<open>Unmarshal\<close> of a provider leaves the pointer nil or what it
  decoded before an error, which is only logged.
\<close>

record 'p info_env =
  version_info :: VersionInfo
  architecture :: string
  unmarshal_provider :: "string \<Rightarrow> 'p option \<times> goerror"
  marshal_info :: "'p GatewayInfo \<Rightarrow> string + string"

definition MakeInfoHandler :: "'p info_env \<Rightarrow> 'w handler \<Rightarrow> 'w handler" where
  "MakeInfoHandler env h r =
     bindp (with_recorder h r) (\<lambda>responseRecorder.
       let provider = fst (unmarshal_provider env (rw_body responseRecorder));
           gatewayInfo = \<lparr>Provider = provider, GVersion = version_info env, Arch = architecture env\<rparr>
       in case marshal_info env gatewayInfo of
            Inl _ \<Rightarrow> on_rw (WriteHeader StatusInternalServerError)
          | Inr jsonOut \<Rightarrow> reply_json jsonOut)"

section \<open>Logs\<close>

definition upstreamLogsEndpoint :: string where
  "upstreamLogsEndpoint = ''/system/logs''"

text \<open>
  \<open>streams\<close>: the writer is a \<open>CloseNotifier\<close> and a \<open>Flusher\<close>, as the writers of the server are.
  \<open>transport\<close> is the default transport under a deadline. The client staying connected is assumed:
  when it leaves, the copy of the body is cut short.
\<close>

definition http_NotFound :: "('w hstate, unit) prog" where
  "http_NotFound = http_Error ''404 page not found'' StatusNotFound"

definition NewLogHandlerFunc :: "(duration \<Rightarrow> 'w client) \<Rightarrow> bool \<Rightarrow> url \<Rightarrow> duration \<Rightarrow> 'w handler" where
  "NewLogHandlerFunc transport streams logProvider timeout r =
     (let upstreamLogProviderBase = TrimSuffix (url_String logProvider) ''/''
      in case buildUpstreamRequest r upstreamLogProviderBase upstreamLogsEndpoint of
           Panic e \<Rightarrow> panicp e
         | Val logRequest \<Rightarrow>
             if \<not> streams then http_NotFound
             else bindp (on_hworld (transport timeout logRequest)) (\<lambda>(res, err).
               case (err, res) of
                 (Some _, _) \<Rightarrow> http_Error ''log request failed'' StatusInternalServerError
               | (None, None) \<Rightarrow> panicp ''nil pointer dereference''
               | (None, Some logResp) \<Rightarrow>
                   if StatusCode logResp = StatusNotFound \<or> StatusCode logResp = StatusNotImplemented
                   then on_rw (WriteHeader StatusNotImplemented)
                   else if StatusCode logResp = StatusOK then
                     (case RespBody logResp of
                        None \<Rightarrow> panicp ''nil pointer dereference''
                      | Some (b, _) \<Rightarrow> if b = [] then retp () else on_rw (Write b))
                   else http_Error (''unknown log request error ('' @ Itoa (StatusCode logResp) @ '')'')
                     StatusInternalServerError))"

section \<open>Forward requests\<close>

record ForwardRequest =
  FRawPath :: string
  FRawQuery :: string
  FMethod :: string

definition NewForwardRequest :: "string \<Rightarrow> url \<Rightarrow> ForwardRequest" where
  "NewForwardRequest method u = \<lparr>FRawPath = Path u, FRawQuery = RawQuery u, FMethod = method\<rparr>"

definition ToURL :: "ForwardRequest \<Rightarrow> string \<Rightarrow> int \<Rightarrow> string" where
  "ToURL f addr wport =
     (if length (FRawQuery f) > 0
      then ''http://'' @ addr @ '':'' @ Itoa wport @ FRawPath f @ ''?'' @ FRawQuery f
      else ''http://'' @ addr @ '':'' @ Itoa wport @ FRawPath f)"

section \<open>Properties\<close>

text \<open>
  the health check answers 200 with \<open>OK\<close> to GET and 405 with no body to every other method.
\<close>

theorem Healthz_answers:
  assumes "rw_sent (rw s) = None"
  shows "\<exists>t. HealthzHandler r s = (Val (), t) \<and> hworld t = hworld s
    \<and> final_status (rw t) = (if Method r = ''GET'' then 200 else 405)
    \<and> rw_body (rw t) = rw_body (rw s) @ (if Method r = ''GET'' then ''OK'' else [])"
  using assms by (simp add: HealthzHandler_def go_simps WriteHeader_fresh final_status_def)

text \<open>
  the version is answered with 200 whatever the provider says: its status is not looked at, and
  an answer that does not decode only leaves the provider's part as the decoder left it.
\<close>

theorem info_answers:
  assumes "h r \<lparr>rw = new_writer, hworld = hworld s\<rparr> = (Val (), t)" "rw_sent (rw s) = None"
    and "marshal_info env \<lparr>Provider = fst (unmarshal_provider env (rw_body (rw t))), GVersion = version_info env,
      Arch = architecture env\<rparr> = Inr out"
  shows "\<exists>t'. MakeInfoHandler env h r s = (Val (), t') \<and> final_status (rw t') = 200
    \<and> rw_body (rw t') = rw_body (rw s) @ out \<and> hworld t' = hworld t"
proof -
  let ?s = "s\<lparr>hworld := hworld t\<rparr>"
  have "MakeInfoHandler env h r s = reply_json out ?s"
    unfolding MakeInfoHandler_def recorder_run [of h r s t, OF assms(1)] by (simp add: Let_def assms(3))
  with reply_json_run [of ?s out] assms(2) show ?thesis by auto
qed

text \<open>
  the logs. A provider without logs (404 or 501) is answered 501, its 200 is answered 200 with
  the body, and everything else, a failed request included, 500; the headers of the provider's answer
  are not passed on.
\<close>

theorem logs_answers:
  assumes "buildUpstreamRequest r (TrimSuffix (url_String u) ''/'') ''/system/logs'' = Val req"
    and "transport timeout req (hworld s) = (Val (Some resp, err), w)"
    and "rw_sent (rw s) = None" "RespBody resp = Some (b, e)"
  shows "\<exists>t. NewLogHandlerFunc transport True u timeout r s = (Val (), t) \<and> hworld t = w
    \<and> final_status (rw t) = (if err \<noteq> None then 500 else if StatusCode resp \<in> {404, 501} then 501
        else if StatusCode resp = 200 then 200 else 500)
    \<and> (err = None \<and> StatusCode resp = 200 \<longrightarrow> rw_body (rw t) = rw_body (rw s) @ b)"
proof -
  let ?s = "s\<lparr>hworld := w\<rparr>"
  have sent: "rw_sent (rw ?s) = None" using assms(3) by simp
  have err: "\<exists>t. http_Error msg 500 ?s = (Val (), t) \<and> hworld t = w \<and> final_status (rw t) = 500" for msg
    using http_Error_run [OF sent, of 500 msg] by auto
  show ?thesis
  proof (cases "err = None \<and> StatusCode resp \<in> {404, 501, 200}")
    case True
    then show ?thesis
      using assms by (auto simp: NewLogHandlerFunc_def Let_def upstreamLogsEndpoint_def go_simps WriteHeader_fresh final_status_def)
  next
    case False
    then obtain msg where "NewLogHandlerFunc transport True u timeout r s = http_Error msg 500 ?s"
      using assms by (cases err) (auto simp: NewLogHandlerFunc_def Let_def upstreamLogsEndpoint_def bindp_run on_hworld_run)
    with err [of msg] False show ?thesis by auto
  qed
qed

text \<open>
  the URL of a forward request parses to the address, the port, the path and the query it was
  made of, for a path without special characters.
\<close>

theorem ToURL_parses:
  assumes "plain_path (Path u)" "plain_target (addr @ '':'' @ Itoa port) [] (RawQuery u)"
  shows "url_Parse (ToURL (NewForwardRequest m u) addr port) =
    Some \<lparr>Scheme = ''http'', UHost = addr @ '':'' @ Itoa port, Path = Path u, RawPath = [], RawQuery = RawQuery u\<rparr>"
proof -
  let ?v = "\<lparr>Scheme = ''http'', UHost = addr @ '':'' @ Itoa port, Path = Path u, RawPath = [], RawQuery = RawQuery u\<rparr>"
  have "ToURL (NewForwardRequest m u) addr port = url_String ?v"
    by (simp add: url_String_plain [OF assms(1)] ToURL_def NewForwardRequest_def)
  then show ?thesis using url_reparse [OF assms] by simp
qed

lemma Itoa_8080: "Itoa 8080 = ''8080''"
proof -
  have "char_of (56 :: nat) = CHR ''8''" "char_of (48 :: nat) = CHR ''0''" by code_simp+
  then show ?thesis
    by (simp add: Itoa_def nat_digits.simps [of 8080] nat_digits.simps [of 808] nat_digits.simps [of 80] nat_digits.simps [of 8] digit_def)
qed

text \<open>A path with an encoded question mark is cut there, as \<open>RawPath\<close> is the decoded path.\<close>

lemma ToURL_cuts_path:
  "map_option Path (url_Parse (ToURL (NewForwardRequest ''GET'' \<lparr>Scheme = [], UHost = [], Path = ''/a?b'', RawPath = ''/a%3Fb'', RawQuery = []\<rparr>)
     ''f'' 8080)) = Some ''/a''"
proof -
  have "map_option Path (url_Parse ''http://f:8080/a?b'') = Some ''/a''" by code_simp
  then show ?thesis by (simp add: ToURL_def NewForwardRequest_def Itoa_8080)
qed

section \<open>Witnesses\<close>

lemma Healthz_answers_witness:
  "\<exists>t. HealthzHandler (demo_forward ''text/html'' ''/healthz'') (demo_hs (0 :: nat)) = (Val (), t) \<and> final_status (rw t) = 200"
  using Healthz_answers [of "demo_hs (0 :: nat)" "demo_forward ''text/html'' ''/healthz''"]
  by (auto simp: demo_hs_def new_writer_def demo_forward_def)

definition demo_info :: "string info_env" where
  "demo_info = \<lparr>version_info = \<lparr>CommitMessage = ''m'', Release = ''dev'', SHA = ''s''\<rparr>, architecture = ''x86_64'',
     unmarshal_provider = (\<lambda>b. if b = [] then (None, Some ''unexpected end'') else (Some b, None)),
     marshal_info = (\<lambda>i. Inr (case Provider i of None \<Rightarrow> ''null'' | Some p \<Rightarrow> p))\<rparr>"

lemma info_answers_witness:
  "\<exists>t'. MakeInfoHandler demo_info (\<lambda>r. on_rw (WriteHeader 502)) (demo_forward ''text/html'' ''/system/info'') (demo_hs (0 :: nat)) = (Val (), t')
    \<and> final_status (rw t') = 200 \<and> rw_body (rw t') = ''null''"
proof -
  let ?t = "snd (on_rw (WriteHeader 502) (demo_hs (0 :: nat)))"
  have "on_rw (WriteHeader 502) \<lparr>rw = new_writer, hworld = hworld (demo_hs (0 :: nat))\<rparr> = (Val (), ?t)"
    by (simp add: on_rw_run WriteHeader_fresh new_writer_def demo_hs_def)
  from info_answers [where s = "demo_hs (0 :: nat)" and env = demo_info and h = "\<lambda>r. on_rw (WriteHeader 502)" and r = "demo_forward ''text/html'' ''/system/info''", OF this]
  show ?thesis by (auto simp: demo_info_def demo_hs_def new_writer_def on_rw_run WriteHeader_def)
qed

lemma demo_logs_url: "TrimSuffix (url_String \<lparr>Scheme = ''http'', UHost = ''p:8080'', Path = ''/'', RawPath = [], RawQuery = []\<rparr>) ''/''
    = ''http://p:8080''"
  by code_simp

lemma demo_logs_request:
  "\<exists>req. buildUpstreamRequest (demo_forward ''text/html'' ''/system/logs'')
     (TrimSuffix (url_String \<lparr>Scheme = ''http'', UHost = ''p:8080'', Path = ''/'', RawPath = [], RawQuery = []\<rparr>) ''/'') upstreamLogsEndpoint = Val req"
proof -
  have "unescape ''/system/logs'' = Some ''/system/logs''" by code_simp
  moreover have "plain_target ''p:8080'' ''/system/logs'' ''q=1''" by code_simp
  ultimately show ?thesis
    using buildUpstreamRequest_val [of "''p:8080''" "''/system/logs''" "demo_forward ''text/html'' ''/system/logs''"] demo_method demo_logs_url
    by (auto simp: demo_forward_def upstreamLogsEndpoint_def)
qed

definition demo_logs :: "nat client" where
  "demo_logs req = retp (Some \<lparr>StatusCode = 200, RespHeader = (\<lambda>_. None), RespBody = Some (''line'', None)\<rparr>, None)"

lemma logs_answers_witness:
  "\<exists>t. NewLogHandlerFunc (\<lambda>_. demo_logs) True
      \<lparr>Scheme = ''http'', UHost = ''p:8080'', Path = ''/'', RawPath = [], RawQuery = []\<rparr> 60 (demo_forward ''text/html'' ''/system/logs'')
      (demo_hs (0 :: nat)) = (Val (), t) \<and> final_status (rw t) = 200 \<and> rw_body (rw t) = ''line''"
proof -
  let ?resp = "\<lparr>StatusCode = 200, RespHeader = (\<lambda>_. None), RespBody = Some (''line'', None)\<rparr>"
  obtain req where "buildUpstreamRequest (demo_forward ''text/html'' ''/system/logs'')
      (TrimSuffix (url_String \<lparr>Scheme = ''http'', UHost = ''p:8080'', Path = ''/'', RawPath = [], RawQuery = []\<rparr>) ''/'') ''/system/logs'' = Val req"
    using demo_logs_request by (auto simp: upstreamLogsEndpoint_def)
  from logs_answers [where transport = "\<lambda>_. demo_logs" and timeout = 60 and s = "demo_hs (0 :: nat)"
      and resp = ?resp and err = None and w = 0 and b = "''line''" and e = None, OF this]
  show ?thesis by (auto simp: demo_hs_def new_writer_def demo_logs_def retp_run)
qed

lemma ToURL_parses_witness:
  "url_Parse (ToURL (NewForwardRequest ''GET'' \<lparr>Scheme = [], UHost = [], Path = ''/a/b'', RawPath = [], RawQuery = ''q=1''\<rparr>) ''f'' 8080)
    = Some \<lparr>Scheme = ''http'', UHost = ''f:8080'', Path = ''/a/b'', RawPath = [], RawQuery = ''q=1''\<rparr>"
proof -
  have "plain_path ''/a/b''" "plain_target ''f:8080'' [] ''q=1''" by code_simp+
  moreover have "''f'' @ '':'' @ Itoa 8080 = ''f:8080''" by (simp add: Itoa_8080)
  ultimately show ?thesis using ToURL_parses [of "\<lparr>Scheme = [], UHost = [], Path = ''/a/b'', RawPath = [], RawQuery = ''q=1''\<rparr>" "''f''" 8080 "''GET''"] by simp
qed

end
