(* ===== verification/QueueProxy.thy ===== *)
theory QueueProxy
  imports Middleware ScalingTypes GoUrl
begin

text \<open>
  Package \<open>handlers\<close>, files \<open>queue_proxy.go\<close> and \<open>callid_middleware.go\<close>: the handler that puts an
  asynchronous call on the queue, and the middleware that tags a call with an id. The queue is a
  parameter; the metrics, the default namespace and the function query that \<open>MakeQueuedProxy\<close> takes
  are not used by its body.
\<close>

section \<open>The queue\<close>

record QueueRequest =
  QFunction :: string
  QBody :: string
  QMethod :: string
  QueryString :: string
  QPath :: string
  QHeader :: header
  QHost :: string
  CallbackURL :: "url option"

type_synonym 'w queuer = "QueueRequest \<Rightarrow> ('w, goerror) prog"

definition getCallbackURLHeader :: "header \<Rightarrow> string + url option" where
  "getCallbackURLHeader h =
     (let v = header_Get h ''X-Callback-Url''
      in if length v > 0 then (case url_Parse v of None \<Rightarrow> Inl (''parse '' @ v) | Some u \<Rightarrow> Inr (Some u))
         else Inr None)"

definition getNameParts :: "string \<Rightarrow> string \<times> string" where
  "getNameParts name =
     (let index = LastIndexByte name CHR ''.''
      in if index > 0 then (take (nat index) name, drop (nat index + 1) name) else (name, []))"

definition mux_var :: "request \<Rightarrow> string \<Rightarrow> string" where
  "mux_var r k = (case RVars r k of None \<Rightarrow> [] | Some v \<Rightarrow> v)"

definition queue_request :: "(request \<Rightarrow> string) \<Rightarrow> request \<Rightarrow> string \<Rightarrow> url option \<Rightarrow> QueueRequest" where
  "queue_request transform r body callback =
     \<lparr>QFunction = mux_var r ''name'', QBody = body, QMethod = Method r, QueryString = RawQuery (URL r),
      QPath = transform r, QHeader = Header r, QHost = RHost r, CallbackURL = callback\<rparr>"

definition MakeQueuedProxy :: "'w queuer \<Rightarrow> (request \<Rightarrow> string) \<Rightarrow> 'w handler" where
  "MakeQueuedProxy queue transform r =
     (case (case Body r of None \<Rightarrow> ([], None) | Some b \<Rightarrow> b) of
        (body, Some e) \<Rightarrow> http_Error e StatusBadRequest
      | (body, None) \<Rightarrow>
          (case getCallbackURLHeader (Header r) of
             Inl e \<Rightarrow> http_Error e StatusBadRequest
           | Inr callback \<Rightarrow>
               bindp (on_hworld (queue (queue_request transform r body callback))) (\<lambda>err.
                 case err of
                   Some e \<Rightarrow> http_Error (''Error queuing request: '' @ e) StatusInternalServerError
                 | None \<Rightarrow> on_rw (WriteHeader StatusAccepted))))"

section \<open>Call ids\<close>

text \<open>
  \<open>generate\<close> is \<open>uuid.Generate().String()\<close>. The header of the request is changed in place, which is
  what the next handler sees.
\<close>

definition MakeCallIDMiddleware :: "string \<Rightarrow> 'w Env \<Rightarrow> ('w, string) prog \<Rightarrow> 'w handler \<Rightarrow> 'w handler" where
  "MakeCallIDMiddleware version env generate nxt r =
     bindp (on_hworld (time_Now env)) (\<lambda>start.
     bindp (if length (header_Get (Header r) ''X-Call-Id'') = 0 then
              bindp (on_hworld generate) (\<lambda>callID.
              bindp (on_rw (header_map (header_Add ''X-Call-Id'' callID))) (\<lambda>_.
                retp (r\<lparr>Header := header_Add ''X-Call-Id'' callID (Header r)\<rparr>)))
            else retp r) (\<lambda>r1.
     bindp (on_rw (header_map (header_Add ''X-Start-Time'' (Itoa start)))) (\<lambda>_.
     bindp (on_rw (header_map (header_Add ''X-Served-By'' (''openfaas-ce/'' @ version)))) (\<lambda>_.
       nxt (r1\<lparr>Header := header_Add ''X-Start-Time'' (Itoa start) (Header r1)\<rparr>)))))"

section \<open>Properties\<close>

text \<open>What the handler is asked to queue, or the error the client is told.\<close>

definition queued :: "(request \<Rightarrow> string) \<Rightarrow> request \<Rightarrow> QueueRequest option" where
  "queued transform r =
     (case Body r of
        Some (_, Some _) \<Rightarrow> None
      | b \<Rightarrow> (case getCallbackURLHeader (Header r) of
          Inl _ \<Rightarrow> None
        | Inr callback \<Rightarrow> Some (queue_request transform r (case b of None \<Rightarrow> [] | Some (d, _) \<Rightarrow> d) callback)))"

lemma http_Error_answer:
  assumes "rw_sent (rw s) = None" "200 \<le> code" "code \<le> 999"
  obtains t where "http_Error msg code s = (Val (), t)" "final_status (rw t) = code" "hworld t = hworld s"
  using http_Error_run [OF assms, of msg] by blast

lemma MakeQueuedProxy_run:
  assumes "rw_sent (rw s) = None" "total (queue q)" "queued transform r = Some q"
  shows "\<exists>t. MakeQueuedProxy queue transform r s = (Val (), t) \<and>
    (case queue q (hworld s) of (v, w) \<Rightarrow> hworld t = w \<and> final_status (rw t) = (if v = Val None then 202 else 500))"
proof -
  obtain body callback where b: "(case Body r of None \<Rightarrow> ([], None) | Some b \<Rightarrow> b) = (body, None)"
    and c: "getCallbackURLHeader (Header r) = Inr callback" and q: "q = queue_request transform r body callback"
    using assms(3) by (auto simp: queued_def split: option.splits prod.splits sum.splits)
  obtain err w where run: "queue q (hworld s) = (Val err, w)" using assms(2) unfolding total_returns by blast
  let ?s = "s\<lparr>hworld := w\<rparr>"
  have "MakeQueuedProxy queue transform r s = (case err of
      Some e \<Rightarrow> http_Error (''Error queuing request: '' @ e) 500 | None \<Rightarrow> on_rw (WriteHeader 202)) ?s"
    using run by (simp add: MakeQueuedProxy_def b c q bindp_run on_hworld_run split: option.split)
  then show ?thesis
    using assms(1) run http_Error_run [of ?s 500]
    by (cases err) (auto simp: on_rw_run WriteHeader_fresh final_status_def)
qed

text \<open>
  C30: an asynchronous call is answered 202 exactly when it was put on the queue, once. What is queued is the
  request as it came: the function of the route, the bytes of the body, the method, the query string, the header and
  the host, with the path the transformer makes and the URL of \<open>X-Callback-Url\<close>, if that header
  has a value. A body that cannot be read or a callback that does not parse is answered 400 and nothing is queued;
  a refusal of the queue is answered 500.
\<close>

theorem MakeQueuedProxy_answers:
  assumes "rw_sent (rw s) = None" "\<And>q. total (queue q)" "RVars r ''name'' = Some name"
    and "Body r = None \<and> body = [] \<and> readerr = None \<or> Body r = Some (body, readerr)"
    and "case Header r ''X-Callback-Url'' of Some (v # _) \<Rightarrow> callback = v | _ \<Rightarrow> callback = []"
  shows "\<exists>t. MakeQueuedProxy queue transform r s = (Val (), t) \<and>
    (if readerr \<noteq> None \<or> callback \<noteq> [] \<and> url_Parse callback = None then hworld t = hworld s \<and> final_status (rw t) = 400
     else (case queue \<lparr>QFunction = name, QBody = body, QMethod = Method r, QueryString = RawQuery (URL r), QPath = transform r,
               QHeader = Header r, QHost = RHost r, CallbackURL = (if callback = [] then None else url_Parse callback)\<rparr> (hworld s) of
         (v, w) \<Rightarrow> hworld t = w \<and> final_status (rw t) = (if v = Val None then 202 else 500)))"
proof -
  have cb: "header_Get (Header r) ''X-Callback-Url'' = callback"
    using assms(5) by (auto simp: header_Get_def split: option.splits list.splits)
  have body: "(case Body r of None \<Rightarrow> ([], None) | Some b \<Rightarrow> b) = (body, readerr)" using assms(4) by auto
  show ?thesis
  proof (cases "readerr \<noteq> None \<or> callback \<noteq> [] \<and> url_Parse callback = None")
    case True
    then have "\<exists>e. MakeQueuedProxy queue transform r = http_Error e 400"
      by (cases readerr) (auto simp: MakeQueuedProxy_def body getCallbackURLHeader_def cb)
    then obtain e where "MakeQueuedProxy queue transform r = http_Error e 400" ..
    with True http_Error_run [OF assms(1), of 400 e] show ?thesis by auto
  next
    case False
    let ?q = "\<lparr>QFunction = name, QBody = body, QMethod = Method r, QueryString = RawQuery (URL r), QPath = transform r,
      QHeader = Header r, QHost = RHost r, CallbackURL = (if callback = [] then None else url_Parse callback)\<rparr>"
    have "queued transform r = Some ?q"
      using False assms(3,4) by (auto simp: queued_def getCallbackURLHeader_def cb queue_request_def mux_var_def)
    from MakeQueuedProxy_run [where queue = queue and transform = transform, OF assms(1,2) this] show ?thesis
      unfolding if_not_P [OF False] .
  qed
qed

text \<open>
  the path of a queued call is what follows the name in \<open>/async-function/name...\<close>, so the
  queue worker calls the function with the same path as a synchronous call.
\<close>

theorem async_path:
  assumes "name \<noteq> []" "CHR ''/'' \<notin> set name" "CHR ''?'' \<notin> set name"
    and "CHR ''?'' \<notin> set rest" "rest = [] \<or> hd rest = CHR ''/''"
    and "Path (URL r) = ''/async-function/'' @ name @ rest"
    and "queued FunctionPrefixTrimming_Transform r = Some q"
  shows "QPath q = rest"
proof -
  have "functionMatcher (''/'' @ ''async-'' @ ''function/'' @ name @ rest @ []) = [''/'' @ ''async-'' @ ''function/'' @ name @ rest, name, rest]"
    using assms by (intro functionMatcher_parts) simp_all
  then have "FunctionPrefixTrimming_Transform r = rest"
    using assms(6) by (simp add: FunctionPrefixTrimming_Transform_def hasPathCount_def pathIndex_def)
  with assms(7) show ?thesis
    by (auto simp: queued_def queue_request_def split: option.splits prod.splits sum.splits)
qed

text \<open>
  \<open>getNameParts\<close> agrees with \<open>GetNamespace\<close> for an empty default namespace on every name but
  those whose only dot is their first byte.
\<close>

theorem getNameParts_GetNamespace:
  "getNameParts name = GetNamespace [] name \<longleftrightarrow> \<not> (\<exists>ns. name = CHR ''.'' # ns \<and> CHR ''.'' \<notin> set ns)"
proof -
  have "LastIndexByte name CHR ''.'' = 0 \<longleftrightarrow> (\<exists>ns. name = CHR ''.'' # ns \<and> CHR ''.'' \<notin> set ns)"
  proof
    assume z: "LastIndexByte name CHR ''.'' = 0"
    then have "CHR ''.'' \<in> set name" using LastIndexByte_present [of name "CHR ''.''"] by simp
    then obtain a b where "name = a @ CHR ''.'' # b" "CHR ''.'' \<notin> set b" by (metis split_list_last)
    with z LastIndexByte_split [of "CHR ''.''" b a] show "\<exists>ns. name = CHR ''.'' # ns \<and> CHR ''.'' \<notin> set ns" by simp
  next
    assume "\<exists>ns. name = CHR ''.'' # ns \<and> CHR ''.'' \<notin> set ns"
    then show "LastIndexByte name CHR ''.'' = 0" using LastIndexByte_split [of "CHR ''.''" _ "[]"] by auto
  qed
  moreover have "-1 \<le> LastIndexByte name CHR ''.''" by (induction name) (auto simp: Let_def)
  moreover have "getNameParts name = GetNamespace [] name \<longleftrightarrow> LastIndexByte name CHR ''.'' \<noteq> 0"
  proof (cases "LastIndexByte name CHR ''.'' = 0")
    case True
    then have "name \<noteq> []" by auto
    with True show ?thesis by (simp add: getNameParts_def GetNamespace_def)
  next
    case False
    then show ?thesis using \<open>-1 \<le> LastIndexByte name CHR ''.''\<close> by (auto simp: getNameParts_def GetNamespace_def Let_def)
  qed
  ultimately show ?thesis by simp
qed

text \<open>
  the call id. The next handler sees the id of the client where it sent one, otherwise a new
  one that the response carries too; every call gets a start time and the response names the
  gateway. The rest of the request is unchanged.
\<close>

theorem call_id_tags:
  assumes "Now env (hworld s) = (start, w)" "generate w = (Val callID, w')"
    and "Header r ''X-Start-Time'' = None" "rw_header (rw s) = (\<lambda>_. None)"
  shows "\<exists>r' s'. MakeCallIDMiddleware version env generate nxt r s = nxt r' s' \<and> r'\<lparr>Header := Header r\<rparr> = r
    \<and> header_Get (Header r') ''X-Start-Time'' = Itoa start
    \<and> (if header_Get (Header r) ''X-Call-Id'' \<noteq> [] then
         header_Get (Header r') ''X-Call-Id'' = header_Get (Header r) ''X-Call-Id''
         \<and> rw_header (rw s') ''X-Call-Id'' = None \<and> hworld s' = w
       else Header r ''X-Call-Id'' = None \<longrightarrow> header_Get (Header r') ''X-Call-Id'' = callID
         \<and> rw_header (rw s') ''X-Call-Id'' = Some [callID] \<and> hworld s' = w')
    \<and> rw_header (rw s') ''X-Start-Time'' = Some [Itoa start] \<and> rw_header (rw s') ''X-Served-By'' = Some [''openfaas-ce/'' @ version]"
proof (cases "header_Get (Header r) ''X-Call-Id'' = []")
  case True
  let ?r = "r\<lparr>Header := header_Add ''X-Start-Time'' (Itoa start) (header_Add ''X-Call-Id'' callID (Header r))\<rparr>"
  let ?s = "s\<lparr>hworld := w', rw := (rw s)\<lparr>rw_header := header_Add ''X-Served-By'' (''openfaas-ce/'' @ version)
        (header_Add ''X-Start-Time'' (Itoa start) (header_Add ''X-Call-Id'' callID (rw_header (rw s))))\<rparr>\<rparr>"
  have "MakeCallIDMiddleware version env generate nxt r s = nxt ?r ?s"
    using True assms(1,2) by (simp add: MakeCallIDMiddleware_def go_simps)
  with True show ?thesis
    using assms(3,4) by (intro exI [of _ ?r] exI [of _ ?s]) (auto simp: header_Get_def header_Add_def)
next
  case False
  let ?r = "r\<lparr>Header := header_Add ''X-Start-Time'' (Itoa start) (Header r)\<rparr>"
  let ?s = "s\<lparr>hworld := w, rw := (rw s)\<lparr>rw_header := header_Add ''X-Served-By'' (''openfaas-ce/'' @ version)
        (header_Add ''X-Start-Time'' (Itoa start) (rw_header (rw s)))\<rparr>\<rparr>"
  have "MakeCallIDMiddleware version env generate nxt r s = nxt ?r ?s"
    using False assms(1) by (simp add: MakeCallIDMiddleware_def go_simps)
  with False show ?thesis
    using assms(3,4) by (intro exI [of _ ?r] exI [of _ ?s]) (auto simp: header_Get_def header_Add_def)
qed

section \<open>Witnesses\<close>

definition demo_async :: request where
  "demo_async = \<lparr>Method = ''POST'', URL = \<lparr>Scheme = [], UHost = [], Path = ''/async-function/f.fn/a'', RawPath = [], RawQuery = ''q=1''\<rparr>,
     Header = [''X-Callback-Url'' \<mapsto> [''http://cb/done'']], RHost = ''gw'', RemoteAddr = ''1.2.3.4:5'', Body = Some (''data'', None),
     RVars = [''name'' \<mapsto> ''f.fn'']\<rparr>"

definition demo_queue :: "QueueRequest list queuer" where
  "demo_queue q = (\<lambda>qs. if length qs < 2 then (Val None, qs @ [q]) else (Val (Some ''full''), qs))"

lemma demo_callback: "getCallbackURLHeader [''X-Callback-Url'' \<mapsto> [''http://cb/done'']] =
    Inr (Some \<lparr>Scheme = ''http'', UHost = ''cb'', Path = ''/done'', RawPath = [], RawQuery = []\<rparr>)"
  by code_simp

lemma demo_queued: "\<exists>q. queued FunctionPrefixTrimming_Transform demo_async = Some q"
  by (simp add: queued_def demo_async_def demo_callback)

lemma MakeQueuedProxy_answers_witness:
  "\<exists>t. MakeQueuedProxy demo_queue FunctionPrefixTrimming_Transform demo_async \<lparr>rw = new_writer, hworld = []\<rparr> = (Val (), t)
    \<and> final_status (rw t) = 202 \<and> map QueryString (hworld t) = [''q=1''] \<and> map QHost (hworld t) = [''gw'']
    \<and> map (\<lambda>q. map_option UHost (CallbackURL q)) (hworld t) = [Some ''cb'']"
proof -
  have total: "total (demo_queue q)" for q by (simp add: total_returns demo_queue_def)
  have cb: "url_Parse ''http://cb/done'' = Some \<lparr>Scheme = ''http'', UHost = ''cb'', Path = ''/done'', RawPath = [], RawQuery = []\<rparr>"
    by code_simp
  show ?thesis
    using MakeQueuedProxy_answers [where s = "\<lparr>rw = new_writer, hworld = []\<rparr>" and queue = demo_queue and name = "''f.fn''"
        and body = "''data''" and readerr = None and callback = "''http://cb/done''"
        and transform = FunctionPrefixTrimming_Transform and r = demo_async, OF _ total]
    by (auto simp: demo_async_def demo_queue_def new_writer_def cb)
qed

lemma async_path_witness: "\<exists>q. queued FunctionPrefixTrimming_Transform demo_async = Some q \<and> QPath q = ''/a''"
proof -
  obtain q where q: "queued FunctionPrefixTrimming_Transform demo_async = Some q" using demo_queued by blast
  from async_path [where name = "''f.fn''" and rest = "''/a''" and r = demo_async, OF _ _ _ _ _ _ q] q show ?thesis
    by (simp add: demo_async_def)
qed

lemma call_id_tags_witness:
  "\<exists>s'. MakeCallIDMiddleware ''1.0'' \<lparr>Now = (\<lambda>w. (7, w)), Sleep = (\<lambda>d w. w)\<rparr> (retp ''id-1'') (\<lambda>r. retp ()) demo_async
      \<lparr>rw = new_writer, hworld = (0 :: nat)\<rparr> = retp () s'
    \<and> rw_header (rw s') ''X-Call-Id'' = Some [''id-1'']"
proof -
  have h: "header_Get (Header demo_async) ''X-Call-Id'' = []" "Header demo_async ''X-Call-Id'' = None"
    "Header demo_async ''X-Start-Time'' = None"
    by (simp_all add: demo_async_def header_Get_def)
  from call_id_tags [where env = "\<lparr>Now = (\<lambda>w. (7, w)), Sleep = (\<lambda>d w. w)\<rparr>" and s = "\<lparr>rw = new_writer, hworld = (0 :: nat)\<rparr>"
      and start = 7 and w = 0 and generate = "retp ''id-1''" and callID = "''id-1''" and w' = 0 and r = demo_async and nxt = "\<lambda>r. retp ()"
      and version = "''1.0''", OF _ _ h(3)]
  show ?thesis by (auto simp: h retp_run new_writer_def)
qed

end
