(* ===== verification/Exporter.thy ===== *)
theory Exporter
  imports AddMetrics Notifiers
begin

text \<open>
  Package \<open>metrics\<close>, file \<open>exporter.go\<close>: the exporter Prometheus scrapes, with the watcher that
  asks the provider for the replica counts. The metrics are the store of theory Notifiers, which the
  exporter shares with the notifiers; the HTTP client, the base64 text of the credentials and JSON
  are parameters.
\<close>

section \<open>State\<close>

record 'x Exporter =
  services :: "'x listed list"
  credentials :: "BasicAuthCredentials option"
  ExporterNamespace :: string

definition NewExporter :: "BasicAuthCredentials option \<Rightarrow> string \<Rightarrow> 'x Exporter" where
  "NewExporter creds namespace = \<lparr>services = [], credentials = creds, ExporterNamespace = namespace\<rparr>"

section \<open>Collecting\<close>

text \<open>What goes out on the channel: the vectors, as they are when they are collected.\<close>

datatype sample_set =
    InvocationSamples "string \<times> string \<Rightarrow> nat"
  | DurationSamples "string \<times> string \<Rightarrow> duration list"
  | StartedSamples "string \<Rightarrow> nat"
  | ReplicaSamples "string \<Rightarrow> rat option"

definition service_label :: "'x listed \<Rightarrow> string" where
  "service_label service =
     (if length (LNamespace service) > 0 then LName service @ ''.'' @ LNamespace service else LName service)"

fun set_gauges :: "'x listed list \<Rightarrow> (string \<Rightarrow> rat option) \<Rightarrow> (string \<Rightarrow> rat option)" where
  "set_gauges [] gauge = gauge"
| "set_gauges (service # ss) gauge =
     set_gauges ss (gauge(service_label service \<mapsto> float64 (of_nat (unat (LReplicas service)))))"

definition Collect :: "'x Exporter \<Rightarrow> (MetricOptions, sample_set list) prog" where
  "Collect e =
     bindp (getp (\<lambda>m. [InvocationSamples (GatewayFunctionInvocation m), DurationSamples (GatewayFunctionsHistogram m),
       StartedSamples (GatewayFunctionInvocationStarted m)])) (\<lambda>sent.
     bindp (modifyp (\<lambda>m. m\<lparr>ServiceReplicasGauge := (\<lambda>_. None)\<rparr>)) (\<lambda>_.
     bindp (modifyp (\<lambda>m. m\<lparr>ServiceReplicasGauge := set_gauges (services e) (ServiceReplicasGauge m)\<rparr>)) (\<lambda>_.
     getp (\<lambda>m. sent @ [ReplicaSamples (ServiceReplicasGauge m)]))))"

section \<open>Asking the provider\<close>

text \<open>
  \<open>Unmarshal\<close> into a slice of strings leaves what it decoded before an error, which the watcher uses.
\<close>

record 'x watch_codec =
  functions_codec :: "'x list_codec"
  unmarshal_strings :: "string \<Rightarrow> string list \<times> goerror"
  basic_text :: "string \<Rightarrow> string \<Rightarrow> string"

definition functions_url :: "url \<Rightarrow> string \<Rightarrow> url" where
  "functions_url endpointURL namespace =
     (let u = endpointURL\<lparr>Path := path_Join [Path endpointURL, ''/system/functions'']\<rparr>
      in if length namespace > 0
         then u\<lparr>RawQuery := values_Encode (values_Set ''namespace'' namespace (url_Query (RawQuery u)))\<rparr> else u)"

definition namespaces_url :: "url \<Rightarrow> url" where
  "namespaces_url endpointURL = endpointURL\<lparr>Path := path_Join [Path endpointURL, ''system/namespaces'']\<rparr>"

text \<open>A GET request with the credentials; a nil request, of a URL that does not parse again, panics.\<close>

definition authorized_get :: "'x watch_codec \<Rightarrow> 'x Exporter \<Rightarrow> url \<Rightarrow> request go" where
  "authorized_get cd e u =
     (case http_NewRequest ''GET'' (url_String u) None of
        None \<Rightarrow> Panic ''nil pointer dereference''
      | Some get \<Rightarrow> Val (case credentials e of None \<Rightarrow> get
          | Some c \<Rightarrow> SetBasicAuth (basic_text cd) (User c) (Password c) get))"

definition sent_to :: "'w client \<Rightarrow> request go \<Rightarrow> ('w, response option \<times> goerror) prog" where
  "sent_to proxyClient get = (case get of Panic e \<Rightarrow> panicp e | Val req \<Rightarrow> proxyClient req)"

definition getFunctions :: "'x watch_codec \<Rightarrow> 'w client \<Rightarrow> 'x Exporter \<Rightarrow> url \<Rightarrow> string
    \<Rightarrow> ('w, string + 'x listed list) prog" where
  "getFunctions cd proxyClient e endpointURL namespace =
     bindp (sent_to proxyClient (authorized_get cd e (functions_url endpointURL namespace))) (\<lambda>(res, err).
       case (err, res) of
         (Some m, _) \<Rightarrow> retp (Inl m)
       | (None, None) \<Rightarrow> panicp ''nil pointer dereference''
       | (None, Some resp) \<Rightarrow>
           (case RespBody resp of
              Some (_, Some m) \<Rightarrow> retp (Inl m)
            | other \<Rightarrow>
                (let body = (case other of Some (b, _) \<Rightarrow> b | None \<Rightarrow> [])
                 in if length body = 0 then retp (Inl ''no response body from /system/functions'')
                    else (case unmarshal_functions (functions_codec cd) body of
                        Inl m \<Rightarrow> retp (Inl (''error unmarshalling response: '' @ body @ '', error: '' @ m))
                      | Inr decoded \<Rightarrow> retp (Inr (case decoded of None \<Rightarrow> [] | Some fs \<Rightarrow> fs))))))"

definition getNamespaces :: "'x watch_codec \<Rightarrow> 'w client \<Rightarrow> 'x Exporter \<Rightarrow> url
    \<Rightarrow> ('w, string list \<times> goerror) prog" where
  "getNamespaces cd proxyClient e endpointURL =
     bindp (sent_to proxyClient (authorized_get cd e (namespaces_url endpointURL))) (\<lambda>(res, err).
       case (err, res) of
         (Some m, _) \<Rightarrow> retp ([], Some m)
       | (None, None) \<Rightarrow> panicp ''nil pointer dereference''
       | (None, Some resp) \<Rightarrow>
           if StatusCode resp = StatusNotFound then retp ([], None)
           else (case RespBody resp of
              Some (_, Some m) \<Rightarrow> retp ([], Some m)
            | other \<Rightarrow>
                (let body = (case other of Some (b, _) \<Rightarrow> b | None \<Rightarrow> [])
                 in if length body = 0 then retp ([], Some ''no response body from /system/namespaces'')
                    else (case unmarshal_strings cd body of
                        (ns, Some m) \<Rightarrow> retp (ns, Some (''error unmarshalling response: '' @ body @ '', error: '' @ m))
                      | (ns, None) \<Rightarrow> retp (ns, None)))))"

section \<open>The watcher\<close>

fun all_functions :: "'x watch_codec \<Rightarrow> 'w client \<Rightarrow> 'x Exporter \<Rightarrow> url \<Rightarrow> string list \<Rightarrow> 'x listed list
    \<Rightarrow> ('w, 'x listed list) prog" where
  "all_functions cd proxyClient e endpointURL [] fs = retp fs"
| "all_functions cd proxyClient e endpointURL (namespace # ns) fs =
     bindp (getFunctions cd proxyClient e endpointURL namespace) (\<lambda>nsServices.
       case nsServices of
         Inl _ \<Rightarrow> all_functions cd proxyClient e endpointURL ns fs
       | Inr gs \<Rightarrow> all_functions cd proxyClient e endpointURL ns (fs @ gs))"

text \<open>One tick of \<open>StartServiceWatcher\<close>: the exporter after it. Errors are only logged.\<close>

definition watcher_tick :: "'x watch_codec \<Rightarrow> 'w client \<Rightarrow> url \<Rightarrow> 'x Exporter \<Rightarrow> ('w, 'x Exporter) prog" where
  "watcher_tick cd proxyClient endpointURL e =
     bindp (getNamespaces cd proxyClient e endpointURL) (\<lambda>(namespaces, err).
       if length namespaces = 0 then
         bindp (getFunctions cd proxyClient e endpointURL (ExporterNamespace e)) (\<lambda>res.
           case res of Inl _ \<Rightarrow> retp e | Inr fs \<Rightarrow> retp (e\<lparr>services := fs\<rparr>))
       else bindp (all_functions cd proxyClient e endpointURL namespaces []) (\<lambda>fs.
           retp (e\<lparr>services := fs\<rparr>)))"

section \<open>Properties\<close>

lemma set_gauges_map: "set_gauges ss g = g ++ map_of (rev (map (\<lambda>f. (service_label f, float64 (of_nat (unat (LReplicas f))))) ss))"
proof (induction ss arbitrary: g)
  case (Cons f ss)
  then show ?case by (simp add: map_add_def fun_eq_iff split: option.split)
qed simp

text \<open>
  what a scrape shows of the replicas. The gauge holds exactly the functions of the last tick, each
  with its count, and nothing of functions that have gone; the invocation metrics are sent as they
  are and stay as they are.
\<close>

theorem Collect_shows_services:
  assumes "Collect e m = (v, m')" "distinct (map service_label (services e))"
  shows "dom (ServiceReplicasGauge m') = set (map service_label (services e))
    \<and> (\<forall>f \<in> set (services e). ServiceReplicasGauge m' (service_label f) = Some (float64 (of_nat (unat (LReplicas f)))))
    \<and> v = Val [InvocationSamples (GatewayFunctionInvocation m), DurationSamples (GatewayFunctionsHistogram m),
        StartedSamples (GatewayFunctionInvocationStarted m), ReplicaSamples (ServiceReplicasGauge m')]
    \<and> m' = m\<lparr>ServiceReplicasGauge := ServiceReplicasGauge m'\<rparr>"
proof -
  let ?pairs = "map (\<lambda>f. (service_label f, float64 (of_nat (unat (LReplicas f))))) (services e)"
  have g: "ServiceReplicasGauge m' = map_of (rev ?pairs)"
    and m': "m' = m\<lparr>ServiceReplicasGauge := map_of (rev ?pairs)\<rparr>"
    using assms(1) by (auto simp: Collect_def go_simps set_gauges_map)
  have d: "distinct (map fst (rev ?pairs))" using assms(2) by (simp add: comp_def rev_map [symmetric])
  have "map_of (rev ?pairs) (service_label f) = Some (float64 (of_nat (unat (LReplicas f))))"
    if "f \<in> set (services e)" for f
    using that by (intro map_of_is_SomeI [OF d]) auto
  moreover have "dom (map_of (rev ?pairs)) = set (map service_label (services e))"
    by (simp add: dom_map_of_conv_image_fst image_image)
  ultimately show ?thesis using assms(1) g m' by (auto simp: Collect_def go_simps set_gauges_map)
qed

lemma all_functions_result:
  assumes "\<And>n. getFunctions cd client e u n w = (Val (R n), w)"
  shows "all_functions cd client e u ns fs w = (Val (fs @ concat (map (\<lambda>n. case R n of Inl _ \<Rightarrow> [] | Inr gs \<Rightarrow> gs) ns)), w)"
  by (induction ns arbitrary: fs) (simp_all add: retp_run bindp_run assms split: sum.split)

lemma watcher_tick_lists:
  assumes "getNamespaces cd client e u w = (Val (ns, err), w)"
    and "\<And>n. getFunctions cd client e u n w = (Val (R n), w)"
  shows "watcher_tick cd client u e w = (Val (e\<lparr>services :=
      if ns = [] then (case R (ExporterNamespace e) of Inl _ \<Rightarrow> services e | Inr fs \<Rightarrow> fs)
      else concat (map (\<lambda>n. case R n of Inl _ \<Rightarrow> [] | Inr fs \<Rightarrow> fs) ns)\<rparr>), w)"
  using assms all_functions_result [of cd client e u w R, OF assms(2), of ns "[]"]
  by (simp add: watcher_tick_def bindp_run retp_run split: sum.split)

text \<open>
  one tick of the watcher. Without namespaces the functions of the exporter's own namespace are
  taken, and an error keeps the last list. With namespaces the list is that of all namespaces that
  answered, in order: the functions of a namespace that failed are dropped until the next tick.
\<close>

theorem watcher_tick_result:
  assumes "getNamespaces cd client e u w = (Val (ns, err), w)"
    and "\<And>n. getFunctions cd client e u n w = (Val (R n), w)"
  shows "watcher_tick cd client u e w = (Val (e\<lparr>services :=
      if ns = [] then (case R (ExporterNamespace e) of Inl _ \<Rightarrow> services e | Inr fs \<Rightarrow> fs)
      else concat (map (\<lambda>n. case R n of Inl _ \<Rightarrow> [] | Inr fs \<Rightarrow> fs) ns)\<rparr>), w)"
  using assms by (rule watcher_tick_lists)

lemma QueryEscape_no_ctl: "x \<in> set (QueryEscape s) \<Longrightarrow> \<not> is_ctl x \<and> x \<noteq> CHR ''#''"
  using QueryEscape_chars [of x s] by (auto simp: query_plain_def is_alnum_def is_ctl_def Let_def)

lemma join_with_set: "set (join_with sep ws) \<subseteq> set sep \<union> \<Union> (set (map set ws))"
  by (induction sep ws rule: join_with.induct) auto

lemma values_Encode_plain: "x \<in> set (values_Encode vs) \<Longrightarrow> \<not> is_ctl x \<and> x \<noteq> CHR ''#''"
proof -
  assume "x \<in> set (values_Encode vs)"
  then have "x = CHR ''&'' \<or> (\<exists>p. x \<in> set (encode_pair p))"
    using join_with_set [of "''&''" "map encode_pair (sort_key fst vs)"] by (auto simp: values_Encode_def)
  then show ?thesis using QueryEscape_no_ctl by (auto simp: encode_pair_def is_ctl_def)
qed

lemma functions_get:
  assumes "Scheme u = ''http''" "RawPath u = []" "UHost u \<noteq> []" "plain_target (UHost u) [] (RawQuery u)"
    and "plain_path (path_Join [Path u, ''/system/functions''])"
  shows "http_NewRequest ''GET'' (url_String (functions_url u namespace)) None
    = Some \<lparr>Method = ''GET'', URL = (functions_url u namespace)\<lparr>UHost := remove_empty_port (UHost u)\<rparr>, Header = (\<lambda>_. None),
        RHost = remove_empty_port (UHost u), RemoteAddr = [], Body = None, RVars = (\<lambda>_. None)\<rparr>"
proof -
  let ?q = "RawQuery (functions_url u namespace)"
  have v: "functions_url u namespace = \<lparr>Scheme = ''http'', UHost = UHost u,
      Path = path_Join [Path u, ''/system/functions''], RawPath = [], RawQuery = ?q\<rparr>"
    using assms(1,2) by (auto intro!: url.equality simp: functions_url_def Let_def)
  have "plain_target (UHost u) [] ?q"
    using assms(4) values_Encode_plain by (auto simp: plain_target_def functions_url_def Let_def split: if_splits)
  from url_reparse [OF assms(5) this assms(3)]
  have "url_Parse (url_String (functions_url u namespace)) = Some (functions_url u namespace)"
    unfolding v [symmetric] .
  moreover have "UHost (functions_url u namespace) = UHost u" by (simp add: functions_url_def Let_def)
  ultimately show ?thesis by (simp add: http_NewRequest_def is_token_char_def is_alnum_def)
qed

text \<open>
  C29: the request for the functions of a namespace. It reaches the provider as it was built: with the
  path below the base path, the credentials, and a query in which \<open>namespace\<close> is exactly the
  namespace, whatever bytes it has, and every other parameter of the base URL is kept.
\<close>

theorem functions_request_reads_back:
  assumes "Scheme u = ''http''" "RawPath u = []" "UHost u \<noteq> []" "plain_target (UHost u) [] (RawQuery u)"
    and "plain_path (path_Join [Path u, ''/system/functions''])" "namespace \<noteq> []"
  shows "\<exists>req. authorized_get cd e (functions_url u namespace) = Val req
    \<and> Method req = ''GET'' \<and> Path (URL req) = path_Join [Path u, ''/system/functions'']
    \<and> (\<forall>k. values_Get (url_Query (RawQuery (URL req))) k =
         (if k = ''namespace'' then Some namespace else values_Get (url_Query (RawQuery u)) k))
    \<and> (\<forall>c. credentials e = Some c \<longrightarrow> header_Get (Header req) ''Authorization'' = basic_text cd (User c) (Password c))"
  using functions_get [OF assms(1-5), of namespace] assms(6)
  by (auto simp: authorized_get_def SetBasicAuth_def functions_url_def Let_def read_back_Set split: option.split)

section \<open>Witnesses\<close>

text \<open>A provider with the namespaces \<open>a\<close> and \<open>b\<close>, of which \<open>b\<close> fails.\<close>

definition demo_service :: "string \<Rightarrow> string \<Rightarrow> unit listed" where
  "demo_service name ns = \<lparr>LName = name, LNamespace = ns, LInvocationCount = Finite 0, LReplicas = 2, LRest = ()\<rparr>"

definition demo_watch_codec :: "unit watch_codec" where
  "demo_watch_codec = \<lparr>functions_codec = \<lparr>unmarshal_functions = (\<lambda>b. if b = ''in a'' then Inr (Some [demo_service ''f'' ''a'']) else Inl ''bad''),
     marshal_functions = (\<lambda>_. Inr []), unmarshal_vector = (\<lambda>_. Inl []), ParseFloat = (\<lambda>_. None)\<rparr>,
     unmarshal_strings = (\<lambda>b. ([''a'', ''b''], None)), basic_text = (\<lambda>u p. u @ '':'' @ p)\<rparr>"

definition demo_exporter :: "unit Exporter" where
  "demo_exporter = (NewExporter (Some \<lparr>User = ''admin'', Password = ''pw''\<rparr>) ''openfaas-fn'')\<lparr>services := [demo_service ''old'' ''b'']\<rparr>"

definition demo_endpoint :: url where
  "demo_endpoint = \<lparr>Scheme = ''http'', UHost = ''p:8080'', Path = ''/'', RawPath = [], RawQuery = ''verbose=1''\<rparr>"

definition demo_watch_client :: "nat client" where
  "demo_watch_client req n = (Val (Some \<lparr>StatusCode = 200, RespHeader = (\<lambda>_. None),
     RespBody = Some (case values_Get (url_Query (RawQuery (URL req))) ''namespace'' of None \<Rightarrow> ''all'' | Some ns \<Rightarrow> ''in '' @ ns, None)\<rparr>, None), n)"

lemma Collect_shows_services_witness:
  "ServiceReplicasGauge (snd (Collect demo_exporter BuildMetricsOptions)) ''old.b'' = Some (float64 2)"
proof -
  have "distinct (map service_label (services demo_exporter))" by (simp add: demo_exporter_def)
  from Collect_shows_services [OF _ this, of BuildMetricsOptions "fst (Collect demo_exporter BuildMetricsOptions)"
      "snd (Collect demo_exporter BuildMetricsOptions)"]
  show ?thesis by (auto simp: demo_exporter_def demo_service_def service_label_def)
qed

lemma demo_plain: "plain_target ''p:8080'' [] ''verbose=1''" "plain_path (path_Join [''/'', ''/system/functions''])"
  by code_simp+

lemma functions_request_reads_back_witness:
  "\<exists>req. authorized_get demo_watch_codec demo_exporter (functions_url demo_endpoint ''a&b'') = Val req
    \<and> values_Get (url_Query (RawQuery (URL req))) ''namespace'' = Some ''a&b''"
  using functions_request_reads_back [of demo_endpoint "''a&b''" demo_watch_codec demo_exporter] demo_plain
  by (auto simp: demo_endpoint_def)

lemma demo_namespaces: "http_NewRequest ''GET'' (url_String (namespaces_url demo_endpoint)) None \<noteq> None"
  by code_simp

lemma demo_getNamespaces:
  "getNamespaces demo_watch_codec demo_watch_client demo_exporter demo_endpoint n = (Val ([''a'', ''b''], None), n)"
proof -
  obtain req where "authorized_get demo_watch_codec demo_exporter (namespaces_url demo_endpoint) = Val req"
    using demo_namespaces by (auto simp: authorized_get_def)
  then show ?thesis
    by (simp add: getNamespaces_def sent_to_def demo_watch_client_def bindp_run demo_watch_codec_def retp_run split: option.split)
qed

lemma demo_query: "values_Get (url_Query ''verbose=1'') ''namespace'' = None"
  by code_simp

lemma demo_getFunctions:
  "getFunctions demo_watch_codec demo_watch_client demo_exporter demo_endpoint ns n =
    (Val (if ns = ''a'' then Inr [demo_service ''f'' ''a'']
      else Inl (''error unmarshalling response: '' @ (if ns = [] then ''all'' else ''in '' @ ns) @ '', error: bad'')), n)"
proof -
  obtain req where g: "authorized_get demo_watch_codec demo_exporter (functions_url demo_endpoint ns) = Val req"
    and q: "values_Get (url_Query (RawQuery (URL req))) ''namespace'' = (if ns = [] then None else Some ns)"
    using functions_get [of demo_endpoint ns] demo_plain demo_query
    by (auto simp: demo_endpoint_def authorized_get_def SetBasicAuth_def functions_url_def Let_def read_back_Set demo_exporter_def NewExporter_def)
  have c: "functions_codec demo_watch_codec = \<lparr>unmarshal_functions = (\<lambda>b. if b = ''in a'' then Inr (Some [demo_service ''f'' ''a'']) else Inl ''bad''),
     marshal_functions = (\<lambda>_. Inr []), unmarshal_vector = (\<lambda>_. Inl []), ParseFloat = (\<lambda>_. None)\<rparr>" by (simp add: demo_watch_codec_def)
  show ?thesis
    using g q by (simp add: getFunctions_def sent_to_def demo_watch_client_def bindp_run c retp_run)
qed

lemma watcher_tick_result_witness:
  "watcher_tick demo_watch_codec demo_watch_client demo_endpoint demo_exporter 0
    = (Val (demo_exporter\<lparr>services := [demo_service ''f'' ''a'']\<rparr>), 0)"
  using watcher_tick_result [OF demo_getNamespaces demo_getFunctions, of 0] by simp

end
