(* ===== verification/GoTime.thy ===== *)
theory GoTime
  imports GoStrings Float64
begin

text \<open>
  \<open>time.ParseDuration\<close>. Numbers are at most 2 to the 63 all along, so natural numbers stand for
  the \<open>uint64\<close> values; the fraction of a value is computed in \<open>float64\<close>, as the library does.
\<close>

definition unitMap :: "(string \<times> nat) list" where
  "unitMap = [(''ns'', 1), (''us'', 1000), ([char_of (194 :: nat), char_of (181 :: nat), CHR ''s''], 1000),
     ([char_of (206 :: nat), char_of (188 :: nat), CHR ''s''], 1000), (''ms'', 1000000), (''s'', 1000000000),
     (''m'', 60000000000), (''h'', 3600000000000)]"

text \<open>\<open>leadingInt\<close>: the leading digits and the rest; \<open>None\<close> is an overflow.\<close>

fun leadingInt :: "nat \<Rightarrow> string \<Rightarrow> (nat \<times> string) option" where
  "leadingInt x [] = Some (x, [])"
| "leadingInt x (c # cs) =
     (case digit_val c of
        None \<Rightarrow> Some (x, c # cs)
      | Some d \<Rightarrow> if x > 2 ^ 63 div 10 \<or> 10 * x + d > 2 ^ 63 then None else leadingInt (10 * x + d) cs)"

text \<open>\<open>leadingFraction\<close>: digits that would overflow are passed over.\<close>

fun leadingFraction :: "bool \<Rightarrow> nat \<Rightarrow> nat \<Rightarrow> string \<Rightarrow> nat \<times> nat \<times> string" where
  "leadingFraction overflow x scale [] = (x, scale, [])"
| "leadingFraction overflow x scale (c # cs) =
     (case digit_val c of
        None \<Rightarrow> (x, scale, c # cs)
      | Some d \<Rightarrow>
          if overflow \<or> x > (2 ^ 63 - 1) div 10 \<or> 10 * x + d > 2 ^ 63 then leadingFraction True x scale cs
          else leadingFraction False (10 * x + d) (10 * scale) cs)"

definition fraction_part :: "nat \<Rightarrow> nat \<Rightarrow> nat \<Rightarrow> nat" where
  "fraction_part f unit scale =
     nat \<lfloor>float64 (float64 (of_nat f) * float64 (of_nat unit / of_nat scale))\<rfloor>"

definition unit_char :: "char \<Rightarrow> bool" where
  "unit_char c \<longleftrightarrow> c \<noteq> CHR ''.'' \<and> digit_val c = None"

text \<open>One number with its unit: what it is worth, and the rest.\<close>

definition duration_item :: "string \<Rightarrow> (nat \<times> string) option" where
  "duration_item s =
     (case leadingInt 0 s of None \<Rightarrow> None
      | Some (v, s1) \<Rightarrow>
          (let pre = (length s1 \<noteq> length s);
               dot = (s1 \<noteq> [] \<and> hd s1 = CHR ''.'');
               (f, scale, s2) = (if dot then leadingFraction False 0 1 (tl s1) else (0, 1, s1));
               post = (dot \<and> length s2 \<noteq> length (tl s1));
               u = takeWhile unit_char s2
           in if \<not> pre \<and> \<not> post \<or> u = [] then None
              else (case map_of unitMap u of None \<Rightarrow> None
                | Some unit \<Rightarrow>
                    if v > 2 ^ 63 div unit then None
                    else (let w = v * unit + (if f > 0 then fraction_part f unit scale else 0)
                      in if w > 2 ^ 63 then None else Some (w, dropWhile unit_char s2)))))"

lemma leadingInt_length: "leadingInt x s = Some (v, t) \<Longrightarrow> length t \<le> length s"
  by (induction x s rule: leadingInt.induct) (auto split: option.splits if_splits)

lemma leadingFraction_length: "leadingFraction ov x sc s = (f, k, t) \<Longrightarrow> length t \<le> length s"
  by (induction ov x sc s rule: leadingFraction.induct) (force split: option.splits if_splits)+

lemma duration_itemE:
  assumes "duration_item s = Some (w, t)"
  obtains v s1 f k s2 where "leadingInt 0 s = Some (v, s1)"
    "(if s1 \<noteq> [] \<and> hd s1 = CHR ''.'' then leadingFraction False 0 1 (tl s1) else (0, 1, s1)) = (f, k, s2)"
    "takeWhile unit_char s2 \<noteq> []" "t = dropWhile unit_char s2"
proof -
  obtain v s1 where i: "leadingInt 0 s = Some (v, s1)" using assms by (auto simp: duration_item_def split: option.splits)
  obtain f k s2 where f: "(if s1 \<noteq> [] \<and> hd s1 = CHR ''.'' then leadingFraction False 0 1 (tl s1) else (0, 1, s1)) = (f, k, s2)"
    by (metis prod_cases3)
  from assms have "takeWhile unit_char s2 \<noteq> [] \<and> t = dropWhile unit_char s2"
    unfolding duration_item_def i option.case prod.case Let_def f by (simp split: option.splits if_splits)
  with that i f show thesis by blast
qed

lemma duration_item_length: "duration_item s = Some (w, t) \<Longrightarrow> length t < length s"
proof -
  assume "duration_item s = Some (w, t)"
  then obtain v s1 f k s2 where i: "leadingInt 0 s = Some (v, s1)"
    and f: "(if s1 \<noteq> [] \<and> hd s1 = CHR ''.'' then leadingFraction False 0 1 (tl s1) else (0, 1, s1)) = (f, k, s2)"
    and t: "takeWhile unit_char s2 \<noteq> []" "t = dropWhile unit_char s2"
    by (rule duration_itemE)
  have "length s2 \<le> length s1"
    using f leadingFraction_length [of False 0 1 "tl s1" f k s2] by (cases s1) (auto split: if_splits)
  moreover have "length t < length s2"
    unfolding t(2) using t(1) by (metis length_dropWhile_le order_le_less length_0_conv takeWhile_dropWhile_id
        length_append add_cancel_left_left)
  ultimately show ?thesis using leadingInt_length [OF i] by simp
qed

function duration_sum :: "nat \<Rightarrow> string \<Rightarrow> nat option" where
  "duration_sum d s =
     (if s = [] then Some d
      else if \<not> (hd s = CHR ''.'' \<or> digit_val (hd s) \<noteq> None) then None
      else (case duration_item s of
          None \<Rightarrow> None
        | Some (w, t) \<Rightarrow> if d + w > 2 ^ 63 then None else duration_sum (d + w) t))"
  by pat_completeness auto
termination
  by (relation "measure (\<lambda>(d, s). length s)") (auto dest: duration_item_length)

declare duration_sum.simps [simp del]

definition ParseDuration :: "string \<Rightarrow> duration option" where
  "ParseDuration s0 =
     (let neg = (s0 \<noteq> [] \<and> hd s0 = CHR ''-'');
          s = (if s0 \<noteq> [] \<and> (hd s0 = CHR ''-'' \<or> hd s0 = CHR ''+'') then tl s0 else s0)
      in if s = ''0'' then Some 0
         else if s = [] then None
         else (case duration_sum 0 s of
             None \<Rightarrow> None
           | Some d \<Rightarrow> if neg then Some (- int d) else if d > 2 ^ 63 - 1 then None else Some (int d)))"

section \<open>Whole numbers with a unit\<close>

lemma parse_digits_ge: "parse_digits x s = Some n \<Longrightarrow> x \<le> n"
  by (induction x s rule: parse_digits.induct) (auto split: option.splits)

lemma leadingInt_digits:
  "parse_digits x ds = Some n \<Longrightarrow> n \<le> 2 ^ 63 \<Longrightarrow> u = [] \<or> digit_val (hd u) = None \<Longrightarrow> leadingInt x (ds @ u) = Some (n, u)"
proof (induction x ds rule: parse_digits.induct)
  case (1 x)
  then show ?case by (cases u) auto
next
  case (2 x c cs)
  then obtain d where d: "digit_val c = Some d" "parse_digits (10 * x + d) cs = Some n" by (auto split: option.splits)
  have "10 * x + d \<le> 2 ^ 63" using parse_digits_ge [OF d(2)] 2(3) by simp
  moreover from this have "x \<le> 2 ^ 63 div 10" by simp
  ultimately show ?case using 2 d by simp
qed

lemma unit_chars [simp]:
  "unit_char CHR ''n''" "unit_char CHR ''u''" "unit_char CHR ''m''" "unit_char CHR ''s''" "unit_char CHR ''h''"
  by code_simp+

lemma char_of_neq: "n mod 256 \<noteq> of_char c \<Longrightarrow> char_of (n :: nat) \<noteq> c"
  by (metis of_char_of)

lemma unit_micro [simp]:
  "unit_char (char_of (194 :: nat))" "unit_char (char_of (181 :: nat))" "unit_char (char_of (206 :: nat))" "unit_char (char_of (188 :: nat))"
  by (simp_all add: unit_char_def digit_val_def char_of_neq)

lemma units_plain:
  assumes "(u, k) \<in> set unitMap"
  shows "u \<noteq> [] \<and> (\<forall>c \<in> set u. unit_char c) \<and> map_of unitMap u = Some k \<and> 0 < k"
proof -
  have "distinct (map fst unitMap)" by (simp add: unitMap_def)
  with assms have "map_of unitMap u = Some k" by simp
  moreover have "u \<noteq> [] \<and> (\<forall>c \<in> set u. unit_char c) \<and> 0 < k"
    using assms unfolding unitMap_def by auto
  ultimately show ?thesis by simp
qed

lemma digits_are_digits: "c \<in> set (nat_digits n) \<Longrightarrow> digit_val c \<noteq> None"
proof (induction n rule: nat_digits.induct)
  case (1 n)
  have "n mod 10 < 10" by simp
  with 1 show ?case by (subst (asm) nat_digits.simps) (auto split: if_splits)
qed

lemma duration_sum_unit:
  assumes "(u, k) \<in> set unitMap" "n * k < 2 ^ 63"
  shows "duration_sum 0 (nat_digits n @ u) = Some (n * k) \<and> nat_digits n @ u \<noteq> ''0''"
proof -
  note u = units_plain [OF assms(1)]
  have "n \<le> n * k" using u by simp
  with assms(2) have n: "n \<le> 2 ^ 63" by linarith
  have h: "digit_val (hd u) = None" "hd u \<noteq> CHR ''.''" using u by (auto simp: unit_char_def)
  have li: "leadingInt 0 (nat_digits n @ u) = Some (n, u)"
    by (rule leadingInt_digits [OF parse_nat_digits n]) (simp add: h)
  have "n \<le> 2 ^ 63 div k" using assms(2) u by (simp add: less_eq_div_iff_mult_less_eq)
  then have item: "duration_item (nat_digits n @ u) = Some (n * k, [])"
    using u h assms(2) by (simp add: duration_item_def li Let_def nat_digits_nonempty takeWhile_eq_all_conv [THEN iffD2] not_less)
  obtain d where d: "d < 10" "hd (nat_digits n) = digit d" using hd_nat_digits by blast
  then have hd: "hd (nat_digits n @ u) = digit d" by (simp add: nat_digits_nonempty)
  then have "duration_sum 0 (nat_digits n @ u) = Some (n * k)"
    using d item assms(2) by (subst duration_sum.simps) (simp add: nat_digits_nonempty duration_sum.simps [of _ "[]"])
  moreover have "nat_digits n @ u \<noteq> ''0''"
  proof
    assume "nat_digits n @ u = ''0''"
    then have "last u = CHR ''0''" using u by (metis last.simps last_appendR)
    moreover have "last u \<in> set u" using u by simp
    moreover have "\<not> unit_char CHR ''0''" by code_simp
    ultimately show False using u by metis
  qed
  ultimately show ?thesis by simp
qed

lemma ParseDuration_unit:
  assumes "(u, k) \<in> set unitMap" "n * k < 2 ^ 63"
  shows "ParseDuration (nat_digits n @ u) = Some (int (n * k))"
    and "ParseDuration (CHR ''-'' # nat_digits n @ u) = Some (- int (n * k))"
proof -
  obtain d where d: "d < 10" "hd (nat_digits n) = digit d" using hd_nat_digits by blast
  then have "hd (nat_digits n @ u) = digit d" by (simp add: nat_digits_nonempty)
  with duration_sum_unit [OF assms] digit_not_sign [OF d(1)] assms(2)
  show "ParseDuration (nat_digits n @ u) = Some (int (n * k))"
    and "ParseDuration (CHR ''-'' # nat_digits n @ u) = Some (- int (n * k))"
    by (simp_all add: ParseDuration_def Let_def nat_digits_nonempty)
qed

lemma Atoi_unit:
  assumes "(u, k) \<in> set unitMap"
  shows "Atoi (nat_digits n @ u) = None" and "Atoi (CHR ''-'' # nat_digits n @ u) = None"
proof -
  note u = units_plain [OF assms]
  then obtain c cs where c: "u = c # cs" "digit_val c = None" by (cases u) (auto simp: unit_char_def)
  obtain d where d: "d < 10" "hd (nat_digits n) = digit d" using hd_nat_digits by blast
  then have "hd (nat_digits n @ u) = digit d" by (simp add: nat_digits_nonempty)
  with digit_not_sign [OF d(1)] c show "Atoi (nat_digits n @ u) = None" and "Atoi (CHR ''-'' # nat_digits n @ u) = None"
    by (simp_all add: Atoi_def Let_def nat_digits_nonempty parse_digits_append parse_nat_digits)
qed

end
