(* ===== verification/Config.thy ===== *)
theory Config
  imports GoTime GoUrl
begin

text \<open>
  Package \<open>types\<close>, file \<open>readconfig.go\<close>: the configuration of the gateway, read from environment
  variables, and package \<open>version\<close>. The environment is a function; an unset variable is empty.
\<close>

section \<open>Values\<close>

definition parseBoolValue :: "string \<Rightarrow> bool" where
  "parseBoolValue val = (val = ''true'')"

text \<open>\<open>time.Duration(n) * time.Second\<close> is a product of 64-bit integers.\<close>

definition parseIntOrDurationValue :: "string \<Rightarrow> duration \<Rightarrow> duration" where
  "parseIntOrDurationValue val fallback =
     (case (if length val > 0 then Atoi val else None) of
        Some parsedVal \<Rightarrow>
          if parsedVal \<ge> 0 then signed_take_bit 63 (parsedVal * second)
          else (case ParseDuration val of None \<Rightarrow> fallback | Some d \<Rightarrow> d)
      | None \<Rightarrow> (case ParseDuration val of None \<Rightarrow> fallback | Some d \<Rightarrow> d))"

section \<open>The configuration\<close>

record GatewayConfig =
  ReadTimeout :: duration
  WriteTimeout :: duration
  UpstreamTimeout :: duration
  FunctionsProviderURL :: "url option"
  LogsProviderURL :: "url option"
  NATSAddress :: "string option"
  NATSPort :: "int option"
  NATSClusterName :: "string option"
  NATSChannel :: "string option"
  PrometheusHost :: string
  PrometheusPort :: int
  UseBasicAuth :: bool
  SecretMountPath :: string
  ScaleFromZero :: bool
  MaxIdleConns :: int
  MaxIdleConnsPerHost :: int
  AuthProxyURL :: string
  AuthProxyPassBody :: bool
  ConfigNamespace :: string

type_synonym environment = "string \<Rightarrow> string"

definition ok_or :: "string + 'a \<Rightarrow> ('a \<Rightarrow> string + 'b) \<Rightarrow> string + 'b" where
  "ok_or m k = (case m of Inl e \<Rightarrow> Inl e | Inr x \<Rightarrow> k x)"

text \<open>A URL that is given must parse; of the error's text the part of \<open>url.Parse\<close> is left out.\<close>

definition read_url :: "environment \<Rightarrow> string \<Rightarrow> url option \<Rightarrow> string + url option" where
  "read_url env key fallback =
     (if length (env key) > 0 then
        (case url_Parse (env key) of
           None \<Rightarrow> Inl (''if '' @ key @ '' is provided, then it should be a valid URL, error: '')
         | Some u \<Rightarrow> Inr (Some u))
      else Inr fallback)"

definition read_int :: "environment \<Rightarrow> string \<Rightarrow> string \<Rightarrow> 'a \<Rightarrow> (int \<Rightarrow> 'a) \<Rightarrow> string + 'a" where
  "read_int env key msg fallback some =
     (if length (env key) > 0 then (case Atoi (env key) of None \<Rightarrow> Inl msg | Some v \<Rightarrow> Inr (some v)) else Inr fallback)"

definition non_empty :: "string \<Rightarrow> string \<Rightarrow> string" where
  "non_empty v fallback = (if length v > 0 then v else fallback)"

text \<open>The error about the Prometheus port quotes \<open>faasNATSPort\<close>, as the code does.\<close>

definition Read :: "environment \<Rightarrow> string + GatewayConfig" where
  "Read env =
     (let defaultDuration = second * 60 in
      ok_or (read_url env ''functions_provider_url'' None) (\<lambda>functionsURL.
      ok_or (read_url env ''logs_provider_url''
        (case functionsURL of None \<Rightarrow> None | Some u \<Rightarrow> url_Parse (url_String u))) (\<lambda>logsURL.
      ok_or (read_int env ''faas_nats_port'' (''faas_nats_port invalid number: '' @ env ''faas_nats_port'') None Some) (\<lambda>natsPort.
      ok_or (read_int env ''faas_prometheus_port'' (''faas_prometheus_port invalid number: '' @ env ''faas_nats_port'')
        9090 id) (\<lambda>prometheusPort.
      ok_or (read_int env ''max_idle_conns'' (''invalid value for max_idle_conns: '' @ env ''max_idle_conns'')
        1024 id) (\<lambda>maxIdleConns.
      ok_or (read_int env ''max_idle_conns_per_host''
        (''invalid value for max_idle_conns_per_host: '' @ env ''max_idle_conns_per_host'') 1024 id) (\<lambda>maxIdleConnsPerHost.
      Inr \<lparr>ReadTimeout = parseIntOrDurationValue (env ''read_timeout'') defaultDuration,
           WriteTimeout = parseIntOrDurationValue (env ''write_timeout'') defaultDuration,
           UpstreamTimeout = parseIntOrDurationValue (env ''upstream_timeout'') defaultDuration,
           FunctionsProviderURL = functionsURL, LogsProviderURL = logsURL,
           NATSAddress = (if length (env ''faas_nats_address'') > 0 then Some (env ''faas_nats_address'') else None),
           NATSPort = natsPort,
           NATSClusterName = Some (non_empty (env ''faas_nats_cluster_name'') ''faas-cluster''),
           NATSChannel = Some (non_empty (env ''faas_nats_channel'') ''faas-request''),
           PrometheusHost = non_empty (env ''faas_prometheus_host'') ''prometheus'',
           PrometheusPort = prometheusPort,
           UseBasicAuth = parseBoolValue (env ''basic_auth''),
           SecretMountPath = non_empty (env ''secret_mount_path'') ''/run/secrets/'',
           ScaleFromZero = parseBoolValue (env ''scale_from_zero''),
           MaxIdleConns = maxIdleConns, MaxIdleConnsPerHost = maxIdleConnsPerHost,
           AuthProxyURL = env ''auth_proxy_url'', AuthProxyPassBody = parseBoolValue (env ''auth_proxy_pass_body''),
           ConfigNamespace = env ''function_namespace''\<rparr>)))))))"

definition UseNATS :: "GatewayConfig \<Rightarrow> bool" where
  "UseNATS g \<longleftrightarrow> NATSPort g \<noteq> None \<and> NATSAddress g \<noteq> None"

definition UseExternalProvider :: "GatewayConfig \<Rightarrow> bool" where
  "UseExternalProvider g \<longleftrightarrow> FunctionsProviderURL g \<noteq> None"

text \<open>Package \<open>version\<close>: the linker sets \<open>Version\<close>.\<close>

definition BuildVersion :: "string \<Rightarrow> string" where
  "BuildVersion version = (if length version = 0 then ''dev'' else version)"

section \<open>Timeouts\<close>

lemma second_bound: "n * second < 2 ^ 63 \<Longrightarrow> 0 \<le> n \<Longrightarrow> n < 2 ^ 63" for n :: int
  by simp

lemma Itoa_nat: "Itoa (int n) = nat_digits n"
  by (simp add: Itoa_def)

lemma seconds_exact:
  assumes "m * 1000000000 < 2 ^ 63"
  shows "parseIntOrDurationValue (Itoa (int m)) fallback = int m * second"
proof -
  have m: "int m * second < 2 ^ 63" using assms by (simp add: of_nat_less_iff [symmetric] del: of_nat_less_iff)
  then have "Atoi (Itoa (int m)) = Some (int m)" by (intro Atoi_Itoa) simp_all
  moreover have "signed_take_bit 63 (int m * second) = int m * second"
    using m by (intro signed_take_bit_int_eq_self) simp_all
  ultimately show ?thesis by (simp add: parseIntOrDurationValue_def Itoa_nat nat_digits_nonempty)
qed

lemma unset_duration: "parseIntOrDurationValue [] fallback = fallback"
  by (simp add: parseIntOrDurationValue_def ParseDuration_def)

text \<open>
  the time-outs. A whole number is read as seconds, a number with a unit as that much, the two
  ways of writing seconds agree, and an empty variable means the default, all of it exactly up to
  the largest duration.
\<close>

theorem timeouts_exact:
  assumes "(u, k) \<in> set unitMap" "n * k < 2 ^ 63" "m * 1000000000 < 2 ^ 63"
  shows "parseIntOrDurationValue (Itoa (int n) @ u) fallback = int (n * k)
    \<and> parseIntOrDurationValue (Itoa (int m)) fallback = int m * second
    \<and> parseIntOrDurationValue (Itoa (int m) @ ''s'') fallback = int m * second
    \<and> parseIntOrDurationValue [] fallback = fallback"
proof -
  have s: "(''s'', 1000000000) \<in> set unitMap" by (simp add: unitMap_def)
  show ?thesis
    using ParseDuration_unit [OF assms(1,2)] ParseDuration_unit [OF s assms(3)] Atoi_unit [OF assms(1), of n] Atoi_unit [OF s, of m]
      seconds_exact [OF assms(3)] unset_duration
    by (simp add: parseIntOrDurationValue_def Itoa_nat nat_digits_nonempty)
qed

text \<open>
  a number of seconds from 9223372037 to 18446744073, which the parser takes, becomes a negative
  time-out: the product with a second wraps around. So does a negative duration with a unit, which
  is accepted where a negative number is not.
\<close>

theorem timeouts_wrap:
  assumes "9223372037 \<le> m" "m \<le> 18446744073" "(u, k) \<in> set unitMap" "0 < n" "n * k < 2 ^ 63"
  shows "parseIntOrDurationValue (Itoa m) fallback = m * second - 2 ^ 64
    \<and> parseIntOrDurationValue (Itoa m) fallback < 0
    \<and> parseIntOrDurationValue (CHR ''-'' # Itoa (int n) @ u) fallback = - int (n * k)"
proof -
  have "Atoi (Itoa m) = Some m" using assms(1,2) by (intro Atoi_Itoa) simp_all
  moreover have "signed_take_bit 63 (m * second) = m * second - 2 ^ 64"
  proof -
    have "(m * second + 2 ^ 63) mod 2 ^ 64 = (m * second + 2 ^ 63 - 2 ^ 64) mod 2 ^ 64"
      by (simp only: minus_mod_self2)
    also have "\<dots> = m * second + 2 ^ 63 - 2 ^ 64" using assms(1,2) by (intro mod_pos_pos_trivial) simp_all
    finally show ?thesis by (simp add: signed_take_bit_eq_take_bit_shift take_bit_eq_mod)
  qed
  moreover have "Itoa m \<noteq> []" by (simp add: Itoa_def nat_digits_nonempty)
  ultimately show ?thesis
    using assms(1,2) ParseDuration_unit(2) [OF assms(3,5)] Atoi_unit(2) [OF assms(3), of n]
    by (simp add: parseIntOrDurationValue_def Itoa_nat)
qed

section \<open>Errors and defaults\<close>

definition number_or_empty :: "string \<Rightarrow> bool" where
  "number_or_empty s \<longleftrightarrow> s = [] \<or> Atoi s \<noteq> None"

definition url_or_empty :: "string \<Rightarrow> bool" where
  "url_or_empty s \<longleftrightarrow> s = [] \<or> url_Parse s \<noteq> None"

lemma Atoi_Nil [simp]: "Atoi [] = None"
  by (simp add: Atoi_def)

lemma read_int_cases: "read_int env key msg d f = (if number_or_empty (env key)
    then Inr (case Atoi (env key) of None \<Rightarrow> d | Some v \<Rightarrow> f v) else Inl msg)"
  by (auto simp: read_int_def number_or_empty_def Atoi_Nil split: option.split)

lemma read_url_cases: "read_url env key d = (if url_or_empty (env key)
    then Inr (if env key = [] then d else url_Parse (env key))
    else Inl (''if '' @ key @ '' is provided, then it should be a valid URL, error: ''))"
  by (auto simp: read_url_def url_or_empty_def split: option.split)

lemma ok_or_simps [simp]: "ok_or (Inl e) k = Inl e" "ok_or (Inr x) k = k x"
  by (simp_all add: ok_or_def)

text \<open>
  the configuration is accepted exactly when the two URLs and the four numbers are each empty or
  well formed; no other variable can make it fail.
\<close>

theorem Read_accepts_iff:
  "(\<exists>cfg. Read env = Inr cfg) = (url_or_empty (env ''functions_provider_url'') \<and> url_or_empty (env ''logs_provider_url'')
     \<and> number_or_empty (env ''faas_nats_port'') \<and> number_or_empty (env ''faas_prometheus_port'')
     \<and> number_or_empty (env ''max_idle_conns'') \<and> number_or_empty (env ''max_idle_conns_per_host''))"
  unfolding Read_def Let_def read_int_cases read_url_cases by auto

text \<open>
  the provider of the logs. When only the functions provider is given, with a plain path, the logs
  are taken from the same URL, printed and parsed again; asynchronous calls are off unless both
  the address and the port of NATS are given.
\<close>

theorem Read_logs_default:
  assumes "Read env = Inr cfg" "url_Parse (env ''functions_provider_url'') =
      Some \<lparr>Scheme = ''http'', UHost = h, Path = p, RawPath = [], RawQuery = q\<rparr>"
    and "plain_path p" "plain_target h [] q" "h \<noteq> []" "env ''functions_provider_url'' \<noteq> []" "env ''logs_provider_url'' = []"
  shows "LogsProviderURL cfg = FunctionsProviderURL cfg \<and> UseExternalProvider cfg
    \<and> (UseNATS cfg \<longleftrightarrow> env ''faas_nats_address'' \<noteq> [] \<and> env ''faas_nats_port'' \<noteq> [])"
proof -
  note r = assms(1) [unfolded Read_def Let_def read_int_cases read_url_cases]
  have re: "url_Parse (url_String \<lparr>Scheme = ''http'', UHost = h, Path = p, RawPath = [], RawQuery = q\<rparr>)
      = Some \<lparr>Scheme = ''http'', UHost = h, Path = p, RawPath = [], RawQuery = q\<rparr>"
    by (rule url_reparse [OF assms(3-5)])
  have ok: "number_or_empty (env ''faas_nats_port'')" using r by (simp split: if_splits)
  then have "NATSPort cfg = (case Atoi (env ''faas_nats_port'') of None \<Rightarrow> None | Some v \<Rightarrow> Some v)"
    "NATSAddress cfg = (if length (env ''faas_nats_address'') > 0 then Some (env ''faas_nats_address'') else None)"
    "FunctionsProviderURL cfg = url_Parse (env ''functions_provider_url'')"
    "LogsProviderURL cfg = url_Parse (url_String (the (url_Parse (env ''functions_provider_url''))))"
    using r assms(2,6,7) by (simp_all split: if_splits; fastforce)+
  then show ?thesis
    using ok re assms(2) by (auto simp: UseExternalProvider_def UseNATS_def number_or_empty_def split: option.splits)
qed

text \<open>
  a Prometheus port that is no number is refused with an error that shows the NATS port instead.
\<close>

theorem prometheus_port_error_shows_nats_port:
  assumes "url_or_empty (env ''functions_provider_url'')" "url_or_empty (env ''logs_provider_url'')"
    and "number_or_empty (env ''faas_nats_port'')" "\<not> number_or_empty (env ''faas_prometheus_port'')"
  shows "Read env = Inl (''faas_prometheus_port invalid number: '' @ env ''faas_nats_port'')"
  using assms unfolding Read_def Let_def read_int_cases read_url_cases by simp

section \<open>Witnesses\<close>

definition demo_env :: environment where
  "demo_env k = (if k = ''functions_provider_url'' then ''http://p:8080/'' else if k = ''faas_nats_port'' then ''4222'' else [])"

lemma timeouts_exact_witness: "parseIntOrDurationValue (Itoa (int 90) @ ''ms'') 60 = 90000000
    \<and> parseIntOrDurationValue (Itoa (int 30)) 60 = 30000000000"
  using timeouts_exact [of "''ms''" 1000000 90 30 60] by (simp add: unitMap_def)

lemma timeouts_wrap_witness: "parseIntOrDurationValue (Itoa 9223372037) 60 = - 9223372036709551616
    \<and> parseIntOrDurationValue (CHR ''-'' # Itoa (int 5) @ ''s'') 60 = - 5000000000"
  using timeouts_wrap [of 9223372037 "''s''" 1000000000 5 60] by (simp add: unitMap_def)

lemma demo_env_ok: "number_or_empty ''4222''" "url_Parse ''http://p:8080/'' =
    Some \<lparr>Scheme = ''http'', UHost = ''p:8080'', Path = ''/'', RawPath = [], RawQuery = []\<rparr>"
  "plain_path ''/''" "plain_target ''p:8080'' [] []"
  by code_simp+

lemma Read_logs_default_witness: "\<exists>cfg. Read demo_env = Inr cfg \<and> LogsProviderURL cfg = FunctionsProviderURL cfg \<and> \<not> UseNATS cfg"
proof -
  have "url_or_empty ''http://p:8080/''" using demo_env_ok(2) by (simp add: url_or_empty_def)
  then have "\<exists>cfg. Read demo_env = Inr cfg"
    using demo_env_ok(1) unfolding Read_def Let_def read_int_cases read_url_cases
    by (simp add: demo_env_def number_or_empty_def url_or_empty_def)
  then obtain cfg where "Read demo_env = Inr cfg" by blast
  from Read_logs_default [OF this, of "''p:8080''" "''/''" "[]"] this show ?thesis
    using demo_env_ok by (auto simp: demo_env_def)
qed

lemma prometheus_port_error_shows_nats_port_witness:
  "Read (demo_env(''faas_prometheus_port'' := ''90x90'')) = Inl ''faas_prometheus_port invalid number: 4222''"
proof -
  have "\<not> number_or_empty ''90x90''" by code_simp
  then show ?thesis
    using prometheus_port_error_shows_nats_port [of "demo_env(''faas_prometheus_port'' := ''90x90'')"] demo_env_ok(1,2)
    by (simp add: demo_env_def url_or_empty_def)
qed

end
