(* ===== verification/FunctionCache.thy ===== *)
theory FunctionCache
  imports ScalingTypes
begin

text \<open>
  Package \<open>scaling\<close>, files \<open>function_meta.go\<close> and \<open>function_cache.go\<close>: the cache of replica
  counts, with entries that go stale. The interface \<open>FunctionCacher\<close> and its contract are the
  locale \<open>function_cacher\<close>, which the cache implements.
\<close>

section \<open>The cache\<close>

record FunctionMeta =
  LastRefresh :: instant
  MetaResponse :: ServiceQueryResponse

record FunctionCache =
  Cache :: "string \<Rightarrow> FunctionMeta option"
  Expiry :: duration

definition empty_meta :: FunctionMeta where
  "empty_meta = \<lparr>LastRefresh = 0, MetaResponse = empty_response\<rparr>"

definition NewFunctionCache :: "duration \<Rightarrow> FunctionCache" where
  "NewFunctionCache cacheExpiry = \<lparr>Cache = Map.empty, Expiry = cacheExpiry\<rparr>"

definition cache_key :: "string \<Rightarrow> string \<Rightarrow> string" where
  "cache_key functionName namespace = functionName @ ''.'' @ namespace"

text \<open>\<open>Expired\<close> and \<open>Set\<close> once the clock has been read.\<close>

definition expired_at :: "FunctionMeta \<Rightarrow> duration \<Rightarrow> instant \<Rightarrow> bool" where
  "expired_at fm expiry now \<longleftrightarrow> now > LastRefresh fm + expiry"

definition cache_Set :: "instant \<Rightarrow> string \<Rightarrow> string \<Rightarrow> ServiceQueryResponse \<Rightarrow> FunctionCache \<Rightarrow> FunctionCache" where
  "cache_Set now functionName namespace queryRes fc =
     (let k = cache_key functionName namespace;
          m0 = (case Cache fc k of None \<Rightarrow> (Cache fc)(k \<mapsto> empty_meta) | Some _ \<Rightarrow> Cache fc);
          m1 = (case m0 k of None \<Rightarrow> m0 | Some fm \<Rightarrow> m0(k \<mapsto> fm\<lparr>LastRefresh := now\<rparr>));
          m2 = (case m1 k of None \<Rightarrow> m1 | Some fm \<Rightarrow> m1(k \<mapsto> fm\<lparr>MetaResponse := queryRes\<rparr>))
      in fc\<lparr>Cache := m2\<rparr>)"

section \<open>The state the cache lives in\<close>

text \<open>
  One cache, the calls made to the service query so far (a history variable: nothing reads
  it), and the world behind the clock and the provider.
\<close>

datatype call =
    GetCall string string "(ServiceQueryResponse \<times> goerror) go"
  | SetCall string string uint64 "goerror go"

record 'w sstate =
  fcache :: FunctionCache
  calls :: "call list"
  sworld :: 'w

definition lift_env :: "'w Env \<Rightarrow> 'w sstate Env" where
  "lift_env env =
     \<lparr>Now = (\<lambda>s. case Now env (sworld s) of (t, w) \<Rightarrow> (t, s\<lparr>sworld := w\<rparr>)),
      Sleep = (\<lambda>d s. s\<lparr>sworld := Sleep env d (sworld s)\<rparr>)\<rparr>"

definition lift_query :: "'w ServiceQuery \<Rightarrow> 'w sstate ServiceQuery" where
  "lift_query q =
     \<lparr>GetReplicas = (\<lambda>fn ns s. case GetReplicas q fn ns (sworld s) of
          (v, w) \<Rightarrow> (v, s\<lparr>sworld := w, calls := calls s @ [GetCall fn ns v]\<rparr>)),
      SetReplicas = (\<lambda>fn ns n s. case SetReplicas q fn ns n (sworld s) of
          (v, w) \<Rightarrow> (v, s\<lparr>sworld := w, calls := calls s @ [SetCall fn ns n v]\<rparr>))\<rparr>"

section \<open>The operations\<close>

definition Expired :: "'w Env \<Rightarrow> FunctionMeta \<Rightarrow> duration \<Rightarrow> ('w sstate, bool) prog" where
  "Expired env fm expiry =
     bindp (time_Now (lift_env env)) (\<lambda>now. retp (expired_at fm expiry now))"

definition FunctionCache_Set ::
  "'w Env \<Rightarrow> string \<Rightarrow> string \<Rightarrow> ServiceQueryResponse \<Rightarrow> ('w sstate, unit) prog" where
  "FunctionCache_Set env functionName namespace queryRes =
     bindp (time_Now (lift_env env)) (\<lambda>now.
       modifyp (\<lambda>s. s\<lparr>fcache := cache_Set now functionName namespace queryRes (fcache s)\<rparr>))"

definition FunctionCache_Get ::
  "'w Env \<Rightarrow> string \<Rightarrow> string \<Rightarrow> ('w sstate, ServiceQueryResponse \<times> bool) prog" where
  "FunctionCache_Get env functionName namespace =
     bindp (getp fcache) (\<lambda>fc.
       case Cache fc (cache_key functionName namespace) of
         None \<Rightarrow> retp (empty_response, False)
       | Some val \<Rightarrow>
           bindp (Expired env val (Expiry fc)) (\<lambda>ex. retp (MetaResponse val, \<not> ex)))"

definition cacher_of :: "'w Env \<Rightarrow> 'w sstate FunctionCacher" where
  "cacher_of env = \<lparr>CSet = FunctionCache_Set env, CGet = FunctionCache_Get env\<rparr>"

section \<open>Running the operations\<close>

lemma lift_env_sel [simp]:
  "Now (lift_env env) s = (case Now env (sworld s) of (t, w) \<Rightarrow> (t, s\<lparr>sworld := w\<rparr>))"
  "Sleep (lift_env env) d s = s\<lparr>sworld := Sleep env d (sworld s)\<rparr>"
  by (simp_all add: lift_env_def)

lemma lift_query_sel [simp]:
  "GetReplicas (lift_query q) fn ns s = (case GetReplicas q fn ns (sworld s) of
     (v, w) \<Rightarrow> (v, s\<lparr>sworld := w, calls := calls s @ [GetCall fn ns v]\<rparr>))"
  "SetReplicas (lift_query q) fn ns n s = (case SetReplicas q fn ns n (sworld s) of
     (v, w) \<Rightarrow> (v, s\<lparr>sworld := w, calls := calls s @ [SetCall fn ns n v]\<rparr>))"
  by (simp_all add: lift_query_def)

lemma cacher_of_sel [simp]:
  "CSet (cacher_of env) = FunctionCache_Set env"
  "CGet (cacher_of env) = FunctionCache_Get env"
  by (simp_all add: cacher_of_def)

lemma meta_update:
  "fm\<lparr>LastRefresh := now, MetaResponse := q\<rparr> = \<lparr>LastRefresh = now, MetaResponse = q\<rparr>"
  by (cases fm) simp

lemma cache_Set_eq:
  "cache_Set now fn ns q fc =
     fc\<lparr>Cache := (Cache fc)(cache_key fn ns \<mapsto> \<lparr>LastRefresh = now, MetaResponse = q\<rparr>)\<rparr>"
  by (auto simp: cache_Set_def Let_def meta_update split: option.splits)

lemma FunctionCache_Set_run [go_simps]:
  "FunctionCache_Set env fn ns q s =
     (case Now env (sworld s) of (t, w) \<Rightarrow>
        (Val (), s\<lparr>sworld := w, fcache := cache_Set t fn ns q (fcache s)\<rparr>))"
  by (simp add: FunctionCache_Set_def go_simps split: prod.splits)

lemma FunctionCache_Get_run [go_simps]:
  "FunctionCache_Get env fn ns s =
     (case Cache (fcache s) (cache_key fn ns) of
        None \<Rightarrow> (Val (empty_response, False), s)
      | Some val \<Rightarrow> (case Now env (sworld s) of (t, w) \<Rightarrow>
          (Val (MetaResponse val, \<not> expired_at val (Expiry (fcache s)) t), s\<lparr>sworld := w\<rparr>)))"
  by (simp add: FunctionCache_Get_def Expired_def go_simps split: option.splits prod.splits)

section \<open>The contract of a cacher\<close>

text \<open>
  What the clients of \<open>FunctionCacher\<close> rely on: neither operation panics, \<open>Set\<close> stores the
  response under the key of the function, \<open>Get\<close> changes nothing that is stored, and a hit is
  the response that is stored. \<open>entry\<close> is the stored map.
\<close>

locale function_cacher =
  fixes C :: "'s FunctionCacher"
    and entry :: "'s \<Rightarrow> string \<Rightarrow> ServiceQueryResponse option"
  assumes get_total: "\<exists>q h s'. CGet C fn ns s = (Val (q, h), s')"
    and get_keeps: "CGet C fn ns s = (v, s') \<Longrightarrow> entry s' = entry s"
    and get_hit: "CGet C fn ns s = (Val (q, True), s') \<Longrightarrow> entry s (cache_key fn ns) = Some q"
    and set_total: "\<exists>s'. CSet C fn ns q s = (Val (), s')"
    and set_stores: "CSet C fn ns q s = (u, s') \<Longrightarrow> entry s' = (entry s)(cache_key fn ns \<mapsto> q)"
begin

lemma get_cases:
  obtains q s' where "CGet C fn ns s = (Val (q, True), s')"
      "entry s (cache_key fn ns) = Some q" "entry s' = entry s"
  | q s' where "CGet C fn ns s = (Val (q, False), s')" "entry s' = entry s"
  by (metis (full_types) get_hit get_keeps get_total)

lemma set_cases:
  obtains s' where "CSet C fn ns q s = (Val (), s')" "entry s' = (entry s)(cache_key fn ns \<mapsto> q)"
  by (metis set_stores set_total)

text \<open>A hit after \<open>Set\<close> on the same key is the response that was set.\<close>

lemma get_after_set:
  assumes "CSet C fn ns q s = (u, s1)" "CGet C fn ns s1 = (Val (q', True), s2)"
  shows "q' = q"
  using get_hit [OF assms(2)] set_stores [OF assms(1)] by simp

end

definition stored :: "'w sstate \<Rightarrow> string \<Rightarrow> ServiceQueryResponse option" where
  "stored s k = map_option MetaResponse (Cache (fcache s) k)"

interpretation fcacher: function_cacher "cacher_of env" stored for env
proof unfold_locales
  fix fn ns q v u and s s' :: "'a sstate"
  show "\<exists>q h s'. CGet (cacher_of env) fn ns s = (Val (q, h), s')"
    by (auto simp: go_simps split: option.splits prod.splits)
  show "stored s' = stored s" if "CGet (cacher_of env) fn ns s = (v, s')"
    using that by (auto simp: go_simps stored_def fun_eq_iff split: option.splits prod.splits)
  show "stored s (cache_key fn ns) = Some q" if "CGet (cacher_of env) fn ns s = (Val (q, True), s')"
    using that by (auto simp: go_simps stored_def split: option.splits prod.splits)
  show "\<exists>s'. CSet (cacher_of env) fn ns q s = (Val (), s')"
    by (auto simp: go_simps split: prod.splits)
  show "stored s' = (stored s)(cache_key fn ns \<mapsto> q)" if "CSet (cacher_of env) fn ns q s = (u, s')"
    using that by (auto simp: go_simps stored_def cache_Set_eq fun_eq_iff split: prod.splits)
qed

section \<open>The cache against its history\<close>

text \<open>
  The abstract view of the cache is the history of its \<open>Set\<close> calls, each with the instant
  it was made: \<open>latest\<close> is the last entry for a key.
\<close>

type_synonym cache_event = "instant \<times> string \<times> string \<times> ServiceQueryResponse"

definition event_key :: "cache_event \<Rightarrow> string" where
  "event_key ev = (case ev of (t, fn, ns, q) \<Rightarrow> cache_key fn ns)"

definition apply_event :: "FunctionCache \<Rightarrow> cache_event \<Rightarrow> FunctionCache" where
  "apply_event fc ev = (case ev of (t, fn, ns, q) \<Rightarrow> cache_Set t fn ns q fc)"

definition cache_history :: "duration \<Rightarrow> cache_event list \<Rightarrow> FunctionCache" where
  "cache_history expiry hist = foldl apply_event (NewFunctionCache expiry) hist"

fun latest :: "cache_event list \<Rightarrow> string \<Rightarrow> cache_event option" where
  "latest [] k = None"
| "latest (ev # evs) k =
     (case latest evs k of Some e \<Rightarrow> Some e | None \<Rightarrow> if event_key ev = k then Some ev else None)"

lemma latest_snoc:
  "latest (evs @ [ev]) k = (if event_key ev = k then Some ev else latest evs k)"
  by (induction evs) (auto split: option.splits)

lemma cache_history_entries:
  "Cache (cache_history e hist) k =
     map_option (\<lambda>(t, fn, ns, q). \<lparr>LastRefresh = t, MetaResponse = q\<rparr>) (latest hist k)
   \<and> Expiry (cache_history e hist) = e"
  by (induction hist rule: rev_induct)
    (auto simp: cache_history_def NewFunctionCache_def apply_event_def latest_snoc cache_Set_eq
      event_key_def)

text \<open>
  C33: whatever was stored before, \<open>Get\<close> answers with the response of the latest \<open>Set\<close> for
  that function, reports a hit exactly while that response is no older than the expiry, and
  reports a miss with an empty response for a function that was never stored.
\<close>

theorem Get_is_latest_Set:
  assumes "fcache s = cache_history expiry hist"
  shows "fst (FunctionCache_Get env fn ns s) =
    Val (case latest hist (cache_key fn ns) of
           None \<Rightarrow> (empty_response, False)
         | Some (t, _, _, q) \<Rightarrow> (q, fst (Now env (sworld s)) \<le> t + expiry))"
  using cache_history_entries [of expiry hist "cache_key fn ns"] assms
  by (auto simp: go_simps expired_at_def split: option.splits prod.splits)

theorem Get_is_latest_Set_witness:
  "fst (FunctionCache_Get \<lparr>Now = (\<lambda>w. (w, w + 1)), Sleep = (\<lambda>d w. w + d)\<rparr> ''echo'' ''fn''
      \<lparr>fcache = cache_history 250 [(10, ''echo'', ''fn'', empty_response\<lparr>AvailableReplicas := 1\<rparr>)],
       calls = [], sworld = (260 :: int)\<rparr>)
   = Val (empty_response\<lparr>AvailableReplicas := 1\<rparr>, True)"
  by (subst Get_is_latest_Set
      [where expiry = 250 and hist = "[(10, ''echo'', ''fn'', empty_response\<lparr>AvailableReplicas := 1\<rparr>)]"])
    (simp_all add: event_key_def)

text \<open>
  two functions share a cache entry only if they are the same function, as long as
  namespaces hold no dot (which is what \<open>GetNamespace\<close> produces for a name with a dot).
\<close>

theorem cache_key_injective:
  assumes "CHR ''.'' \<notin> set ns" and "CHR ''.'' \<notin> set ns'"
  shows "cache_key fn ns = cache_key fn' ns' \<longleftrightarrow> fn = fn' \<and> ns = ns'"
  using last_split_unique [OF assms, of fn fn'] by (simp add: cache_key_def)

theorem cache_key_injective_witness:
  "cache_key ''a.b'' ''c'' \<noteq> cache_key ''a'' ''d''"
  using cache_key_injective [of "''c''" "''d''" "''a.b''" "''a''"] by simp

text \<open>Without that condition keys collide.\<close>

lemma cache_key_collision: "cache_key ''a'' ''b.c'' = cache_key ''a.b'' ''c''"
  by (simp add: cache_key_def)

end
