(* ===== verification/AlertHandler.thy ===== *)
theory AlertHandler
  imports Float64 FunctionCache Middleware
begin

text \<open>
  Package \<open>handlers\<close>, file \<open>alerthandler.go\<close>, with the types of \<open>requests/prometheus.go\<close>:
  the autoscaling webhook. Each alert asks the provider for the replicas of its function,
  computes the new count and requests it when it differs.
\<close>

section \<open>Alerts\<close>

record PrometheusInnerAlertLabel =
  AlertName :: string
  FunctionName :: string

record PrometheusInnerAlert =
  Status :: string
  Labels :: PrometheusInnerAlertLabel

record PrometheusAlert =
  AlertStatus :: string
  Receiver :: string
  Alerts :: "PrometheusInnerAlert list"

section \<open>Operations\<close>

definition capped_max :: "uint64 \<Rightarrow> uint64" where
  "capped_max maxReplicas =
     word_of_int \<lfloor>min (float64 (of_nat (unat maxReplicas))) (float64 (of_int DefaultMaxReplicas))\<rfloor>"

definition CalculateReplicas :: "string \<Rightarrow> uint64 \<Rightarrow> uint64 \<Rightarrow> uint64 \<Rightarrow> uint64 \<Rightarrow> uint64" where
  "CalculateReplicas status currentReplicas maxReplicas0 minReplicas scalingFactor =
     (let maxReplicas = capped_max maxReplicas0;
          step = word_of_int (percentage_up (unat maxReplicas) (unat scalingFactor))
      in if status = ''firing'' \<and> step > 0
         then if currentReplicas + step > maxReplicas then maxReplicas else currentReplicas + step
         else minReplicas)"

definition scaleService :: "PrometheusInnerAlert \<Rightarrow> 's ServiceQuery \<Rightarrow> string \<Rightarrow> ('s, goerror) prog" where
  "scaleService alert service defaultNamespace =
     (case GetNamespace defaultNamespace (FunctionName (Labels alert)) of (serviceName, namespace) \<Rightarrow>
        if length serviceName > 0 then
          bindp (GetReplicas service serviceName namespace) (\<lambda>(queryResponse, getErr).
            if getErr = None then
              (let newReplicas = CalculateReplicas (Status alert) (Replicas queryResponse)
                     (MaxReplicas queryResponse) (MinReplicas queryResponse) (ScalingFactor queryResponse)
               in if newReplicas = Replicas queryResponse then retp None
                  else SetReplicas service serviceName namespace newReplicas)
            else retp None)
        else retp None)"

fun handle_alerts :: "PrometheusInnerAlert list \<Rightarrow> 's ServiceQuery \<Rightarrow> string \<Rightarrow> string list \<Rightarrow> ('s, string list) prog" where
  "handle_alerts [] service defaultNamespace errs = retp errs"
| "handle_alerts (alert # alerts) service defaultNamespace errs =
     bindp (scaleService alert service defaultNamespace) (\<lambda>err.
       handle_alerts alerts service defaultNamespace (case err of None \<Rightarrow> errs | Some e \<Rightarrow> errs @ [e]))"

definition handleAlerts :: "PrometheusAlert \<Rightarrow> 's ServiceQuery \<Rightarrow> string \<Rightarrow> ('s, string list) prog" where
  "handleAlerts req service defaultNamespace = handle_alerts (Alerts req) service defaultNamespace []"

fun error_output :: "nat \<Rightarrow> string list \<Rightarrow> string" where
  "error_output d [] = []"
| "error_output d (e # es) = ''['' @ Itoa (int d) @ ''] '' @ e @ [char_of (10 :: nat)] @ error_output (Suc d) es"

text \<open>\<open>unmarshal\<close> is \<open>json.Unmarshal\<close> into a \<open>PrometheusAlert\<close>: \<open>None\<close> is an error. Theory JsonCodecs has it.\<close>

definition MakeAlertHandler :: "(string \<Rightarrow> PrometheusAlert option) \<Rightarrow> 'w ServiceQuery \<Rightarrow> string \<Rightarrow> 'w handler" where
  "MakeAlertHandler unmarshal service defaultNamespace r =
     (case Body r of
        None \<Rightarrow> http_Error ''A body is required for this endpoint'' StatusBadRequest
      | Some (body, Some e) \<Rightarrow>
          bindp (on_rw (WriteHeader StatusBadRequest)) (\<lambda>_. on_rw (Write ''Unable to read alert.''))
      | Some (body, None) \<Rightarrow> (case unmarshal body of
          None \<Rightarrow>
            bindp (on_rw (WriteHeader StatusBadRequest)) (\<lambda>_.
              on_rw (Write ''Unable to parse alert, bad format.''))
        | Some req \<Rightarrow>
            bindp (on_hworld (handleAlerts req service defaultNamespace)) (\<lambda>errs.
              if length errs > 0 then
                bindp (on_rw (WriteHeader StatusInternalServerError)) (\<lambda>_.
                  on_rw (Write (error_output 0 errs)))
              else on_rw (WriteHeader StatusOK))))"

section \<open>The replica calculation\<close>

lemma unat_capped_max: "unat (capped_max m) = min (unat m) 5"
proof -
  have "float64 5 = 5" using float64_nat [of 5] by simp
  then have "capped_max m = word_of_int \<lfloor>of_nat (min (unat m) 5) :: rat\<rfloor>"
    using float64_min5 [of "unat m"] by (simp add: capped_max_def DefaultMaxReplicas_def)
  then have "capped_max m = (of_nat (min (unat m) 5) :: uint64)" by (simp only: floor_of_nat of_int_of_nat_eq)
  moreover have "min (unat m) 5 < 2 ^ 64" by (simp add: min_less_iff_disj)
  ultimately show ?thesis by (simp add: unat_of_nat)
qed

text \<open>The scaling step for a factor that is a percentage.\<close>

definition step_for :: "nat \<Rightarrow> nat \<Rightarrow> nat" where
  "step_for m sf = (min m 5 * sf + 99) div 100"

lemma step_for_le: "sf \<le> 100 \<Longrightarrow> step_for m sf \<le> 5"
proof -
  assume "sf \<le> 100"
  then have "min m 5 * sf \<le> 5 * 100" by (intro mult_le_mono) auto
  then show ?thesis unfolding step_for_def by linarith
qed

lemma step_for_pos: "1 \<le> m \<Longrightarrow> 1 \<le> sf \<Longrightarrow> 1 \<le> step_for m sf"
proof -
  assume "1 \<le> m" "1 \<le> sf"
  then have "1 * 1 \<le> min m 5 * sf" by (intro mult_le_mono) auto
  then show ?thesis unfolding step_for_def by linarith
qed

lemma unat_step:
  "unat sf \<le> 100 \<Longrightarrow> unat (word_of_int (percentage_up (unat (capped_max m)) (unat sf)) :: uint64)
     = step_for (unat m) (unat sf)"
proof -
  assume sf: "unat sf \<le> 100"
  then have "percentage_up (unat (capped_max m)) (unat sf) = int (step_for (unat m) (unat sf))"
    by (simp add: unat_capped_max percentage_up_exact step_for_def)
  moreover have "step_for (unat m) (unat sf) < 2 ^ 64" using step_for_le [OF sf, of "unat m"] by simp
  ultimately show ?thesis by (simp add: unat_of_nat)
qed

lemma unat_calculate:
  assumes "unat sf \<le> 100" "unat cur < 2 ^ 64 - 5"
  shows "unat (CalculateReplicas status cur mx mn sf) =
    (if status = ''firing'' \<and> step_for (unat mx) (unat sf) > 0
     then min (min (unat mx) 5) (unat cur + step_for (unat mx) (unat sf)) else unat mn)"
proof -
  let ?step = "word_of_int (percentage_up (unat (capped_max mx)) (unat sf)) :: uint64"
  have s: "unat ?step = step_for (unat mx) (unat sf)" by (rule unat_step [OF assms(1)])
  have "unat cur + unat ?step < 2 ^ 64" using s step_for_le [OF assms(1), of "unat mx"] assms(2) by simp
  then have "unat (cur + ?step) = unat cur + step_for (unat mx) (unat sf)"
    using s by (simp add: unat_word_ariths)
  then show ?thesis
    using s unat_capped_max [of mx]
    by (auto simp: CalculateReplicas_def Let_def word_less_nat_alt word_neq_0_conv [symmetric] min_def)
qed

lemma calculate_capped:
  assumes "word_of_int (percentage_up (unat (capped_max mx)) (unat sf)) > (0 :: uint64)"
  shows "unat (CalculateReplicas ''firing'' cur mx mn sf) \<le> min (unat mx) 5"
  using assms unat_capped_max [of mx]
  by (auto simp: CalculateReplicas_def Let_def word_less_nat_alt not_less)

text \<open>
  C6: for any status and any replica counts an alert can carry, with a scaling factor that is a
  percentage and a current count for which the addition does not wrap around, the new count is:
  on \<open>firing\<close> the current count plus the given percentage of the capped maximum, rounded up, but
  at most that maximum (the smaller of the label and 5); otherwise, and when the step is 0, the
  minimum. The floating-point arithmetic of the code makes no difference.
\<close>

theorem CalculateReplicas_spec:
  assumes "unat sf \<le> 100" "unat cur < 2 ^ 64 - 5"
  shows "unat (CalculateReplicas status cur mx mn sf) =
    (if status = ''firing'' \<and> step_for (unat mx) (unat sf) > 0
     then min (min (unat mx) 5) (unat cur + step_for (unat mx) (unat sf)) else unat mn)"
  using assms by (rule unat_calculate)

text \<open>
  whatever the counts, the factor and the wrap-around of the sum, a firing alert with a step
  never asks for more replicas than the label and the built-in maximum of 5 allow.
\<close>

theorem CalculateReplicas_bounded:
  assumes "word_of_int (percentage_up (unat (capped_max mx)) (unat sf)) > (0 :: uint64)"
  shows "unat (CalculateReplicas ''firing'' cur mx mn sf) \<le> min (unat mx) 5"
  using assms by (rule calculate_capped)

section \<open>Repeated alerts\<close>

lemma fired_bounds:
  assumes "1 \<le> unat sf" "unat sf \<le> 100" "1 \<le> unat mx" "unat cur < 2 ^ 64 - 5"
  shows "min (min (unat mx) 5) (n + 1)
      \<le> unat (((\<lambda>c. CalculateReplicas ''firing'' c mx mn sf) ^^ Suc n) cur) \<and>
    unat (((\<lambda>c. CalculateReplicas ''firing'' c mx mn sf) ^^ Suc n) cur) \<le> min (unat mx) 5"
proof -
  let ?f = "\<lambda>c. CalculateReplicas ''firing'' c mx mn sf"
  have p: "1 \<le> step_for (unat mx) (unat sf)" by (rule step_for_pos [OF assms(3,1)])
  have f: "unat (?f c) = min (min (unat mx) 5) (unat c + step_for (unat mx) (unat sf))"
    if "unat c < 2 ^ 64 - 5" for c
    using unat_calculate [OF assms(2) that, of "''firing''" mx mn] p by simp
  show ?thesis
  proof (induction n)
    case 0
    from f [OF assms(4)] p show ?case
      unfolding funpow.simps comp_apply id_apply by linarith
  next
    case (Suc n)
    let ?c = "(?f ^^ Suc n) cur"
    have "unat ?c \<le> 5" using Suc by linarith
    then have "unat ?c < 2 ^ 64 - 5" by simp
    from f [OF this] Suc p show ?case unfolding funpow.simps(2) [of "Suc n"] comp_apply by linarith
  qed
qed

text \<open>
  C17: a function whose alert keeps firing reaches its maximum (the smaller of its label and 5)
  after at most five alerts, from any current count, and then stays there; from then on the
  handler asks for no further change.
\<close>

theorem firing_converges:
  assumes "1 \<le> unat sf" "unat sf \<le> 100" "1 \<le> unat mx" "unat cur < 2 ^ 64 - 5" "5 \<le> n"
  shows "unat (((\<lambda>c. CalculateReplicas ''firing'' c mx mn sf) ^^ n) cur) = min (unat mx) 5"
proof -
  obtain k where "n = Suc k" "4 \<le> k" using assms(5) by (cases n) auto
  with fired_bounds [OF assms(1-4), of k mn] show ?thesis
    by (simp only:) linarith
qed

section \<open>The calls the handler makes\<close>

text \<open>
  A service query that keeps a log of the calls it gets. The calls one alert may make: none
  without a function name, one query, and a request for the calculated count exactly when the
  query succeeds and the count differs.
\<close>

locale autoscaled = service_query Q for Q :: "'s ServiceQuery" +
  fixes log :: "'s \<Rightarrow> call list"
  assumes get_logged: "GetReplicas Q fn ns s = (v, s') \<Longrightarrow> log s' = log s @ [GetCall fn ns v]"
    and set_logged: "SetReplicas Q fn ns n s = (e, s') \<Longrightarrow> log s' = log s @ [SetCall fn ns n e]"

definition calculated :: "PrometheusInnerAlert \<Rightarrow> ServiceQueryResponse \<Rightarrow> uint64" where
  "calculated alert q = CalculateReplicas (Status alert) (Replicas q) (MaxReplicas q) (MinReplicas q) (ScalingFactor q)"

inductive alert_calls :: "string \<Rightarrow> PrometheusInnerAlert \<Rightarrow> call list \<Rightarrow> bool" where
  no_name: "GetNamespace dns (FunctionName (Labels a)) = ([], ns) \<Longrightarrow> alert_calls dns a []"
| failed: "GetNamespace dns (FunctionName (Labels a)) = (fn, ns) \<Longrightarrow> fn \<noteq> [] \<Longrightarrow>
    alert_calls dns a [GetCall fn ns (Val (q, Some e))]"
| settled: "GetNamespace dns (FunctionName (Labels a)) = (fn, ns) \<Longrightarrow> fn \<noteq> [] \<Longrightarrow>
    calculated a q = Replicas q \<Longrightarrow> alert_calls dns a [GetCall fn ns (Val (q, None))]"
| scaled: "GetNamespace dns (FunctionName (Labels a)) = (fn, ns) \<Longrightarrow> fn \<noteq> [] \<Longrightarrow>
    calculated a q \<noteq> Replicas q \<Longrightarrow>
    alert_calls dns a [GetCall fn ns (Val (q, None)), SetCall fn ns (calculated a q) (Val e)]"

inductive_cases alert_callsE: "alert_calls dns a cs"

definition set_error :: "call \<Rightarrow> string list" where
  "set_error c = (case c of SetCall _ _ _ (Val (Some e)) \<Rightarrow> [e] | _ \<Rightarrow> [])"

context autoscaled
begin

lemma scaleService_calls:
  assumes "scaleService a Q dns s = (Val err, s')"
  shows "\<exists>cs. log s' = log s @ cs \<and> alert_calls dns a cs
    \<and> concat (map set_error cs) = (case err of None \<Rightarrow> [] | Some e \<Rightarrow> [e])"
proof -
  obtain fn ns where gn: "GetNamespace dns (FunctionName (Labels a)) = (fn, ns)" by fastforce
  show ?thesis
  proof (cases "fn = []")
    case True
    with assms gn show ?thesis by (auto simp: scaleService_def retp_run intro: no_name)
  next
    case False
    then obtain v s1 where g: "GetReplicas Q fn ns s = (v, s1)" by fastforce
    have l1: "log s1 = log s @ [GetCall fn ns v]" by (rule get_logged [OF g])
    from assms gn False g obtain q ge where v: "v = Val (q, ge)"
      by (cases v) (auto simp: scaleService_def)
    show ?thesis
    proof (cases ge)
      case (Some e)
      with assms gn False g v have "err = None" "s' = s1" by (auto simp: scaleService_def retp_run)
      with l1 v Some failed [OF gn False] show ?thesis by (auto simp: set_error_def)
    next
      case None
      show ?thesis
      proof (cases "calculated a q = Replicas q")
        case True
        with assms gn False g v None have "err = None" "s' = s1"
          by (auto simp: scaleService_def calculated_def retp_run)
        with l1 v None settled [OF gn False True] show ?thesis by (auto simp: set_error_def)
      next
        case neq: False
        with assms gn False g v None have u: "SetReplicas Q fn ns (calculated a q) s1 = (Val err, s')"
          by (simp add: scaleService_def calculated_def Let_def)
        from set_logged [OF u] l1 v None scaled [OF gn False neq, of err] show ?thesis
          by (auto simp: set_error_def split: option.splits)
      qed
    qed
  qed
qed

lemma handle_alerts_calls:
  "handle_alerts as Q dns errs0 s = (Val errs, s') \<Longrightarrow>
   \<exists>css. log s' = log s @ concat css \<and> list_all2 (alert_calls dns) as css
     \<and> errs = errs0 @ concat (map set_error (concat css))"
proof (induction as arbitrary: errs0 s)
  case (Cons a as)
  then obtain err s1 where 1: "scaleService a Q dns s = (Val err, s1)"
    and 2: "handle_alerts as Q dns (case err of None \<Rightarrow> errs0 | Some e \<Rightarrow> errs0 @ [e]) s1 = (Val errs, s')"
    by (auto elim: bindp_ValE)
  from scaleService_calls [OF 1] obtain cs where cs: "log s1 = log s @ cs" "alert_calls dns a cs"
    "concat (map set_error cs) = (case err of None \<Rightarrow> [] | Some e \<Rightarrow> [e])" by blast
  from Cons.IH [OF 2] obtain css where "log s' = log s1 @ concat css" "list_all2 (alert_calls dns) as css"
    "errs = (case err of None \<Rightarrow> errs0 | Some e \<Rightarrow> errs0 @ [e]) @ concat (map set_error (concat css))" by blast
  with cs show ?case by (intro exI [of _ "cs # css"]) (auto split: option.splits)
qed (simp add: retp_run)

lemma handleAlerts_calls:
  assumes "handleAlerts req Q dns s = (Val errs, s')"
  shows "\<exists>css. log s' = log s @ concat css \<and> list_all2 (alert_calls dns) (Alerts req) css
     \<and> errs = concat (map set_error (concat css))"
  using handle_alerts_calls [of "Alerts req" dns "[]" s errs s'] assms by (simp add: handleAlerts_def)

text \<open>Every count a firing alert asks for is at most five.\<close>

lemma firing_capped:
  assumes "GetReplicas Q fn ns s = (Val (q, None), s')" "1 \<le> unat (MaxReplicas q)" "Status a = ''firing''"
  shows "unat (calculated a q) \<le> 5"
proof -
  from factor_percent [OF assms(1)]
  have f: "1 \<le> unat (ScalingFactor q)" "unat (ScalingFactor q) \<le> 100" by simp_all
  have "0 < step_for (unat (MaxReplicas q)) (unat (ScalingFactor q))"
    using step_for_pos [OF assms(2) f(1)] by simp
  then have "(0::uint64) < word_of_int (percentage_up (unat (capped_max (MaxReplicas q))) (unat (ScalingFactor q)))"
    using unat_step [OF f(2), of "MaxReplicas q"] by (simp add: word_less_nat_alt)
  from calculate_capped [OF this] assms(3) show ?thesis by (simp add: calculated_def)
qed

end

section \<open>The handler\<close>

text \<open>
  a request with a readable alert is answered 200 when no scaling request failed, and 500
  with the numbered list of the errors otherwise; every alert is handled, also after a failure.
\<close>

theorem MakeAlertHandler_handles:
  assumes "rw_sent (rw s) = None" "Body r = Some (b, None)" "unmarshal b = Some req"
    "handleAlerts req service dns (hworld s) = (Val errs, w')"
  shows "\<exists>t. MakeAlertHandler unmarshal service dns r s = (Val (), t) \<and> hworld t = w'
    \<and> final_status (rw t) = (if errs = [] then 200 else 500)
    \<and> rw_body (rw t) = rw_body (rw s) @ error_output 0 errs"
  using assms
  by (simp add: MakeAlertHandler_def bindp_run on_hworld_run on_rw_run WriteHeader_fresh Write_run final_status_def)

text \<open>
  a request without a body, with a body that cannot be read, or with one that is not an alert
  is answered 400, and no call goes to the provider.
\<close>

theorem MakeAlertHandler_rejects:
  assumes "rw_sent (rw s) = None"
    "case Body r of None \<Rightarrow> True | Some (b, Some e) \<Rightarrow> True | Some (b, None) \<Rightarrow> unmarshal b = None"
  shows "\<exists>t. MakeAlertHandler unmarshal service dns r s = (Val (), t) \<and> hworld t = hworld s
    \<and> final_status (rw t) = 400"
  using assms
  by (auto simp: MakeAlertHandler_def bindp_run on_rw_run WriteHeader_fresh Write_run final_status_def
      http_Error_def header_map_run split: option.splits prod.splits)

section \<open>Witnesses\<close>

lemma CalculateReplicas_spec_witness: "unat (CalculateReplicas ''firing'' 2 20 1 25) = 4"
  using CalculateReplicas_spec [of 25 2 "''firing''" 20 1] by (simp add: step_for_def)

lemma CalculateReplicas_bounded_witness:
  "unat (CalculateReplicas ''firing'' 18446744073709551615 20 1 100) \<le> 5"
proof -
  have "unat (word_of_int (percentage_up (unat (capped_max 20)) (unat (100 :: uint64))) :: uint64)
      = step_for (unat (20 :: uint64)) (unat (100 :: uint64))" by (rule unat_step) simp
  then have "(0 :: uint64) < word_of_int (percentage_up (unat (capped_max 20)) (unat (100 :: uint64)))"
    by (simp add: word_less_nat_alt step_for_def)
  from CalculateReplicas_bounded [OF this] show ?thesis by simp
qed

lemma firing_converges_witness:
  "unat (((\<lambda>c. CalculateReplicas ''firing'' c 20 1 25) ^^ 7) 0) = 5"
  using firing_converges [of 25 20 0 7 1] by simp

text \<open>A provider with one function, whose state is its count and that refuses to scale to 5.\<close>

definition demo_provider :: "uint64 ServiceQuery" where
  "demo_provider =
     \<lparr>GetReplicas = (\<lambda>fn ns s. (Val (empty_response\<lparr>Replicas := s, MaxReplicas := 20, MinReplicas := 1, ScalingFactor := 40\<rparr>, None), s)),
      SetReplicas = (\<lambda>fn ns n s. if n = 5 then (Val (Some ''refused''), s) else (Val None, n))\<rparr>"

definition demo_alert :: PrometheusInnerAlert where
  "demo_alert = \<lparr>Status = ''firing'', Labels = \<lparr>AlertName = ''a'', FunctionName = ''f.ns''\<rparr>\<rparr>"

definition demo_alerts :: PrometheusAlert where
  "demo_alerts = \<lparr>AlertStatus = ''firing'', Receiver = ''r'', Alerts = [demo_alert, demo_alert, demo_alert]\<rparr>"

lemma demo_fire: "CalculateReplicas ''firing'' 1 20 1 40 = 3 \<and> CalculateReplicas ''firing'' 3 20 1 40 = 5"
  using unat_calculate [of 40 1 "''firing''" 20 1] unat_calculate [of 40 3 "''firing''" 20 1]
  by (simp add: step_for_def word_unat_eq_iff)

lemma demo_names: "GetNamespace ''d'' ''f.ns'' = (''f'', ''ns'')"
  by code_simp

lemma demo_handled: "handleAlerts demo_alerts demo_provider ''d'' 1 = (Val [''refused'', ''refused''], 3)"
  by (simp add: handleAlerts_def demo_alerts_def demo_alert_def scaleService_def demo_names demo_provider_def
    demo_fire bindp_run retp_run empty_response_def)

definition demo_hstate :: "'w \<Rightarrow> 'w hstate" where
  "demo_hstate w = \<lparr>rw = new_writer, hworld = w\<rparr>"

definition demo_post :: "string \<Rightarrow> request" where
  "demo_post b = \<lparr>Method = ''POST'', URL = \<lparr>Scheme = [], UHost = [], Path = ''/system/alert'', RawPath = [], RawQuery = []\<rparr>,
     Header = (\<lambda>_. None), RHost = [], RemoteAddr = [], Body = Some (b, None), RVars = (\<lambda>_. None)\<rparr>"

lemma MakeAlertHandler_handles_witness:
  "\<exists>t. MakeAlertHandler (\<lambda>b. Some demo_alerts) demo_provider ''d'' (demo_post ''x'') (demo_hstate 1) = (Val (), t)
    \<and> hworld t = 3 \<and> final_status (rw t) = 500"
  using MakeAlertHandler_handles [of "demo_hstate 1" "demo_post ''x''" "''x''" "\<lambda>b. Some demo_alerts" demo_alerts
      demo_provider "''d''" "[''refused'', ''refused'']" 3] demo_handled
  by (auto simp: demo_hstate_def demo_post_def new_writer_def)

lemma MakeAlertHandler_rejects_witness:
  "\<exists>t. MakeAlertHandler (\<lambda>b. None) demo_provider ''d'' (demo_post ''x'') (demo_hstate 1) = (Val (), t)
    \<and> hworld t = 1 \<and> final_status (rw t) = 400"
  using MakeAlertHandler_rejects [where s = "demo_hstate 1" and r = "demo_post ''x''" and unmarshal = "\<lambda>b. None"
      and service = demo_provider and dns = "''d''"]
  by (simp add: demo_hstate_def demo_post_def new_writer_def)

end
