(* ===== verification/ExternalQuery.thy ===== *)
theory ExternalQuery
  imports AlertHandler GoUrl
begin

text \<open>
  Package \<open>plugin\<close>, file \<open>external.go\<close>: the service query that asks the provider over HTTP,
  with the status \<open>FunctionStatus\<close> it reads. Encoding and decoding
  JSON are parameters, for which theory JsonCodecs has the library's.
\<close>

section \<open>State and data\<close>

text \<open>The fields of a function's status that the query reads.\<close>

record FunctionStatus =
  FReplicas :: uint64
  FAvailableReplicas :: uint64
  FLabels :: "(string \<Rightarrow> string option) option"
  FAnnotations :: "(string \<Rightarrow> string option) option"

text \<open>\<open>EAuth\<close> is nil or an injector with its credentials, which may be nil again.\<close>

record 'w ExternalServiceQuery =
  EURL :: url
  ProxyClient :: "'w client"
  EAuth :: "BasicAuthCredentials option option"
  IncludeUsage :: bool

record codec =
  basic_header :: "string \<Rightarrow> string \<Rightarrow> string"
  unmarshal_status :: "string \<Rightarrow> string + FunctionStatus"
  marshal_scale :: "ScaleServiceRequest \<Rightarrow> string"

definition NewExternalServiceQuery :: "url \<Rightarrow> 'w client \<Rightarrow> BasicAuthCredentials option option \<Rightarrow> 'w ExternalServiceQuery" where
  "NewExternalServiceQuery externalURL client authInjector =
     \<lparr>EURL = externalURL, ProxyClient = client, EAuth = authInjector, IncludeUsage = False\<rparr>"

section \<open>Operations\<close>

definition extractLabelValue :: "string \<Rightarrow> uint64 \<Rightarrow> uint64" where
  "extractLabelValue rawLabelValue fallback =
     (if rawLabelValue = [] then fallback
      else (case Atoi rawLabelValue of None \<Rightarrow> fallback | Some value \<Rightarrow> word_of_int value))"

definition show_bool :: "bool \<Rightarrow> string" where
  "show_bool b = (if b then ''true'' else ''false'')"

definition label :: "(string \<Rightarrow> string option) \<Rightarrow> string \<Rightarrow> string" where
  "label labels k = (case labels k of None \<Rightarrow> [] | Some v \<Rightarrow> v)"

definition injected :: "codec \<Rightarrow> BasicAuthCredentials option option \<Rightarrow> request option \<Rightarrow> request option" where
  "injected cd auth req =
     (case auth of None \<Rightarrow> req | Some creds \<Rightarrow> BasicAuthInjector_Inject (basic_header cd) creds req)"

text \<open>What \<open>GetReplicas\<close> makes of the status it received.\<close>

definition status_response :: "FunctionStatus \<Rightarrow> ServiceQueryResponse \<times> goerror" where
  "status_response function =
     (let minReplicas = word_of_int DefaultMinReplicas;
          maxReplicas = word_of_int DefaultMaxReplicas;
          scalingFactor = word_of_int DefaultScalingFactor;
          response = (\<lambda>mn mx sf. \<lparr>Replicas = FReplicas function, MaxReplicas = mx, MinReplicas = mn,
            ScalingFactor = sf, AvailableReplicas = FAvailableReplicas function, Annotations = FAnnotations function\<rparr>)
      in case FLabels function of
           None \<Rightarrow> (response minReplicas maxReplicas scalingFactor, None)
         | Some labels \<Rightarrow>
             (let mn = extractLabelValue (label labels MinScaleLabel) minReplicas;
                  mx = extractLabelValue (label labels MaxScaleLabel) maxReplicas;
                  extracted = extractLabelValue (label labels ScalingFactorLabel) scalingFactor
              in if extracted > 0 \<and> extracted \<le> 100 then (response mn mx extracted, None)
                 else (empty_response, Some (''bad scaling factor: '' @ Itoa (uint extracted)
                        @ '', is not in range of [0 - 100]''))))"

definition ExternalServiceQuery_GetReplicas ::
  "codec \<Rightarrow> 'w ExternalServiceQuery \<Rightarrow> string \<Rightarrow> string \<Rightarrow> ('w, ServiceQueryResponse \<times> goerror) prog" where
  "ExternalServiceQuery_GetReplicas cd s serviceName serviceNamespace =
     (let urlPath = url_String (EURL s) @ ''system/function/'' @ serviceName @ ''?namespace='' @ serviceNamespace
            @ ''&usage='' @ show_bool (IncludeUsage s)
      in case http_NewRequest ''GET'' urlPath None of
           None \<Rightarrow> retp (empty_response, Some (''parse '' @ urlPath))
         | Some req \<Rightarrow>
             bindp (ProxyClient s (the (injected cd (EAuth s) (Some req)))) (\<lambda>(res, err).
               case err of
                 Some e \<Rightarrow> retp (empty_response, Some e)
               | None \<Rightarrow> (case res of
                   None \<Rightarrow> panicp ''nil pointer dereference''
                 | Some resp \<Rightarrow>
                     (let bytesOut = (case RespBody resp of None \<Rightarrow> [] | Some (b, _) \<Rightarrow> b)
                      in if StatusCode resp = StatusOK then
                           (case unmarshal_status cd bytesOut of
                              Inl e \<Rightarrow> retp (empty_response, Some e)
                            | Inr function \<Rightarrow> retp (status_response function))
                         else retp (empty_response,
                           Some (''server returned non-200 status code ('' @ Itoa (StatusCode resp)
                             @ '') for function, '' @ serviceName @ '', body: '' @ bytesOut))))))"

definition ExternalServiceQuery_SetReplicas ::
  "codec \<Rightarrow> 'w ExternalServiceQuery \<Rightarrow> string \<Rightarrow> string \<Rightarrow> uint64 \<Rightarrow> ('w, goerror) prog" where
  "ExternalServiceQuery_SetReplicas cd s serviceName serviceNamespace count =
     (let requestBody = marshal_scale cd \<lparr>ServiceName = serviceName, ReqReplicas = count, ReqNamespace = []\<rparr>;
          urlPath = url_String (EURL s) @ ''system/scale-function/'' @ serviceName @ ''?namespace='' @ serviceNamespace
      in case injected cd (EAuth s) (http_NewRequest ''POST'' urlPath (Some (requestBody, None))) of
           None \<Rightarrow> panicp ''nil pointer dereference''
         | Some req \<Rightarrow>
             bindp (ProxyClient s req) (\<lambda>(res, err).
               case res of
                 None \<Rightarrow> panicp ''nil pointer dereference''
               | Some resp \<Rightarrow>
                   retp (if \<not> (StatusCode resp = StatusOK \<or> StatusCode resp = StatusAccepted)
                         then Some (''error scaling HTTP code '' @ Itoa (StatusCode resp) @ '', '' @ urlPath)
                         else err)))"

definition external_query :: "codec \<Rightarrow> 'w ExternalServiceQuery \<Rightarrow> 'w ServiceQuery" where
  "external_query cd s =
     \<lparr>GetReplicas = ExternalServiceQuery_GetReplicas cd s, SetReplicas = ExternalServiceQuery_SetReplicas cd s\<rparr>"

section \<open>The contract\<close>

lemma status_response_factor:
  assumes "status_response f = (q, None)"
  shows "1 \<le> unat (ScalingFactor q) \<and> unat (ScalingFactor q) \<le> 100"
proof (cases "FLabels f")
  case None
  with assms have "ScalingFactor q = 10"
    by (auto simp: status_response_def Let_def DefaultScalingFactor_def)
  then show ?thesis by simp
next
  case (Some labels)
  with assms have "ScalingFactor q > 0" "ScalingFactor q \<le> 100"
    by (auto simp: status_response_def Let_def split: if_splits)
  then have "0 < unat (ScalingFactor q)" "unat (ScalingFactor q) \<le> unat (100 :: uint64)"
    by (simp_all add: word_less_nat_alt word_le_nat_alt)
  then show ?thesis by simp
qed

lemma status_response_error: "status_response f = (q, Some e) \<Longrightarrow> q = empty_response"
  by (auto simp: status_response_def Let_def split: option.splits if_splits)

lemma GetReplicas_result:
  assumes "ExternalServiceQuery_GetReplicas cd x fn ns s = (Val (q, err), s')"
  shows "(\<exists>f. status_response f = (q, err)) \<or> q = empty_response \<and> err \<noteq> None"
  using assms
  by (auto simp: ExternalServiceQuery_GetReplicas_def Let_def retp_run panicp_run elim!: bindp_ValE
      split: option.splits prod.splits sum.splits if_splits)

text \<open>The provider's contract, proved for the code's service query, with the calls logged.\<close>

lemma external_factor:
  assumes "GetReplicas (external_query cd x) fn ns s = (Val (q, None), s')"
  shows "1 \<le> unat (ScalingFactor q) \<and> unat (ScalingFactor q) \<le> 100"
  using GetReplicas_result [of cd x fn ns s q None s'] assms status_response_factor
  by (auto simp: external_query_def)

interpretation provider: autoscaled "lift_query (external_query cd x)" calls for cd x
  by unfold_locales (auto split: prod.splits dest: external_factor)

section \<open>Properties\<close>

text \<open>
  an answer of \<open>GetReplicas\<close> without an error carries a scaling factor from 1 to 100, so that
  the autoscaler's step is at least one replica; with an error it is the empty response.
\<close>

theorem GetReplicas_contract:
  assumes "ExternalServiceQuery_GetReplicas cd x fn ns s = (Val (q, err), s')"
  shows "if err = None then 1 \<le> unat (ScalingFactor q) \<and> unat (ScalingFactor q) \<le> 100 else q = empty_response"
  using GetReplicas_result [OF assms] status_response_factor status_response_error
  by (cases err) auto

text \<open>
  what a status becomes. The labels for the minimum and the maximum are read as decimal
  numbers and wrap around when negative, a missing or unreadable one is replaced by its default,
  and the desired and available counts and the annotations are passed on; the scaling factor must
  be from 1 to 100, otherwise the answer is an error.
\<close>

theorem status_response_labels:
  assumes "FLabels f = Some l" "l MinScaleLabel = Some (Itoa mn)" "l MaxScaleLabel = None"
    "l ScalingFactorLabel = Some (Itoa sf)" "- (2 ^ 63) \<le> mn" "mn < 2 ^ 63" "- (2 ^ 63) \<le> sf" "sf < 2 ^ 63"
  shows "status_response f =
    (if 1 \<le> sf \<and> sf \<le> 100
     then (\<lparr>Replicas = FReplicas f, MaxReplicas = 5, MinReplicas = word_of_int (mn mod 2 ^ 64),
            ScalingFactor = word_of_int sf, AvailableReplicas = FAvailableReplicas f, Annotations = FAnnotations f\<rparr>, None)
     else (empty_response, Some (''bad scaling factor: '' @ Itoa (sf mod 2 ^ 64) @ '', is not in range of [0 - 100]'')))"
proof -
  have ne: "Itoa v \<noteq> []" for v by (simp add: Itoa_def nat_digits_nonempty)
  have e: "extractLabelValue (Itoa v) d = word_of_int v" if "- (2 ^ 63) \<le> v" "v < 2 ^ 63" for v d
    using that ne by (simp add: extractLabelValue_def Atoi_Itoa)
  have u: "uint (word_of_int sf :: uint64) = sf mod 2 ^ 64" by (simp add: uint_word_of_int)
  have in_range: "(0 < (word_of_int sf :: uint64) \<and> (word_of_int sf :: uint64) \<le> 100) = (1 \<le> sf \<and> sf \<le> 100)"
  proof -
    have "sf mod 2 ^ 64 = (if 0 \<le> sf then sf else sf + 2 ^ 64)"
      using assms(7,8) mod_pos_pos_trivial [of sf "2 ^ 64"] mod_pos_pos_trivial [of "sf + 2 ^ 64" "2 ^ 64"] by auto
    then show ?thesis using assms(7,8) by (auto simp: word_less_def word_le_def u)
  qed
  have m: "(word_of_int mn :: uint64) = word_of_int (mn mod 2 ^ 64)" by (simp add: word_of_int_eq_iff take_bit_eq_mod)
  show ?thesis
    using assms in_range
    by (simp add: status_response_def Let_def label_def e u m DefaultMaxReplicas_def extractLabelValue_def [of "[]"])
qed

text \<open>
  a provider that cannot be reached makes \<open>SetReplicas\<close> panic: after the error is logged, the
  status code of the nil response is read.
\<close>

theorem SetReplicas_panics_on_client_error:
  assumes "http_NewRequest ''POST'' (url_String (EURL x) @ ''system/scale-function/'' @ fn @ ''?namespace='' @ ns)
      (Some (marshal_scale cd \<lparr>ServiceName = fn, ReqReplicas = n, ReqNamespace = []\<rparr>, None)) = Some req"
    "injected cd (EAuth x) (Some req) = Some req'" "ProxyClient x req' s = (Val (None, Some e), s')"
  shows "ExternalServiceQuery_SetReplicas cd x fn ns n s = (Panic ''nil pointer dereference'', s')"
  using assms by (simp add: ExternalServiceQuery_SetReplicas_def Let_def panicp_run)

text \<open>
  otherwise \<open>SetReplicas\<close> reports success exactly for the answers 200 and 202 of the provider.
\<close>

theorem SetReplicas_success:
  assumes "http_NewRequest ''POST'' (url_String (EURL x) @ ''system/scale-function/'' @ fn @ ''?namespace='' @ ns)
      (Some (marshal_scale cd \<lparr>ServiceName = fn, ReqReplicas = n, ReqNamespace = []\<rparr>, None)) = Some req"
    "injected cd (EAuth x) (Some req) = Some req'" "ProxyClient x req' s = (Val (Some resp, None), s')"
  shows "\<exists>err. ExternalServiceQuery_SetReplicas cd x fn ns n s = (Val err, s')
    \<and> (err = None \<longleftrightarrow> StatusCode resp = 200 \<or> StatusCode resp = 202)"
  using assms by (simp add: ExternalServiceQuery_SetReplicas_def Let_def retp_run)

text \<open>
  the minimum from a label is not checked: with the label \<open>com.openfaas.scale.min: -1\<close> an alert
  that is no longer firing asks the provider for 18446744073709551615 replicas.
\<close>

theorem negative_minimum_scales_to_the_limit:
  assumes "FLabels f = Some l" "l MinScaleLabel = Some ''-1''" "status_response f = (q, None)"
    "Status a \<noteq> ''firing''"
  shows "unat (calculated a q) = 18446744073709551615"
proof -
  have "extractLabelValue ''-1'' d = - 1" for d
    by (simp add: extractLabelValue_def Atoi_def digit_val_def Let_def)
  then have "MinReplicas q = - 1"
    using assms(1-3) by (auto simp: status_response_def Let_def label_def split: if_splits)
  with assms(4) show ?thesis by (simp add: calculated_def CalculateReplicas_def Let_def unsigned_minus_1_eq_mask mask_eq_exp_minus_1)
qed

text \<open>
  C7: the autoscaler on the provider's service query. Whatever the provider answers, a run of the
  alerts that returns has made, for each alert in order, no call, one query, or a query and one
  scaling request; its errors are exactly those of the failed scaling requests, in order.
\<close>

theorem autoscaler_calls:
  assumes "handleAlerts req (lift_query (external_query cd x)) dns s = (Val errs, s')"
  shows "\<exists>css. calls s' = calls s @ concat css \<and> list_all2 (alert_calls dns) (Alerts req) css
    \<and> errs = concat (map set_error (concat css))"
  by (rule provider.handleAlerts_calls [OF assms])

text \<open>
  for a firing alert the count calculated from an answer of the provider is at most five, for
  every function whose maximum is not zero.
\<close>

theorem autoscaler_capped:
  fixes s :: "'w sstate"
  assumes "GetReplicas (external_query cd x) fn ns (sworld s) = (Val (q, None), w)" "1 \<le> unat (MaxReplicas q)"
    "Status a = ''firing''"
  shows "unat (calculated a q) \<le> 5"
proof -
  have "GetReplicas (lift_query (external_query cd x)) fn ns s
    = (Val (q, None), s\<lparr>sworld := w, calls := calls s @ [GetCall fn ns (Val (q, None))]\<rparr>)"
    using assms(1) by simp
  from provider.firing_capped [OF this assms(2,3)] show ?thesis .
qed

section \<open>Witnesses\<close>

text \<open>A provider that answers every query with the same status and every update with 202, or is down.\<close>

definition demo_codec :: codec where
  "demo_codec = \<lparr>basic_header = (\<lambda>u p. ''Basic''), unmarshal_status =
     (\<lambda>b. if b = ''x'' then Inr \<lparr>FReplicas = 2, FAvailableReplicas = 2, FLabels = None, FAnnotations = None\<rparr> else Inl ''bad''),
     marshal_scale = (\<lambda>r. ServiceName r)\<rparr>"

definition demo_external :: "nat ExternalServiceQuery" where
  "demo_external = NewExternalServiceQuery
     \<lparr>Scheme = ''http'', UHost = ''p:8080'', Path = ''/'', RawPath = [], RawQuery = []\<rparr>
     (\<lambda>r s. if s = 0 then (Val (None, Some ''refused''), 0)
        else (Val (Some \<lparr>StatusCode = (if Method r = ''GET'' then 200 else 202), RespHeader = (\<lambda>_. None),
          RespBody = Some (''x'', None)\<rparr>, None), s + 1)) None"

lemma demo_requests:
  "http_NewRequest ''GET'' ''http://p:8080/system/function/f?namespace=n&usage=false'' None \<noteq> None
   \<and> url_String (EURL demo_external) = ''http://p:8080/''"
  by code_simp

lemma demo_update: "case http_NewRequest ''POST'' ''http://p:8080/system/scale-function/f?namespace=n'' (Some (b, None)) of
    None \<Rightarrow> False | Some r \<Rightarrow> Method r = ''POST''"
  by (simp add: http_NewRequest_def is_token_char_def is_alnum_def, code_simp)

lemma demo_get: "ExternalServiceQuery_GetReplicas demo_codec demo_external ''f'' ''n'' 1
    = (Val (\<lparr>Replicas = 2, MaxReplicas = 5, MinReplicas = 1, ScalingFactor = 10, AvailableReplicas = 2, Annotations = None\<rparr>, None), 2)"
proof -
  obtain r where r: "http_NewRequest ''GET'' ''http://p:8080/system/function/f?namespace=n&usage=false'' None = Some r"
    using demo_requests by blast
  then have "Method r = ''GET''" by (auto simp: http_NewRequest_def split: option.splits if_splits)
  moreover have "url_String (EURL demo_external) @ ''system/function/'' @ ''f'' @ ''?namespace='' @ ''n'' @ ''&usage=''
      @ show_bool (IncludeUsage demo_external) = ''http://p:8080/system/function/f?namespace=n&usage=false''"
    using demo_requests by (simp add: demo_external_def NewExternalServiceQuery_def show_bool_def)
  ultimately show ?thesis using r
    by (simp add: ExternalServiceQuery_GetReplicas_def Let_def demo_external_def NewExternalServiceQuery_def injected_def
      demo_codec_def status_response_def retp_run DefaultMinReplicas_def DefaultMaxReplicas_def DefaultScalingFactor_def)
qed

lemma demo_post_request:
  obtains r where "http_NewRequest ''POST'' (url_String (EURL demo_external) @ ''system/scale-function/'' @ ''f'' @ ''?namespace='' @ ''n'')
      (Some (marshal_scale demo_codec \<lparr>ServiceName = ''f'', ReqReplicas = k, ReqNamespace = []\<rparr>, None)) = Some r"
    "injected demo_codec (EAuth demo_external) (Some r) = Some r" "Method r = ''POST''"
proof -
  obtain r where "http_NewRequest ''POST'' ''http://p:8080/system/scale-function/f?namespace=n''
      (Some (marshal_scale demo_codec \<lparr>ServiceName = ''f'', ReqReplicas = k, ReqNamespace = []\<rparr>, None)) = Some r" "Method r = ''POST''"
    using demo_update by (fastforce split: option.splits)
  then show thesis using that demo_requests
    by (simp add: injected_def demo_external_def NewExternalServiceQuery_def)
qed

lemma GetReplicas_contract_witness:
  "\<exists>q. ExternalServiceQuery_GetReplicas demo_codec demo_external ''f'' ''n'' 1 = (Val (q, None), 2)
    \<and> 1 \<le> unat (ScalingFactor q) \<and> unat (ScalingFactor q) \<le> 100"
  using GetReplicas_contract [OF demo_get] demo_get by auto

lemma status_response_labels_witness:
  "MinReplicas (fst (status_response \<lparr>FReplicas = 2, FAvailableReplicas = 2, FLabels = Some
      [MinScaleLabel \<mapsto> Itoa (- 2), ScalingFactorLabel \<mapsto> Itoa 20], FAnnotations = None\<rparr>)) = word_of_int (- 2 mod 2 ^ 64)"
  by (subst status_response_labels [where l = "[MinScaleLabel \<mapsto> Itoa (- 2), ScalingFactorLabel \<mapsto> Itoa 20]"
        and mn = "- 2" and sf = 20])
    (simp_all add: MinScaleLabel_def MaxScaleLabel_def ScalingFactorLabel_def)

lemma SetReplicas_panics_on_client_error_witness:
  "ExternalServiceQuery_SetReplicas demo_codec demo_external ''f'' ''n'' 3 0 = (Panic ''nil pointer dereference'', 0)"
proof -
  obtain r where r: "http_NewRequest ''POST'' (url_String (EURL demo_external) @ ''system/scale-function/'' @ ''f'' @ ''?namespace='' @ ''n'')
      (Some (marshal_scale demo_codec \<lparr>ServiceName = ''f'', ReqReplicas = 3, ReqNamespace = []\<rparr>, None)) = Some r"
    "injected demo_codec (EAuth demo_external) (Some r) = Some r" by (rule demo_post_request)
  show ?thesis by (rule SetReplicas_panics_on_client_error [OF r])
    (simp add: demo_external_def NewExternalServiceQuery_def)
qed

lemma SetReplicas_success_witness:
  "\<exists>err. ExternalServiceQuery_SetReplicas demo_codec demo_external ''f'' ''n'' 3 4 = (Val err, 5) \<and> err = None"
proof -
  obtain r where r: "http_NewRequest ''POST'' (url_String (EURL demo_external) @ ''system/scale-function/'' @ ''f'' @ ''?namespace='' @ ''n'')
      (Some (marshal_scale demo_codec \<lparr>ServiceName = ''f'', ReqReplicas = 3, ReqNamespace = []\<rparr>, None)) = Some r"
    "injected demo_codec (EAuth demo_external) (Some r) = Some r" "Method r = ''POST''" by (rule demo_post_request)
  have "ProxyClient demo_external r 4 = (Val (Some \<lparr>StatusCode = 202, RespHeader = (\<lambda>_. None), RespBody = Some (''x'', None)\<rparr>, None), 5)"
    using r(3) by (simp add: demo_external_def NewExternalServiceQuery_def)
  from SetReplicas_success [OF r(1,2) this] show ?thesis by auto
qed

lemma negative_minimum_scales_to_the_limit_witness:
  "\<exists>q. status_response \<lparr>FReplicas = 2, FAvailableReplicas = 2, FLabels = Some [MinScaleLabel \<mapsto> ''-1''], FAnnotations = None\<rparr> = (q, None)
    \<and> unat (calculated (demo_alert\<lparr>Status := ''resolved''\<rparr>) q) = 18446744073709551615"
proof -
  let ?f = "\<lparr>FReplicas = 2, FAvailableReplicas = 2, FLabels = Some [MinScaleLabel \<mapsto> ''-1''], FAnnotations = None\<rparr>"
  obtain q where q: "status_response ?f = (q, None)"
    by (simp add: status_response_def Let_def label_def MinScaleLabel_def ScalingFactorLabel_def
      extractLabelValue_def [of "[]"] DefaultScalingFactor_def)
  show ?thesis
    using negative_minimum_scales_to_the_limit [where f = ?f and q = q and a = "demo_alert\<lparr>Status := ''resolved''\<rparr>"] q by simp
qed

definition demo_sstate :: "nat sstate" where
  "demo_sstate = \<lparr>fcache = NewFunctionCache 0, calls = [], sworld = 1\<rparr>"

lemma autoscaler_capped_witness:
  "\<exists>q. fst (GetReplicas (external_query demo_codec demo_external) ''f'' ''n'' (sworld demo_sstate)) = Val (q, None)
    \<and> unat (calculated demo_alert q) \<le> 5"
proof -
  have g: "GetReplicas (external_query demo_codec demo_external) ''f'' ''n'' (sworld demo_sstate)
    = (Val (\<lparr>Replicas = 2, MaxReplicas = 5, MinReplicas = 1, ScalingFactor = 10, AvailableReplicas = 2, Annotations = None\<rparr>, None), 2)"
    using demo_get by (simp add: external_query_def demo_sstate_def)
  from autoscaler_capped [OF this, of demo_alert] g show ?thesis by (simp add: demo_alert_def)
qed

lemma autoscaler_calls_witness:
  "\<exists>css. calls (snd (handleAlerts (demo_alerts\<lparr>Alerts := [demo_alert\<lparr>Labels := \<lparr>AlertName = ''a'', FunctionName = ''f.n''\<rparr>\<rparr>]\<rparr>)
       (lift_query (external_query demo_codec demo_external)) ''d'' demo_sstate)) = concat css \<and> length css = 1"
proof -
  let ?a = "demo_alert\<lparr>Labels := \<lparr>AlertName = ''a'', FunctionName = ''f.n''\<rparr>\<rparr>"
  let ?Q = "lift_query (external_query demo_codec demo_external)"
  have n: "GetNamespace ''d'' ''f.n'' = (''f'', ''n'')" by code_simp
  have c: "CalculateReplicas ''firing'' 2 5 1 10 = 3"
    using unat_calculate [of 10 2 "''firing''" 5 1] by (simp add: step_for_def word_unat_eq_iff)
  obtain err where "ExternalServiceQuery_SetReplicas demo_codec demo_external ''f'' ''n'' 3 2 = (Val err, 3)"
  proof -
    obtain r where r: "http_NewRequest ''POST'' (url_String (EURL demo_external) @ ''system/scale-function/'' @ ''f'' @ ''?namespace='' @ ''n'')
        (Some (marshal_scale demo_codec \<lparr>ServiceName = ''f'', ReqReplicas = 3, ReqNamespace = []\<rparr>, None)) = Some r"
      "injected demo_codec (EAuth demo_external) (Some r) = Some r" "Method r = ''POST''" by (rule demo_post_request)
    have "ProxyClient demo_external r 2 = (Val (Some \<lparr>StatusCode = 202, RespHeader = (\<lambda>_. None), RespBody = Some (''x'', None)\<rparr>, None), 3)"
      using r(3) by (simp add: demo_external_def NewExternalServiceQuery_def)
    with r that show thesis by (simp add: ExternalServiceQuery_SetReplicas_def Let_def retp_run)
  qed
  then obtain errs s' where run: "handleAlerts (demo_alerts\<lparr>Alerts := [?a]\<rparr>) ?Q ''d'' demo_sstate = (Val errs, s')"
    using demo_get c n
    by (auto simp: handleAlerts_def demo_alerts_def demo_alert_def scaleService_def external_query_def demo_sstate_def
      bindp_run retp_run)
  from autoscaler_calls [OF run] run show ?thesis by (auto simp: demo_sstate_def list_all2_Cons1)
qed

end
