(* ===== verification/ScaleRange.thy ===== *)
theory ScaleRange
  imports ScalingTypes GoHttp
begin

text \<open>
  Package \<open>scaling\<close>, file \<open>ranges.go\<close>: the handler in front of the provider's scale endpoint that
  keeps the requested count within the limits of the edition. Its constants are in theory
  ScalingTypes; encoding and decoding JSON are parameters, for which theory JsonCodecs has the library's.
\<close>

definition clamp_replicas :: "uint64 \<Rightarrow> uint64" where
  "clamp_replicas n =
     (let n1 = (if n < 1 then 1 else n)
      in if n1 > word_of_int DefaultMaxReplicas then word_of_int DefaultMaxReplicas else n1)"

definition MakeHorizontalScalingHandler ::
  "(string \<Rightarrow> ScaleServiceRequest option) \<Rightarrow> (ScaleServiceRequest \<Rightarrow> string) \<Rightarrow> 'w handler \<Rightarrow> 'w handler" where
  "MakeHorizontalScalingHandler unmarshal marshal nxt r =
     (if Method r \<noteq> ''POST'' then http_Error ''Only POST is allowed'' StatusMethodNotAllowed
      else case Body r of
        None \<Rightarrow> http_Error ''Error reading request body'' StatusBadRequest
      | Some (body, Some e) \<Rightarrow> http_Error ''Error reading request body'' StatusBadRequest
      | Some (body, None) \<Rightarrow> (case unmarshal body of
          None \<Rightarrow> http_Error ''Error unmarshalling request body'' StatusBadRequest
        | Some scaleRequest \<Rightarrow>
            (let upstreamReq = marshal (scaleRequest\<lparr>ReqReplicas := clamp_replicas (ReqReplicas scaleRequest)\<rparr>)
             in nxt (r\<lparr>Body := Some (upstreamReq, None)\<rparr>))))"

lemma unat_clamp: "unat (clamp_replicas n) = max 1 (min 5 (unat n))"
  by (auto simp: clamp_replicas_def Let_def DefaultMaxReplicas_def word_less_nat_alt max_def min_def)

text \<open>
  whatever count a request asks for, the provider is sent a request for the same function with
  that count brought between 1 and 5; method, URL and header of the request stay as they are.
\<close>

theorem horizontal_scaling_in_range:
  assumes "Method r = ''POST''" "Body r = Some (b, None)" "unmarshal b = Some req"
  shows "\<exists>n. MakeHorizontalScalingHandler unmarshal marshal nxt r
      = nxt (r\<lparr>Body := Some (marshal (req\<lparr>ReqReplicas := n\<rparr>), None)\<rparr>)
    \<and> unat n = max 1 (min 5 (unat (ReqReplicas req)))"
  using assms unat_clamp by (auto simp: MakeHorizontalScalingHandler_def Let_def)

text \<open>
  a request that is not a POST is answered 405 and one whose body is missing, unreadable or not
  a scale request 400; the provider is not asked then.
\<close>

theorem horizontal_scaling_rejects:
  assumes "rw_sent (rw s) = None"
    "Method r \<noteq> ''POST'' \<or> (case Body r of Some (b, None) \<Rightarrow> unmarshal b = None | _ \<Rightarrow> True)"
  shows "\<exists>t. MakeHorizontalScalingHandler unmarshal marshal nxt r s = (Val (), t) \<and> hworld t = hworld s
    \<and> final_status (rw t) = (if Method r \<noteq> ''POST'' then 405 else 400)"
proof -
  have e: "\<exists>t. http_Error m c s = (Val (), t) \<and> hworld t = hworld s \<and> final_status (rw t) = c"
    if "200 \<le> c" "c \<le> 999" for m c using http_Error_run [OF assms(1) that] by blast
  show ?thesis using assms(2) e
    by (auto simp: MakeHorizontalScalingHandler_def split: option.splits prod.splits)
qed

section \<open>Witnesses\<close>

text \<open>A provider whose world is the last body it was sent.\<close>

definition demo_upstream :: "string handler" where
  "demo_upstream r = on_hworld (modifyp (\<lambda>_. case Body r of Some (b, _) \<Rightarrow> b | None \<Rightarrow> []))"

definition demo_scale_request :: "string \<Rightarrow> request" where
  "demo_scale_request m = \<lparr>Method = m, URL = \<lparr>Scheme = [], UHost = [], Path = ''/system/scale-function/f'', RawPath = [], RawQuery = []\<rparr>,
     Header = (\<lambda>_. None), RHost = [], RemoteAddr = [], Body = Some (''x'', None), RVars = (\<lambda>_. None)\<rparr>"

definition demo_marshal :: "ScaleServiceRequest \<Rightarrow> string" where
  "demo_marshal q = ServiceName q @ '':'' @ Itoa (uint (ReqReplicas q))"

definition demo_decode :: "string \<Rightarrow> ScaleServiceRequest option" where
  "demo_decode b = Some \<lparr>ServiceName = b, ReqReplicas = 200, ReqNamespace = []\<rparr>"

lemma horizontal_scaling_in_range_witness:
  "hworld (snd (MakeHorizontalScalingHandler demo_decode demo_marshal demo_upstream (demo_scale_request ''POST'')
     \<lparr>rw = new_writer, hworld = []\<rparr>)) = ''x:5''"
proof -
  obtain n where "MakeHorizontalScalingHandler demo_decode demo_marshal demo_upstream (demo_scale_request ''POST'')
      = demo_upstream ((demo_scale_request ''POST'')\<lparr>Body := Some (demo_marshal
          (\<lparr>ServiceName = ''x'', ReqReplicas = 200, ReqNamespace = []\<rparr>\<lparr>ReqReplicas := n\<rparr>), None)\<rparr>)"
    and "unat n = 5"
    using horizontal_scaling_in_range [where r = "demo_scale_request ''POST''" and b = "''x''" and unmarshal = demo_decode
        and marshal = demo_marshal and nxt = demo_upstream
        and req = "\<lparr>ServiceName = ''x'', ReqReplicas = 200, ReqNamespace = []\<rparr>"]
    by (auto simp: demo_scale_request_def demo_decode_def)
  moreover from this(2) have "n = 5" by (simp add: word_unat_eq_iff)
  moreover have "Itoa 5 = ''5''" by code_simp
  ultimately show ?thesis by (simp add: demo_upstream_def on_hworld_run modifyp_run demo_marshal_def)
qed

lemma horizontal_scaling_rejects_witness:
  "final_status (rw (snd (MakeHorizontalScalingHandler demo_decode demo_marshal demo_upstream (demo_scale_request ''GET'')
     \<lparr>rw = new_writer, hworld = []\<rparr>))) = 405"
  using horizontal_scaling_rejects [where r = "demo_scale_request ''GET''" and unmarshal = demo_decode
      and marshal = demo_marshal and nxt = demo_upstream and s = "\<lparr>rw = new_writer, hworld = []\<rparr>"]
  by (auto simp: new_writer_def demo_scale_request_def)

end
