(* ===== verification/FunctionQuery.thy ===== *)
theory FunctionQuery
  imports FunctionCache
begin

text \<open>
  Package \<open>scaling\<close>, file \<open>function_query.go\<close>: service queries behind a cache.
\<close>

record 's CachedFunctionQuery =
  cache :: "'s FunctionCacher"
  serviceQuery :: "'s ServiceQuery"
  emptyAnnotations :: "string \<Rightarrow> string option"

definition NewCachedFunctionQuery :: "'s FunctionCacher \<Rightarrow> 's ServiceQuery \<Rightarrow> 's CachedFunctionQuery" where
  "NewCachedFunctionQuery c q =
     \<lparr>cache = c, serviceQuery = q, emptyAnnotations = Map.empty\<rparr>"

text \<open>
  \<open>Get\<close>: the provider is asked only on a cache miss. The result of a query is never nil, so
  the code's nil check always stores it.
\<close>

definition CachedFunctionQuery_Get ::
  "'s CachedFunctionQuery \<Rightarrow> string \<Rightarrow> string \<Rightarrow> ('s, ServiceQueryResponse \<times> goerror) prog" where
  "CachedFunctionQuery_Get c fn ns =
     bindp (CGet (cache c) fn ns) (\<lambda>(query, hit).
       if \<not> hit then
         bindp (Do (getKey fn ns) (GetReplicas (serviceQuery c) fn ns)) (\<lambda>(queryResponse, err).
           case err of
             Some e \<Rightarrow> retp (empty_response, Some e)
           | None \<Rightarrow>
               bindp (CSet (cache c) fn ns queryResponse) (\<lambda>_.
               bindp (CGet (cache c) fn ns) (\<lambda>(query, hit).
                 if \<not> hit
                 then retp (empty_response, Some (''error with cache key: '' @ fn @ ''.'' @ ns))
                 else retp (query, None))))
       else retp (query, None))"

definition CachedFunctionQuery_GetAnnotations ::
  "'s CachedFunctionQuery \<Rightarrow> string \<Rightarrow> string \<Rightarrow> ('s, (string \<Rightarrow> string option) \<times> goerror) prog" where
  "CachedFunctionQuery_GetAnnotations c name namespace =
     bindp (CachedFunctionQuery_Get c name namespace) (\<lambda>(res, err).
       case err of
         Some e \<Rightarrow> retp (emptyAnnotations c, Some e)
       | None \<Rightarrow>
           (case Annotations res of
              None \<Rightarrow> retp (emptyAnnotations c, None)
            | Some as \<Rightarrow> retp (as, None)))"

section \<open>What a query through the cache answers\<close>

text \<open>
  A client of the cacher contract. \<open>log\<close> is the list of provider calls made so far: the
  cache makes none, a query makes one and does not touch the cache.
\<close>

locale cached_query = function_cacher C entry
  for C :: "'s FunctionCacher" and entry +
  fixes Q :: "'s ServiceQuery" and log :: "'s \<Rightarrow> call list"
  assumes query_keeps: "GetReplicas Q fn ns s = (v, s') \<Longrightarrow> entry s' = entry s"
    and query_log: "GetReplicas Q fn ns s = (v, s') \<Longrightarrow> log s' = log s @ [GetCall fn ns v]"
    and get_log: "CGet C fn ns s = (x, s') \<Longrightarrow> log s' = log s"
    and set_log: "CSet C fn ns q s = (u, s') \<Longrightarrow> log s' = log s"
begin

abbreviation cq :: "'s CachedFunctionQuery" where
  "cq \<equiv> NewCachedFunctionQuery C Q"

lemma cq_sel: "cache cq = C" "serviceQuery cq = Q"
  by (simp_all add: NewCachedFunctionQuery_def)

lemma Get_hit:
  assumes "CGet C fn ns s = (Val (q, True), s')"
  shows "CachedFunctionQuery_Get cq fn ns s = (Val (q, None), s')"
  using assms by (simp add: CachedFunctionQuery_Get_def cq_sel retp_run)

lemma Get_miss:
  assumes "CGet C fn ns s = (Val (q, False), s1)"
  shows "CachedFunctionQuery_Get cq fn ns s =
    bindp (GetReplicas Q fn ns) (\<lambda>(r, err).
       case err of Some e \<Rightarrow> retp (empty_response, Some e)
       | None \<Rightarrow> bindp (CSet C fn ns r) (\<lambda>_. bindp (CGet C fn ns) (\<lambda>(q, hit).
           if \<not> hit then retp (empty_response, Some (''error with cache key: '' @ fn @ ''.'' @ ns))
           else retp (q, None)))) s1"
  using assms by (simp add: CachedFunctionQuery_Get_def cq_sel)

text \<open>
  The outcomes of a query: a fresh entry, an error of the provider, the provider's answer
  stored and read back, or stored but stale before it could be read back.
\<close>

lemma Get_cases:
  assumes run: "CachedFunctionQuery_Get cq fn ns s = (Val (r, err), t)"
  shows "err = None \<and> entry s (cache_key fn ns) = Some r \<and> entry t = entry s \<and> log t = log s
    \<or> (\<exists>e q. err = Some e \<and> r = empty_response \<and> entry t = entry s
         \<and> log t = log s @ [GetCall fn ns (Val (q, Some e))])
    \<or> err = None \<and> entry t = (entry s)(cache_key fn ns \<mapsto> r)
         \<and> log t = log s @ [GetCall fn ns (Val (r, None))]
    \<or> (\<exists>q. err = Some (''error with cache key: '' @ fn @ ''.'' @ ns) \<and> r = empty_response
         \<and> entry t = (entry s)(cache_key fn ns \<mapsto> q)
         \<and> log t = log s @ [GetCall fn ns (Val (q, None))])"
proof (cases rule: get_cases [of fn ns s])
  case (1 q s')
  with run have "q = r" "err = None" "t = s'" by (simp_all add: Get_hit)
  with 1 show ?thesis using get_log by blast
next
  case (2 q s1)
  note run' = run [unfolded Get_miss [OF 2(1)]]
  from run' obtain x e s2 where g: "GetReplicas Q fn ns s1 = (Val (x, e), s2)"
    by (auto elim!: bindp_ValE)
  have k2: "entry s2 = entry s" "log s2 = log s @ [GetCall fn ns (Val (x, e))]"
    using query_keeps [OF g] query_log [OF g] 2 get_log by auto
  show ?thesis
  proof (cases e)
    case (Some m)
    with run' g have "err = Some m" "r = empty_response" "t = s2" by (simp_all add: retp_run)
    with k2 Some show ?thesis by blast
  next
    case None
    obtain s3 where s3: "CSet C fn ns x s2 = (Val (), s3)"
      and e3: "entry s3 = (entry s2)(cache_key fn ns \<mapsto> x)" by (rule set_cases)
    have l3: "log s3 = log s2" by (rule set_log [OF s3])
    show ?thesis
    proof (cases rule: get_cases [of fn ns s3])
      case (1 q' s4)
      with run' g None s3 have "r = q'" "err = None" "t = s4" by (simp_all add: retp_run)
      moreover have "q' = x" using 1(2) e3 by simp
      ultimately show ?thesis using k2 None e3 l3 1 get_log [OF 1(1)] by simp
    next
      case (2 q' s4)
      with run' g None s3 have "r = empty_response" "t = s4"
        "err = Some (''error with cache key: '' @ fn @ ''.'' @ ns)" by (simp_all add: retp_run)
      with k2 None e3 l3 2 get_log [OF 2(1)] show ?thesis by auto
    qed
  qed
qed

end

text \<open>
  The gateway's cache in front of any provider meets the contract.
\<close>

interpretation fquery: cached_query "cacher_of env" stored "lift_query q" calls for env q
  by unfold_locales
    (auto simp: stored_def go_simps fun_eq_iff split: prod.splits option.splits)

abbreviation gateway_query :: "'w Env \<Rightarrow> 'w ServiceQuery \<Rightarrow> 'w sstate CachedFunctionQuery" where
  "gateway_query env q \<equiv> NewCachedFunctionQuery (cacher_of env) (lift_query q)"

text \<open>
  an answer without an error is either the stored response, given without a call to the
  provider, or the response of the one call made, which is now stored.
\<close>

theorem CachedFunctionQuery_Get_sound:
  assumes "CachedFunctionQuery_Get (gateway_query env Q) fn ns s = (Val (r, None), t)"
  shows "stored s (cache_key fn ns) = Some r \<and> stored t = stored s \<and> calls t = calls s
    \<or> stored t = (stored s)(cache_key fn ns \<mapsto> r)
       \<and> calls t = calls s @ [GetCall fn ns (Val (r, None))]"
  using fquery.Get_cases [OF assms] by simp

theorem CachedFunctionQuery_Get_sound_witness:
  "\<exists>t. CachedFunctionQuery_Get
      (gateway_query \<lparr>Now = (\<lambda>w. (w, w + 1)), Sleep = (\<lambda>d w. w + d)\<rparr>
        \<lparr>GetReplicas = (\<lambda>fn ns w. (Val (empty_response\<lparr>Replicas := 2\<rparr>, None), w)),
         SetReplicas = (\<lambda>fn ns n w. (Val None, w))\<rparr>)
      ''echo'' ''fn'' \<lparr>fcache = NewFunctionCache 250, calls = [], sworld = (0 :: int)\<rparr>
    = (Val (empty_response\<lparr>Replicas := 2\<rparr>, None), t)
    \<and> calls t = [GetCall ''echo'' ''fn'' (Val (empty_response\<lparr>Replicas := 2\<rparr>, None))]"
proof -
  let ?env = "\<lparr>Now = (\<lambda>w. (w, w + 1)), Sleep = (\<lambda>d w. w + d)\<rparr> :: int Env"
  let ?q = "\<lparr>GetReplicas = (\<lambda>fn ns w. (Val (empty_response\<lparr>Replicas := 2\<rparr>, None), w)),
    SetReplicas = (\<lambda>fn ns n w. (Val None, w))\<rparr> :: int ServiceQuery"
  let ?s = "\<lparr>fcache = NewFunctionCache 250, calls = [], sworld = (0 :: int)\<rparr>"
  obtain t where run: "CachedFunctionQuery_Get (gateway_query ?env ?q) ''echo'' ''fn'' ?s
      = (Val (empty_response\<lparr>Replicas := 2\<rparr>, None), t)"
    by (simp add: CachedFunctionQuery_Get_def NewCachedFunctionQuery_def NewFunctionCache_def
        go_simps cache_Set_eq expired_at_def)
  from CachedFunctionQuery_Get_sound [OF run]
  have "calls t = [GetCall ''echo'' ''fn'' (Val (empty_response\<lparr>Replicas := 2\<rparr>, None))]"
    by (simp add: stored_def NewFunctionCache_def)
  with run show ?thesis by blast
qed

text \<open>
  an error always comes with an empty response, and it is the provider's error of the
  one call made (which is then not stored) or reports that the response just stored was
  stale already on being read back.
\<close>

theorem CachedFunctionQuery_Get_error:
  assumes "CachedFunctionQuery_Get (gateway_query env Q) fn ns s = (Val (r, Some e), t)"
  shows "r = empty_response \<and> (\<exists>q.
      stored t = stored s \<and> calls t = calls s @ [GetCall fn ns (Val (q, Some e))]
    \<or> e = ''error with cache key: '' @ fn @ ''.'' @ ns \<and> stored t = (stored s)(cache_key fn ns \<mapsto> q)
       \<and> calls t = calls s @ [GetCall fn ns (Val (q, None))])"
  using fquery.Get_cases [OF assms] by auto

theorem CachedFunctionQuery_Get_error_witness:
  "\<exists>r t. CachedFunctionQuery_Get
      (gateway_query \<lparr>Now = (\<lambda>w. (w, w + 1)), Sleep = (\<lambda>d w. w + d)\<rparr>
        \<lparr>GetReplicas = (\<lambda>fn ns w. (Val (empty_response, Some ''refused''), w)),
         SetReplicas = (\<lambda>fn ns n w. (Val None, w))\<rparr>)
      ''echo'' ''fn'' \<lparr>fcache = NewFunctionCache 250, calls = [], sworld = (0 :: int)\<rparr>
    = (Val (r, Some ''refused''), t) \<and> r = empty_response"
proof -
  let ?env = "\<lparr>Now = (\<lambda>w. (w, w + 1)), Sleep = (\<lambda>d w. w + d)\<rparr> :: int Env"
  let ?q = "\<lparr>GetReplicas = (\<lambda>fn ns w. (Val (empty_response, Some ''refused''), w)),
    SetReplicas = (\<lambda>fn ns n w. (Val None, w))\<rparr> :: int ServiceQuery"
  let ?s = "\<lparr>fcache = NewFunctionCache 250, calls = [], sworld = (0 :: int)\<rparr>"
  obtain r t where run: "CachedFunctionQuery_Get (gateway_query ?env ?q) ''echo'' ''fn'' ?s
      = (Val (r, Some ''refused''), t)"
    by (simp add: CachedFunctionQuery_Get_def NewCachedFunctionQuery_def NewFunctionCache_def go_simps)
  with CachedFunctionQuery_Get_error [OF run] show ?thesis by blast
qed

section \<open>Annotations\<close>

lemma GetAnnotations_run:
  "CachedFunctionQuery_GetAnnotations c name ns s =
     (case CachedFunctionQuery_Get c name ns s of
        (Panic m, t) \<Rightarrow> (Panic m, t)
      | (Val (res, Some e), t) \<Rightarrow> (Val (emptyAnnotations c, Some e), t)
      | (Val (res, None), t) \<Rightarrow>
          (Val (case Annotations res of None \<Rightarrow> emptyAnnotations c | Some as \<Rightarrow> as, None), t))"
  by (auto simp: CachedFunctionQuery_GetAnnotations_def bindp_run retp_run
      split: go.splits option.splits prod.splits)

end
