(* ===== verification/Retry.thy ===== *)
theory Retry
  imports ScalingTypes
begin

text \<open>
  Package \<open>types\<close>, file \<open>retry.go\<close>: run a routine until it succeeds, at most a number of
  times, sleeping after every failure.
\<close>

text \<open>
  The loop of \<open>Retry\<close>: \<open>i\<close> is the loop variable, the \<open>nat\<close> argument what is left of
  \<open>attempts - i\<close>, and \<open>err\<close> the local variable of that name.
\<close>

fun retry_loop :: "'s Env \<Rightarrow> (int \<Rightarrow> ('s, goerror) prog) \<Rightarrow> duration \<Rightarrow> int \<Rightarrow> nat \<Rightarrow> goerror
    \<Rightarrow> ('s, goerror) prog" where
  "retry_loop env r interval i 0 err = retp err"
| "retry_loop env r interval i (Suc n) err =
     bindp (r i) (\<lambda>res.
       case res of
         Some e \<Rightarrow> bindp (time_Sleep env interval) (\<lambda>_. retry_loop env r interval (i + 1) n (Some e))
       | None \<Rightarrow> retp None)"

definition Retry :: "'s Env \<Rightarrow> (int \<Rightarrow> ('s, goerror) prog) \<Rightarrow> string \<Rightarrow> int \<Rightarrow> duration
    \<Rightarrow> ('s, goerror) prog" where
  "Retry env r label attempts interval = retry_loop env r interval 0 (nat attempts) None"

section \<open>What a routine keeps, the loop keeps\<close>

lemma retry_loop_step_rel:
  assumes R: "reflp R" "transp R" and r: "\<And>i. step_rel R (r i)"
    and sleep: "\<And>d. step_rel R (time_Sleep env d)"
  shows "step_rel R (retry_loop env r interval i n err)"
proof (induction n arbitrary: i err)
  case 0
  then show ?case by (simp add: step_rel_retp [OF R(1)])
next
  case (Suc n)
  show ?case
    using R Suc by (auto intro!: step_rel_bindp r sleep step_rel_retp split: option.split)
qed

lemma retry_loop_cost:
  assumes r: "\<And>i. cost_le c k (r i)" and sleep: "\<And>d. cost_le c 0 (time_Sleep env d)"
  shows "cost_le c (n * k) (retry_loop env r interval i n err)"
proof (induction n arbitrary: i err)
  case 0
  then show ?case by (simp add: cost_le_retp)
next
  case (Suc n)
  have "cost_le c (k + n * k) (retry_loop env r interval i (Suc n) err)"
    unfolding retry_loop.simps
    by (rule cost_le_bindp [OF r])
      (auto intro: cost_le_retp cost_le_bindp0 [OF sleep Suc.IH] split: option.split)
  then show ?case by simp
qed

section \<open>Outcome\<close>

text \<open>
  The outcome for a routine whose \<open>i\<close>th attempt fails with \<open>f i\<close> (or succeeds, \<open>None\<close>): the
  first success ends the loop; without one the error of the last attempt is returned. The
  second component counts the attempts made.
\<close>

definition retry_spec :: "(int \<Rightarrow> goerror) \<Rightarrow> nat \<Rightarrow> goerror \<times> nat" where
  "retry_spec f n =
     (case find (\<lambda>i. f (int i) = None) [0..<n] of
        Some k \<Rightarrow> (None, Suc k)
      | None \<Rightarrow> (if n = 0 then None else f (int n - 1), n))"

lemma find_map_Suc: "find P (map Suc xs) = map_option Suc (find (\<lambda>i. P (Suc i)) xs)"
  by (induction xs) auto

lemma retry_spec_Suc:
  "retry_spec (\<lambda>j. f (i + j)) (Suc n) =
     (if f i = None then (None, 1)
      else (if n = 0 then f i else fst (retry_spec (\<lambda>j. f (i + 1 + j)) n),
            Suc (snd (retry_spec (\<lambda>j. f (i + 1 + j)) n))))"
proof -
  have "[0..<Suc n] = 0 # map Suc [0..<n]"
    by (simp only: upt_conv_Cons map_Suc_upt zero_less_Suc)
  then show ?thesis
    by (auto simp: retry_spec_def find_map_Suc ac_simps split: option.splits)
qed

lemma retry_loop_outcome:
  assumes r: "\<And>i s. \<exists>s'. r i s = (Val (f i), s') \<and> cnt s' = Suc (cnt s)"
    and sleep: "\<And>d s. cnt (Sleep env d s) = cnt s"
  shows "\<exists>s'. retry_loop env r interval i n err s =
      (Val (if n = 0 then err else fst (retry_spec (\<lambda>j. f (i + j)) n)), s')
    \<and> cnt s' = cnt s + snd (retry_spec (\<lambda>j. f (i + j)) n)"
proof (induction n arbitrary: i err s)
  case 0
  then show ?case by (simp add: retry_spec_def retp_run)
next
  case (Suc n)
  obtain s1 where s1: "r i s = (Val (f i), s1)" "cnt s1 = Suc (cnt s)" using r by blast
  show ?case
  proof (cases "f i")
    case None
    with s1 show ?thesis by (simp add: retry_spec_Suc retp_run)
  next
    case (Some e)
    obtain s2 where s2: "retry_loop env r interval (i + 1) n (Some e) (Sleep env interval s1) =
        (Val (if n = 0 then Some e else fst (retry_spec (\<lambda>j. f (i + 1 + j)) n)), s2)"
      "cnt s2 = cnt (Sleep env interval s1) + snd (retry_spec (\<lambda>j. f (i + 1 + j)) n)"
      using Suc.IH by blast
    have "retry_loop env r interval i (Suc n) err s =
        retry_loop env r interval (i + 1) n (Some e) (Sleep env interval s1)"
      using s1 Some by (simp add: bindp_run time_Sleep_run)
    with s1 s2 Some show ?thesis by (simp add: retry_spec_Suc sleep del: retry_loop.simps)
  qed
qed

text \<open>
  C32: \<open>Retry\<close> stops at the first attempt that succeeds and then reports success; when every
  attempt fails it has made exactly \<open>attempts\<close> of them and reports the error of the last.
  With no attempts at all it reports success.
\<close>

theorem Retry_correct:
  assumes "\<And>i s. \<exists>s'. r i s = (Val (f i), s') \<and> cnt s' = Suc (cnt s)"
    and "\<And>d s. cnt (Sleep env d s) = cnt s"
  shows "\<exists>s'. Retry env r label attempts interval s =
      (Val (fst (retry_spec f (nat attempts))), s')
    \<and> cnt s' = cnt s + snd (retry_spec f (nat attempts))"
proof -
  have "fst (retry_spec f 0) = None" by (simp add: retry_spec_def)
  then show ?thesis
    using retry_loop_outcome [where r = r and f = f and cnt = cnt and env = env
        and interval = interval and i = 0 and n = "nat attempts" and err = None and s = s, OF assms]
    by (auto simp: Retry_def split: if_splits)
qed

theorem Retry_correct_witness:
  "\<exists>s'. Retry \<lparr>Now = (\<lambda>s. (0, s)), Sleep = (\<lambda>d s. s)\<rparr>
      (\<lambda>i n. (Val (if i < 4 then Some ''not yet'' else None), Suc n)) ''test'' 10 5 (0 :: nat)
    = (Val None, s') \<and> s' = 5"
proof -
  have "retry_spec (\<lambda>i. if i < 4 then Some ''not yet'' else None) 10 = (None, 5)"
    by code_simp
  then show ?thesis
    using Retry_correct [of "\<lambda>i n. (Val (if i < 4 then Some ''not yet'' else None), Suc n)"
        "\<lambda>i. if i < 4 then Some ''not yet'' else None" id
        "\<lparr>Now = (\<lambda>s. (0, s)), Sleep = (\<lambda>d s. s)\<rparr>" "''test''" 10 5 0]
    by simp
qed

end
