(* ===== verification/FunctionScaler.thy ===== *)
theory FunctionScaler
  imports FunctionQuery Retry
begin

text \<open>
  Package \<open>scaling\<close>, file \<open>function_scaler.go\<close>: scaling a function from zero. \<open>Scale\<close> looks
  in the cache, asks the provider, requests a scale up in a retry loop when nothing is
  wanted yet, and then polls until a replica is available.
\<close>

section \<open>The scaler\<close>

record FunctionScaleResult =
  Available :: bool
  Error :: goerror
  Found :: bool
  Duration :: duration

record 's FunctionScaler =
  ScalerCache :: "'s FunctionCacher"
  Config :: "'s ScalingConfig"

definition NewFunctionScaler :: "'s ScalingConfig \<Rightarrow> 's FunctionCacher \<Rightarrow> 's FunctionScaler" where
  "NewFunctionScaler config functionCacher = \<lparr>ScalerCache = functionCacher, Config = config\<rparr>"

text \<open>Every return of \<open>Scale\<close>: the result with the time since the start.\<close>

definition scale_result :: "'s Env \<Rightarrow> instant \<Rightarrow> goerror \<Rightarrow> bool \<Rightarrow> bool \<Rightarrow> ('s, FunctionScaleResult) prog" where
  "scale_result env start err available found =
     bindp (time_Since env start) (\<lambda>d.
       retp \<lparr>Available = available, Error = err, Found = found, Duration = d\<rparr>)"

text \<open>The routine that \<open>Retry\<close> runs.\<close>

definition scale_attempt :: "'s FunctionScaler \<Rightarrow> string \<Rightarrow> string \<Rightarrow> uint64 \<Rightarrow> int \<Rightarrow> ('s, goerror) prog" where
  "scale_attempt f functionName namespace minReplicas attempt =
     bindp (Do (getKey functionName namespace)
         (GetReplicas (ConfigServiceQuery (Config f)) functionName namespace)) (\<lambda>(res, err).
       case err of
         Some e \<Rightarrow> retp (Some e)
       | None \<Rightarrow>
           bindp (CSet (ScalerCache f) functionName namespace res) (\<lambda>_.
             if Replicas res > 0 then retp None
             else
               bindp (Do (setKey functionName namespace)
                   (bindp (SetReplicas (ConfigServiceQuery (Config f)) functionName namespace minReplicas)
                     (\<lambda>err. case err of
                        Some e \<Rightarrow> retp (Some (''unable to scale function ['' @ functionName @ ''], err: '' @ e))
                      | None \<Rightarrow> retp None)))
                 (\<lambda>err. case err of Some e \<Rightarrow> retp (Some e) | None \<Rightarrow> retp None)))"

text \<open>The holding pattern; the \<open>nat\<close> argument is the number of polls left.\<close>

fun poll_loop :: "'s Env \<Rightarrow> 's FunctionScaler \<Rightarrow> string \<Rightarrow> string \<Rightarrow> instant \<Rightarrow> nat
    \<Rightarrow> ('s, FunctionScaleResult) prog" where
  "poll_loop env f functionName namespace start 0 = scale_result env start None True True"
| "poll_loop env f functionName namespace start (Suc n) =
     bindp (Do (getKey functionName namespace)
         (GetReplicas (ConfigServiceQuery (Config f)) functionName namespace)) (\<lambda>(queryResponse, err).
     bindp (case err of None \<Rightarrow> CSet (ScalerCache f) functionName namespace queryResponse
                      | Some _ \<Rightarrow> retp ()) (\<lambda>_.
     bindp (time_Since env start) (\<lambda>totalTime.
       case err of
         Some e \<Rightarrow> retp \<lparr>Available = False, Error = Some e, Found = True, Duration = totalTime\<rparr>
       | None \<Rightarrow>
           if AvailableReplicas queryResponse > 0
           then retp \<lparr>Available = True, Error = None, Found = True, Duration = totalTime\<rparr>
           else bindp (time_Sleep env (FunctionPollInterval (Config f)))
                  (\<lambda>_. poll_loop env f functionName namespace start n))))"

definition min_replicas_of :: "ServiceQueryResponse \<Rightarrow> uint64" where
  "min_replicas_of queryResponse =
     (if MinReplicas queryResponse > 0 then MinReplicas queryResponse else 1)"

text \<open>
  The part of \<open>Scale\<close> after the live answer \<open>queryResponse\<close> was cached: the scale-up request
  when the desired count is 0, then the holding pattern.
\<close>

definition scale_and_wait :: "'s Env \<Rightarrow> 's FunctionScaler \<Rightarrow> string \<Rightarrow> string \<Rightarrow> instant
    \<Rightarrow> ServiceQueryResponse \<Rightarrow> ('s, FunctionScaleResult) prog" where
  "scale_and_wait env f functionName namespace start queryResponse =
     bindp (if Replicas queryResponse = 0
            then Retry env
                   (scale_attempt f functionName namespace (min_replicas_of queryResponse))
                   ''Scale'' (go_int (SetScaleRetries (Config f)))
                   (FunctionPollInterval (Config f))
            else retp None) (\<lambda>scaleResult.
       case scaleResult of
         Some e \<Rightarrow> scale_result env start (Some e) False True
       | None \<Rightarrow>
           poll_loop env f functionName namespace start (nat (go_int (MaxPollCount (Config f)))))"

definition Scale :: "'s Env \<Rightarrow> 's FunctionScaler \<Rightarrow> string \<Rightarrow> string \<Rightarrow> ('s, FunctionScaleResult) prog" where
  "Scale env f functionName namespace =
     bindp (time_Now env) (\<lambda>start.
     bindp (CGet (ScalerCache f) functionName namespace) (\<lambda>(cachedResponse, hit).
       if hit \<and> AvailableReplicas cachedResponse > 0 then scale_result env start None True True
       else
         bindp (Do (getKey functionName namespace)
             (GetReplicas (ConfigServiceQuery (Config f)) functionName namespace)) (\<lambda>(res, err).
           case err of
             Some e \<Rightarrow> scale_result env start (Some e) False False
           | None \<Rightarrow>
               if AvailableReplicas res > 0 then scale_result env start None True True
               else
                 bindp (CSet (ScalerCache f) functionName namespace res) (\<lambda>_.
                 scale_and_wait env f functionName namespace start res))))"

section \<open>The result is well formed\<close>

text \<open>
  Available and without error go together, and an available function was found.
\<close>

definition result_wf :: "FunctionScaleResult \<Rightarrow> bool" where
  "result_wf r \<longleftrightarrow> (Available r \<longleftrightarrow> Error r = None) \<and> (Available r \<longrightarrow> Found r)"

lemma vals_scale_result:
  "(available \<longleftrightarrow> err = None) \<Longrightarrow> (available \<longrightarrow> found) \<Longrightarrow>
   vals result_wf (scale_result env start err available found)"
  unfolding scale_result_def
  by (rule vals_bindp) (simp add: vals_retp result_wf_def)

lemma vals_poll_loop: "vals result_wf (poll_loop env f fn ns start n)"
proof (induction n)
  case 0
  then show ?case by (simp add: vals_scale_result)
next
  case (Suc n)
  show ?case
    by (auto intro!: vals_bindp vals_retp Suc split: option.split) (simp_all add: result_wf_def)
qed

lemma vals_Scale: "vals result_wf (Scale env f fn ns)"
  unfolding Scale_def scale_and_wait_def
  by (auto intro!: vals_bindp vals_scale_result vals_poll_loop split: option.split)

text \<open>
  every result of \<open>Scale\<close> is either available and without error, or carries an error and
  is not available; a function that was not found is never reported available. The fourth
  outcome that the caller has code for, found but neither available nor failed, does not occur.
\<close>

theorem Scale_result_wf:
  assumes "Scale env f fn ns s = (Val r, t)"
  shows "(Available r \<longleftrightarrow> Error r = None) \<and> (Available r \<longrightarrow> Found r)"
  using valsD [OF vals_Scale assms] by (simp add: result_wf_def)

section \<open>The calls a scale-up makes\<close>

text \<open>
  A run of \<open>Scale\<close> in an environment whose clock and cache make no provider calls and whose
  provider logs every call it gets.
\<close>

locale scaling_run = cached_query C entry Q log
  for C :: "'s FunctionCacher" and entry and Q :: "'s ServiceQuery" and log :: "'s \<Rightarrow> call list" +
  fixes env :: "'s Env"
  assumes set_query_log: "SetReplicas Q fn ns n s = (e, s') \<Longrightarrow> log s' = log s @ [SetCall fn ns n e]"
    and now_log: "Now env s = (t, s') \<Longrightarrow> log s' = log s"
    and sleep_log: "log (Sleep env d s) = log s"

text \<open>
  \<open>sets_guarded fn ns cs\<close>: all calls are about the function, and every \<open>SetReplicas\<close> asks for
  at least one replica and comes right after a \<open>GetReplicas\<close> that answered, without error,
  that no replica is wanted.
\<close>

definition answers_zero :: "(ServiceQueryResponse \<times> goerror) go \<Rightarrow> bool" where
  "answers_zero v = (case v of Val (q, None) \<Rightarrow> Replicas q = 0 | _ \<Rightarrow> False)"

fun sets_guarded :: "string \<Rightarrow> string \<Rightarrow> call list \<Rightarrow> bool" where
  "sets_guarded fn ns [] = True"
| "sets_guarded fn ns (GetCall f n v # SetCall f' n' c e # cs) =
     (f = fn \<and> n = ns \<and> f' = fn \<and> n' = ns \<and> c > 0 \<and> answers_zero v \<and> sets_guarded fn ns cs)"
| "sets_guarded fn ns (GetCall f n v # cs) = (f = fn \<and> n = ns \<and> sets_guarded fn ns cs)"
| "sets_guarded fn ns (SetCall f n c e # cs) = False"

definition is_set_call :: "call \<Rightarrow> bool" where
  "is_set_call c = (case c of SetCall _ _ _ _ \<Rightarrow> True | GetCall _ _ _ \<Rightarrow> False)"

lemma sets_guarded_append: "sets_guarded fn ns a \<Longrightarrow> sets_guarded fn ns b \<Longrightarrow> sets_guarded fn ns (a @ b)"
proof (induction fn ns a rule: sets_guarded.induct [case_names Nil GetSet Get GetGet Set])
  case (Get fn ns f n v)
  then show ?case by (cases b rule: list.exhaust) (auto elim: sets_guarded.elims)
qed auto

text \<open>\<open>appends log P m\<close>: a run of \<open>m\<close> adds a piece that satisfies \<open>P\<close> to the log.\<close>

definition appends :: "('s \<Rightarrow> call list) \<Rightarrow> (call list \<Rightarrow> bool) \<Rightarrow> ('s, 'a) prog \<Rightarrow> bool" where
  "appends log P m \<longleftrightarrow> step_rel (\<lambda>s s'. \<exists>new. log s' = log s @ new \<and> P new) m"

lemma appendsI: "(\<And>s v s'. m s = (v, s') \<Longrightarrow> \<exists>new. log s' = log s @ new \<and> P new) \<Longrightarrow> appends log P m"
  unfolding appends_def step_rel_def by (metis surj_pair snd_conv)

lemma appendsD: "appends log P m \<Longrightarrow> m s = (v, s') \<Longrightarrow> \<exists>new. log s' = log s @ new \<and> P new"
  unfolding appends_def by (rule step_relD)

text \<open>Pieces with at most \<open>g\<close> queries and \<open>k\<close> scale requests, all of them guarded.\<close>

definition piece :: "string \<Rightarrow> string \<Rightarrow> nat \<Rightarrow> nat \<Rightarrow> call list \<Rightarrow> bool" where
  "piece fn ns g k cs \<longleftrightarrow> sets_guarded fn ns cs
     \<and> length (filter (\<lambda>c. \<not> is_set_call c) cs) \<le> g \<and> length (filter is_set_call cs) \<le> k"

lemma piece_append: "piece fn ns g k a \<Longrightarrow> piece fn ns g' k' b \<Longrightarrow> piece fn ns (g + g') (k + k') (a @ b)"
  by (simp add: piece_def sets_guarded_append)

lemma piece_mono: "piece fn ns g k a \<Longrightarrow> g \<le> g' \<Longrightarrow> k \<le> k' \<Longrightarrow> piece fn ns g' k' a"
  by (simp add: piece_def)

lemma piece_Nil [simp]: "piece fn ns g k []"
  by (simp add: piece_def)

lemma piece_Get [simp]: "piece fn ns (Suc g) k [GetCall fn ns v]"
  by (simp add: piece_def is_set_call_def)

lemma piece_Get_Set: "answers_zero v \<Longrightarrow> c > 0 \<Longrightarrow>
  piece fn ns (Suc g) (Suc k) [GetCall fn ns v, SetCall fn ns c e]"
  by (simp add: piece_def is_set_call_def)

lemma appends_mono:
  "appends log (piece fn ns g k) m \<Longrightarrow> g \<le> g' \<Longrightarrow> k \<le> k' \<Longrightarrow> appends log (piece fn ns g' k') m"
  unfolding appends_def step_rel_def by (meson piece_mono)

lemma appends_bindp:
  assumes m: "appends log (piece fn ns g k) m"
    and f: "\<And>x. appends log (piece fn ns g' k') (f x)"
  shows "appends log (piece fn ns (g + g') (k + k')) (bindp m f)"
proof (rule appendsI)
  fix s v s'
  assume run: "bindp m f s = (v, s')"
  obtain w s1 where m1: "m s = (w, s1)" by fastforce
  obtain a where a: "log s1 = log s @ a" "piece fn ns g k a" using appendsD [OF m m1] by blast
  show "\<exists>new. log s' = log s @ new \<and> piece fn ns (g + g') (k + k') new"
  proof (cases w)
    case (Val x)
    with run m1 have "f x s1 = (v, s')" by simp
    then obtain b where b: "log s' = log s1 @ b" "piece fn ns g' k' b"
      using appendsD [OF f] by blast
    have "log s' = log s @ (a @ b)" using a(1) b(1) by simp
    then show ?thesis using piece_append [OF a(2) b(2)] by blast
  next
    case (Panic e)
    with run m1 have "s' = s1" by simp
    moreover have "piece fn ns (g + g') (k + k') a" by (rule piece_mono [OF a(2)]) simp_all
    ultimately show ?thesis using a(1) by blast
  qed
qed

lemma appends_bindp0:
  assumes "appends log (piece fn ns 0 0) m" "\<And>x. appends log (piece fn ns g k) (f x)"
  shows "appends log (piece fn ns g k) (bindp m f)"
  using appends_bindp [OF assms] by simp

lemma appends_retp [simp]: "appends log (piece fn ns g k) (retp x)"
  by (rule appendsI) (auto simp: retp_run)

context scaling_run
begin

lemma appends_now [simp]: "appends log (piece fn ns 0 0) (time_Now env)"
  by (rule appendsI) (auto simp: time_Now_run now_log split: prod.splits)

lemma appends_since [simp]: "appends log (piece fn ns g k) (time_Since env t)"
  by (rule appendsI) (auto simp: time_Since_run now_log split: prod.splits)

lemma appends_sleep [simp]: "appends log (piece fn ns 0 0) (time_Sleep env d)"
  by (rule appendsI) (auto simp: time_Sleep_run sleep_log)

lemma appends_get [simp]: "appends log (piece fn ns 0 0) (CGet C f n)"
  by (rule appendsI) (auto simp: get_log)

lemma appends_set [simp]: "appends log (piece fn ns 0 0) (CSet C f n q)"
  by (rule appendsI) (auto simp: set_log)

lemma appends_query [simp]: "appends log (piece fn ns (Suc 0) 0) (GetReplicas Q fn ns)"
  by (rule appendsI) (auto simp: query_log)

lemma appends_result: "appends log (piece fn ns g k) (scale_result env start e a fd)"
  unfolding scale_result_def
  by (rule appends_mono [of _ _ _ 0 0], rule appends_bindp0) simp_all

lemma appends_attempt:
  assumes f: "ScalerCache f = C" "ConfigServiceQuery (Config f) = Q" and mn: "mn > 0"
  shows "appends log (piece fn ns 1 1) (scale_attempt f fn ns mn i)"
proof (rule appendsI)
  fix s x s'
  assume run: "scale_attempt f fn ns mn i s = (x, s')"
  obtain v s1 where g: "GetReplicas Q fn ns s = (v, s1)" by fastforce
  have l1: "log s1 = log s @ [GetCall fn ns v]" by (rule query_log [OF g])
  show "\<exists>new. log s' = log s @ new \<and> piece fn ns 1 1 new"
  proof (cases "answers_zero v")
    case True
    then obtain q where v: "v = Val (q, None)" and zero: "Replicas q = 0"
      by (auto simp: answers_zero_def split: go.splits option.splits)
    obtain s2 where s2: "CSet C fn ns q s1 = (Val (), s2)" using set_total by blast
    obtain w s3 where s3: "SetReplicas Q fn ns mn s2 = (w, s3)" by fastforce
    have "s' = s3"
      using run g v s2 s3 zero f
      by (auto simp: scale_attempt_def bindp_run retp_run split: go.splits option.splits)
    moreover have "log s3 = log s @ [GetCall fn ns v, SetCall fn ns mn w]"
      using set_query_log [OF s3] set_log [OF s2] l1 by simp
    ultimately show ?thesis using piece_Get_Set [OF True mn, of fn ns 0 0 w] by auto
  next
    case False
    have "log s' = log s1"
    proof (cases v)
      case (Val x)
      then obtain q e where v: "v = Val (q, e)" by (cases x) auto
      show ?thesis
      proof (cases e)
        case None
        with False v have "Replicas q > 0" by (simp add: answers_zero_def word_neq_0_conv)
        with run g v None f show ?thesis
          by (auto simp: scale_attempt_def bindp_run retp_run set_log split: go.splits prod.splits)
      next
        case (Some m)
        with run g v f show ?thesis by (simp add: scale_attempt_def bindp_run retp_run)
      qed
    next
      case (Panic m)
      with run g f show ?thesis by (simp add: scale_attempt_def bindp_run)
    qed
    with l1 show ?thesis using piece_Get [of fn ns 0 1 v] by auto
  qed
qed

lemma appends_retry_loop:
  assumes r: "\<And>i. appends log (piece fn ns 1 1) (r i)"
  shows "appends log (piece fn ns n n) (retry_loop env r d i n err)"
proof (induction n arbitrary: i err)
  case 0
  then show ?case by simp
next
  case (Suc n)
  have "appends log (piece fn ns (1 + n) (1 + n)) (retry_loop env r d i (Suc n) err)"
    unfolding retry_loop.simps
    by (rule appends_bindp [OF r]) (auto intro: appends_bindp0 Suc.IH split: option.split)
  then show ?case by simp
qed

lemma appends_poll_loop:
  assumes f: "ScalerCache f = C" "ConfigServiceQuery (Config f) = Q"
  shows "appends log (piece fn ns n 0) (poll_loop env f fn ns start n)"
proof (induction n)
  case 0
  then show ?case by (simp add: appends_result)
next
  case (Suc n)
  have "appends log (piece fn ns (Suc 0 + n) (0 + 0)) (poll_loop env f fn ns start (Suc n))"
    unfolding poll_loop.simps Do_run f
    by (rule appends_bindp [OF appends_query])
      (auto intro!: appends_bindp0 Suc.IH split: option.split)
  then show ?case by simp
qed

text \<open>The whole run: one first query, the retries, the polls.\<close>

lemma appends_scale_and_wait:
  assumes f: "ScalerCache f = C" "ConfigServiceQuery (Config f) = Q"
    and R: "R = nat (go_int (SetScaleRetries (Config f)))"
    and P: "P = nat (go_int (MaxPollCount (Config f)))"
  shows "appends log (piece fn ns (R + P) R) (scale_and_wait env f fn ns start q)"
proof -
  have mn: "min_replicas_of q > 0" by (simp add: min_replicas_of_def)
  have retry: "appends log (piece fn ns R R)
      (if Replicas q = 0 then Retry env (scale_attempt f fn ns (min_replicas_of q)) ''Scale''
         (go_int (SetScaleRetries (Config f))) (FunctionPollInterval (Config f)) else retp None)"
    unfolding Retry_def R
    by (split if_split, intro conjI impI appends_retp appends_retry_loop appends_attempt [OF f mn])
  have "appends log (piece fn ns (R + P) (R + 0)) (scale_and_wait env f fn ns start q)"
    unfolding scale_and_wait_def P
    by (rule appends_bindp [OF retry])
      (auto simp: appends_result appends_poll_loop [OF f] split: option.split)
  then show ?thesis by simp
qed

lemma appends_Scale:
  assumes f: "ScalerCache f = C" "ConfigServiceQuery (Config f) = Q"
    and R: "R = nat (go_int (SetScaleRetries (Config f)))"
    and P: "P = nat (go_int (MaxPollCount (Config f)))"
  shows "appends log (piece fn ns (1 + R + P) R) (Scale env f fn ns)"
proof -
  note wait = appends_scale_and_wait [OF assms]
  have "appends log (piece fn ns (Suc 0 + (R + P)) (0 + R)) (bindp (GetReplicas Q fn ns)
      (\<lambda>(res, err). case err of
         Some e \<Rightarrow> scale_result env start (Some e) False False
       | None \<Rightarrow> if AvailableReplicas res > 0 then scale_result env start None True True
           else bindp (CSet C fn ns res) (\<lambda>_. scale_and_wait env f fn ns start res)))" for start
    by (rule appends_bindp [OF appends_query])
      (auto intro!: appends_bindp0 [OF appends_set] appends_result wait split: option.split)
  then show ?thesis
    unfolding Scale_def Do_run f
    by (intro appends_bindp0 [OF appends_now] appends_bindp0 [OF appends_get])
      (auto intro: appends_result)
qed

end

section \<open>Where an available result comes from\<close>

text \<open>A call that answered that a replica is available.\<close>

definition ready :: "call \<Rightarrow> bool" where
  "ready c = (case c of GetCall _ _ (Val (q, None)) \<Rightarrow> AvailableReplicas q > 0 | _ \<Rightarrow> False)"

text \<open>
  \<open>seen_ready n new\<close>: the calls \<open>new\<close> end with an answer that a replica is available, or
  with \<open>n\<close> polls that never saw one.
\<close>

definition seen_ready :: "nat \<Rightarrow> call list \<Rightarrow> bool" where
  "seen_ready n new \<longleftrightarrow> (new \<noteq> [] \<and> ready (last new))
     \<or> (\<exists>a b. new = a @ b \<and> length b = n \<and> (\<forall>c \<in> set b. \<not> ready c))"

lemma seen_ready_append: "seen_ready n b \<Longrightarrow> seen_ready n (a @ b)"
  unfolding seen_ready_def by (metis append.assoc append_is_Nil_conv last_appendR)

lemma ready_Get: "ready (GetCall f n v) = (case v of Val (q, None) \<Rightarrow> AvailableReplicas q > 0 | _ \<Rightarrow> False)"
  by (simp add: ready_def)

context scaling_run
begin

lemma scale_result_run:
  "scale_result env start e a fd s = (x, t) \<Longrightarrow>
   log t = log s \<and> (\<exists>r. x = Val r \<and> Available r = a \<and> Error r = e \<and> Found r = fd)"
  by (auto simp: scale_result_def bindp_run retp_run time_Since_run now_log split: prod.splits)

lemma poll_loop_seen:
  assumes f: "ScalerCache f = C" "ConfigServiceQuery (Config f) = Q"
  shows "poll_loop env f fn ns start n s = (Val r, t) \<Longrightarrow> Available r \<Longrightarrow>
    \<exists>new. log t = log s @ new \<and> ((new \<noteq> [] \<and> ready (last new))
      \<or> length new = n \<and> (\<forall>c \<in> set new. \<not> ready c))"
proof (induction n arbitrary: s)
  case 0
  then show ?case using scale_result_run by fastforce
next
  case (Suc n)
  obtain v s1 where g: "GetReplicas Q fn ns s = (v, s1)" by fastforce
  have l1: "log s1 = log s @ [GetCall fn ns v]" by (rule query_log [OF g])
  from Suc.prems(1) g f obtain q where v: "v = Val (q, None)"
    using Suc.prems(2)
    by (cases v) (auto simp: bindp_run retp_run split: option.splits prod.splits go.splits)
  obtain s2 where s2: "CSet C fn ns q s1 = (Val (), s2)" using set_total by blast
  obtain d s3 where s3: "time_Since env start s2 = (Val d, s3)"
    by (cases "Now env s2") (simp add: time_Since_run)
  have l3: "log s3 = log s @ [GetCall fn ns v]"
    using s3 l1 set_log [OF s2] by (auto simp: time_Since_run now_log split: prod.splits)
  show ?case
  proof (cases "AvailableReplicas q > 0")
    case True
    with Suc.prems(1) g v s2 s3 f have "t = s3" by (simp add: bindp_run retp_run)
    with l3 v True show ?thesis by (simp add: ready_Get)
  next
    case False
    with Suc.prems(1) g v s2 s3 f have
      "poll_loop env f fn ns start n (Sleep env (FunctionPollInterval (Config f)) s3) = (Val r, t)"
      by (simp add: bindp_run time_Sleep_run)
    from Suc.IH [OF this Suc.prems(2)] obtain new where
      new: "log t = log s3 @ new" and c: "(new \<noteq> [] \<and> ready (last new))
        \<or> length new = n \<and> (\<forall>c \<in> set new. \<not> ready c)"
      by (auto simp: sleep_log)
    have "\<not> ready (GetCall fn ns v)" using False v by (simp add: ready_Get)
    with new c l3 show ?thesis by (intro exI [of _ "GetCall fn ns v # new"]) auto
  qed
qed

lemma scale_and_wait_seen:
  assumes f: "ScalerCache f = C" "ConfigServiceQuery (Config f) = Q"
    and run: "scale_and_wait env f fn ns start q s = (Val r, t)" and av: "Available r"
  shows "\<exists>new. log t = log s @ new \<and> seen_ready (nat (go_int (MaxPollCount (Config f)))) new"
proof -
  have mn: "min_replicas_of q > 0" by (simp add: min_replicas_of_def)
  have retry: "appends log (piece fn ns R R)
      (if Replicas q = 0 then Retry env (scale_attempt f fn ns (min_replicas_of q)) ''Scale''
         (go_int (SetScaleRetries (Config f))) (FunctionPollInterval (Config f)) else retp None)"
    if R: "R = nat (go_int (SetScaleRetries (Config f)))" for R
    unfolding Retry_def R
    by (split if_split, intro conjI impI appends_retp appends_retry_loop appends_attempt [OF f mn])
  from run obtain e s1 where
    r1: "(if Replicas q = 0 then Retry env (scale_attempt f fn ns (min_replicas_of q)) ''Scale''
         (go_int (SetScaleRetries (Config f))) (FunctionPollInterval (Config f)) else retp None) s = (Val e, s1)"
    and r2: "(case e of Some e \<Rightarrow> scale_result env start (Some e) False True
       | None \<Rightarrow> poll_loop env f fn ns start (nat (go_int (MaxPollCount (Config f))))) s1 = (Val r, t)"
    unfolding scale_and_wait_def by (rule bindp_ValE) blast
  from appendsD [OF retry [OF refl] r1] obtain a where a: "log s1 = log s @ a" by blast
  have "e = None"
    using r2 av scale_result_run by (cases e) fastforce+
  with r2 poll_loop_seen [OF f _ av] obtain b where "log t = log s1 @ b"
    and b: "(b \<noteq> [] \<and> ready (last b)) \<or> length b = nat (go_int (MaxPollCount (Config f)))
       \<and> (\<forall>c \<in> set b. \<not> ready c)"
    by fastforce
  moreover from b have "seen_ready (nat (go_int (MaxPollCount (Config f)))) b"
    unfolding seen_ready_def by (metis append_Nil)
  ultimately show ?thesis using a seen_ready_append by (metis append.assoc)
qed

lemma Scale_seen:
  assumes f: "ScalerCache f = C" "ConfigServiceQuery (Config f) = Q"
    and run: "Scale env f fn ns s = (Val r, t)" and av: "Available r"
  shows "(\<exists>q s1. CGet C fn ns (snd (Now env s)) = (Val (q, True), s1) \<and> AvailableReplicas q > 0 \<and> log t = log s)
    \<or> (\<exists>new. log t = log s @ new \<and> seen_ready (nat (go_int (MaxPollCount (Config f)))) new)"
proof -
  obtain start s0 where n: "Now env s = (start, s0)" by fastforce
  obtain q h s1 where c: "CGet C fn ns s0 = (Val (q, h), s1)" using get_total by blast
  have l1: "log s1 = log s" using get_log [OF c] now_log [OF n] by simp
  show ?thesis
  proof (cases "h \<and> AvailableReplicas q > 0")
    case True
    with run n c f have "scale_result env start None True True s1 = (Val r, t)"
      by (simp add: Scale_def bindp_run time_Now_run)
    then have "log t = log s" using scale_result_run l1 by metis
    with True c n show ?thesis by auto
  next
    case False
    obtain v s2 where g: "GetReplicas Q fn ns s1 = (v, s2)" by fastforce
    have l2: "log s2 = log s @ [GetCall fn ns v]" using query_log [OF g] l1 by simp
    from run n c f False g obtain x e where v: "v = Val (x, e)"
      and r: "(case e of Some e \<Rightarrow> scale_result env start (Some e) False False
          | None \<Rightarrow> if AvailableReplicas x > 0 then scale_result env start None True True
             else bindp (CSet C fn ns x) (\<lambda>_. scale_and_wait env f fn ns start x)) s2 = (Val r, t)"
      by (auto simp: Scale_def bindp_run time_Now_run split: go.splits if_splits)
    have e: "e = None" using r av scale_result_run by (cases e) fastforce+
    show ?thesis
    proof (cases "AvailableReplicas x > 0")
      case True
      with r e have "log t = log s2" using scale_result_run by fastforce
      with l2 v e True have "log t = log s @ [GetCall fn ns v]" "ready (GetCall fn ns v)"
        by (simp_all add: ready_Get)
      then show ?thesis by (intro disjI2 exI [of _ "[GetCall fn ns v]"]) (simp add: seen_ready_def)
    next
      case nready: False
      obtain s3 where s3: "CSet C fn ns x s2 = (Val (), s3)" using set_total by blast
      with r e nready have "scale_and_wait env f fn ns start x s3 = (Val r, t)" by simp
      from scale_and_wait_seen [OF f this av] obtain b where
        b: "log t = log s3 @ b" "seen_ready (nat (go_int (MaxPollCount (Config f)))) b" by blast
      then have "log t = log s @ ([GetCall fn ns v] @ b)" using set_log [OF s3] l2 by simp
      with seen_ready_append [OF b(2)] show ?thesis by blast
    qed
  qed
qed

end

section \<open>The gateway's scaler\<close>

text \<open>The scaler on the gateway's cache, with any clock, provider and configuration.\<close>

definition gateway_scaler :: "'w Env \<Rightarrow> 'w ServiceQuery \<Rightarrow> 'w sstate ScalingConfig \<Rightarrow> 'w sstate FunctionScaler" where
  "gateway_scaler env q cfg =
     NewFunctionScaler (cfg\<lparr>ConfigServiceQuery := lift_query q\<rparr>) (cacher_of env)"

lemma gateway_scaler_sel [simp]:
  "ScalerCache (gateway_scaler env q cfg) = cacher_of env"
  "ConfigServiceQuery (Config (gateway_scaler env q cfg)) = lift_query q"
  "SetScaleRetries (Config (gateway_scaler env q cfg)) = SetScaleRetries cfg"
  "MaxPollCount (Config (gateway_scaler env q cfg)) = MaxPollCount cfg"
  "FunctionPollInterval (Config (gateway_scaler env q cfg)) = FunctionPollInterval cfg"
  by (simp_all add: gateway_scaler_def NewFunctionScaler_def)

interpretation scaler: scaling_run "cacher_of env" stored "lift_query q" calls "lift_env env" for env q
  by unfold_locales (auto split: prod.splits)

lemma sets_guarded_nth:
  "sets_guarded fn ns cs \<Longrightarrow> i < length cs \<Longrightarrow> cs ! i = SetCall f n c e \<Longrightarrow>
   f = fn \<and> n = ns \<and> c > 0 \<and> (\<exists>j v. i = Suc j \<and> cs ! j = GetCall fn ns v \<and> answers_zero v)"
proof (induction fn ns cs arbitrary: i rule: sets_guarded.induct [case_names Nil GetSet Get GetGet Set])
  case (GetSet fn ns f' n' v f'' n'' c' e' cs)
  show ?case
  proof (cases "i < 2")
    case True
    with GetSet show ?thesis by (cases i) auto
  next
    case False
    define k where "k = i - 2"
    have i: "i = Suc (Suc k)" using False by (simp add: k_def)
    with GetSet have "f = fn \<and> n = ns \<and> c > 0 \<and> (\<exists>j v. k = Suc j \<and> cs ! j = GetCall fn ns v \<and> answers_zero v)"
      by (intro GetSet.IH) auto
    with i show ?thesis by auto
  qed
next
  case (Get fn ns f' n' v)
  then show ?case by (cases i) auto
next
  case (GetGet fn ns f' n' v f'' n'' v' cs)
  then show ?case
  proof (cases i)
    case (Suc k)
    with GetGet.prems have "f = fn \<and> n = ns \<and> c > 0
        \<and> (\<exists>j v. k = Suc j \<and> (GetCall f'' n'' v' # cs) ! j = GetCall fn ns v \<and> answers_zero v)"
      by (intro GetGet.IH) auto
    with Suc show ?thesis by auto
  qed auto
qed auto

lemma answers_zero_iff: "answers_zero v \<longleftrightarrow> (\<exists>r. v = Val (r, None) \<and> Replicas r = 0)"
  by (auto simp: answers_zero_def split: go.splits option.splits)

text \<open>
  one run of \<open>Scale\<close> asks the provider at most \<open>1 + SetScaleRetries + MaxPollCount\<close> times
  and requests at most \<open>SetScaleRetries\<close> scale-ups, whatever the provider answers.
\<close>

theorem Scale_bounded_calls:
  assumes "Scale (lift_env env) (gateway_scaler env q cfg) fn ns s = (v, t)"
  shows "\<exists>new. calls t = calls s @ new
    \<and> length (filter (\<lambda>c. \<not> is_set_call c) new)
        \<le> 1 + nat (go_int (SetScaleRetries cfg)) + nat (go_int (MaxPollCount cfg))
    \<and> length (filter is_set_call new) \<le> nat (go_int (SetScaleRetries cfg))"
  using appendsD [OF scaler.appends_Scale [of "gateway_scaler env q cfg", OF _ _ refl refl] assms]
  by (auto simp: piece_def)

text \<open>
  C1: \<open>Scale\<close> never resizes a function that is wanted already: every \<open>SetReplicas\<close> it makes is
  about the function it was asked for, requests at least one replica, and comes right after an
  answer of the provider that the desired count of that function is 0.
\<close>

theorem Scale_sets_only_from_zero:
  assumes "Scale (lift_env env) (gateway_scaler env q cfg) fn ns s = (v, t)"
  shows "\<exists>new. calls t = calls s @ new
    \<and> (\<forall>i f n c e. i < length new \<and> new ! i = SetCall f n c e \<longrightarrow>
        f = fn \<and> n = ns \<and> c > 0 \<and>
        (\<exists>j r. i = Suc j \<and> new ! j = GetCall fn ns (Val (r, None)) \<and> Replicas r = 0))"
proof -
  obtain new where new: "calls t = calls s @ new" and g: "sets_guarded fn ns new"
    using appendsD [OF scaler.appends_Scale [of "gateway_scaler env q cfg", OF _ _ refl refl] assms]
    by (auto simp: piece_def)
  have "f = fn \<and> n = ns \<and> c > 0 \<and>
      (\<exists>j r. i = Suc j \<and> new ! j = GetCall fn ns (Val (r, None)) \<and> Replicas r = 0)"
    if "i < length new" "new ! i = SetCall f n c e" for i f n c e
    using sets_guarded_nth [OF g that] unfolding answers_zero_iff by blast
  with new show ?thesis by blast
qed

text \<open>
  C13: an available result means that the cache held a fresh entry with a replica, one that has not expired
  when the cache reads the clock, right after \<open>Scale\<close> has read it for the start; or that the
  last answer of the provider reported a replica, or that the last \<open>MaxPollCount\<close> polls all saw none.
\<close>

theorem Scale_available_cases:
  assumes "Scale (lift_env env) (gateway_scaler env q cfg) fn ns s = (Val r, t)" and "Available r"
  shows "(\<exists>fm. Cache (fcache s) (cache_key fn ns) = Some fm
      \<and> fst (Now env (snd (Now env (sworld s)))) \<le> LastRefresh fm + Expiry (fcache s)
      \<and> AvailableReplicas (MetaResponse fm) > 0 \<and> calls t = calls s)
    \<or> (\<exists>new. calls t = calls s @ new \<and> seen_ready (nat (go_int (MaxPollCount cfg))) new)"
proof -
  obtain x w where w: "Now env (sworld s) = (x, w)" by fastforce
  obtain y w' where w': "Now env w = (y, w')" by fastforce
  show ?thesis
    using scaler.Scale_seen [OF gateway_scaler_sel(1,2) assms]
    by (cases "Cache (fcache s) (cache_key fn ns)") (auto simp: FunctionCache_Get_run expired_at_def w w')
qed

section \<open>A slow function\<close>

text \<open>
  What happens when the replicas do not come up in time. \<open>busy q\<close>: the provider keeps
  answering \<open>q\<close>, which wants replicas and has none available.
\<close>

lemma poll_loop_exhausted:
  assumes Q: "\<And>w. GetReplicas Q fn ns w = (Val (q, None), w)" and q: "AvailableReplicas q = 0"
  shows "\<exists>t d. poll_loop (lift_env env) (gateway_scaler env Q cfg) fn ns start n s =
      (Val \<lparr>Available = True, Error = None, Found = True, Duration = d\<rparr>, t)
    \<and> calls t = calls s @ replicate n (GetCall fn ns (Val (q, None)))"
proof (induction n arbitrary: s)
  case 0
  then show ?case
    by (auto simp: scale_result_def bindp_run retp_run time_Since_run split: prod.splits)
next
  case (Suc n)
  obtain x w where n1: "Now env (sworld s) = (x, w)" by fastforce
  obtain y w' where n2: "Now env w = (y, w')" by fastforce
  let ?s = "s\<lparr>calls := calls s @ [GetCall fn ns (Val (q, None))],
    fcache := cache_Set x fn ns q (fcache s), sworld := Sleep env (FunctionPollInterval cfg) w'\<rparr>"
  have "poll_loop (lift_env env) (gateway_scaler env Q cfg) fn ns start (Suc n) s =
      poll_loop (lift_env env) (gateway_scaler env Q cfg) fn ns start n ?s"
    by (simp add: go_simps Q q n1 n2)
  moreover obtain t d where "poll_loop (lift_env env) (gateway_scaler env Q cfg) fn ns start n ?s =
      (Val \<lparr>Available = True, Error = None, Found = True, Duration = d\<rparr>, t)"
    and "calls t = calls ?s @ replicate n (GetCall fn ns (Val (q, None)))"
    using Suc.IH by blast
  ultimately show ?case by simp
qed

text \<open>
  C36: a function that wants replicas but never gets one within \<open>MaxPollCount\<close> polls is still
  reported as available and without an error, so the caller forwards the request to it.
\<close>

theorem Scale_reports_available_on_timeout:
  assumes "\<And>w. GetReplicas Q fn ns w = (Val (a, None), w)"
    and "AvailableReplicas a = 0" and "Replicas a > 0"
    and "fcache s = NewFunctionCache expiry"
  shows "\<exists>r t. Scale (lift_env env) (gateway_scaler env Q cfg) fn ns s = (Val r, t)
    \<and> Available r \<and> Error r = None
    \<and> calls t = calls s @ replicate (Suc (nat (go_int (MaxPollCount cfg)))) (GetCall fn ns (Val (a, None)))"
proof -
  obtain start w where n1: "Now env (sworld s) = (start, w)" by fastforce
  obtain y w' where n2: "Now env w = (y, w')" by fastforce
  define s' where "s' = s\<lparr>calls := calls s @ [GetCall fn ns (Val (a, None))],
    sworld := w', fcache := cache_Set y fn ns a (NewFunctionCache expiry)\<rparr>"
  have nz: "Replicas a \<noteq> 0" using assms(3) by auto
  have sc: "Scale (lift_env env) (gateway_scaler env Q cfg) fn ns s =
        poll_loop (lift_env env) (gateway_scaler env Q cfg) fn ns start
          (nat (go_int (MaxPollCount cfg))) s'"
    using assms(1,2,4) nz n1 n2
    by (simp add: Scale_def scale_and_wait_def go_simps NewFunctionCache_def s'_def)
  have c: "calls s' = calls s @ [GetCall fn ns (Val (a, None))]" by (simp add: s'_def)
  from poll_loop_exhausted [where Q = Q, OF assms(1,2)] obtain t d where
    "poll_loop (lift_env env) (gateway_scaler env Q cfg) fn ns start
          (nat (go_int (MaxPollCount cfg))) s' =
      (Val \<lparr>Available = True, Error = None, Found = True, Duration = d\<rparr>, t)
     \<and> calls t = calls s' @ replicate (nat (go_int (MaxPollCount cfg))) (GetCall fn ns (Val (a, None)))"
    by blast
  with c sc show ?thesis by simp
qed

section \<open>A cold start\<close>

text \<open>
  A small provider to run the scaler on: the world is the clock and the replica count, which
  \<open>SetReplicas\<close> sets and which is available at once. A function with count 0 is scaled up by
  one retry and found ready by the first poll.
\<close>

definition demo_env :: "(int \<times> uint64) Env" where
  "demo_env = \<lparr>Now = (\<lambda>(t, n). (t, (t + 1, n))), Sleep = (\<lambda>d (t, n). (t + d, n))\<rparr>"

definition demo_response :: "uint64 \<Rightarrow> ServiceQueryResponse" where
  "demo_response n = empty_response\<lparr>Replicas := n, AvailableReplicas := n, MinReplicas := 2\<rparr>"

definition demo_query :: "(int \<times> uint64) ServiceQuery" where
  "demo_query = \<lparr>GetReplicas = (\<lambda>fn ns (t, n). (Val (demo_response n, None), (t, n))),
     SetReplicas = (\<lambda>fn ns c (t, n). (Val None, (t, c)))\<rparr>"

definition stuck_query :: "(int \<times> uint64) ServiceQuery" where
  "stuck_query = \<lparr>GetReplicas = (\<lambda>fn ns w. (Val (empty_response\<lparr>Replicas := 1\<rparr>, None), w)),
     SetReplicas = (\<lambda>fn ns c w. (Val None, w))\<rparr>"

definition demo_config :: "(int \<times> uint64) sstate ScalingConfig" where
  "demo_config = \<lparr>MaxPollCount = 3, FunctionPollInterval = 100, CacheExpiry = 250,
     ConfigServiceQuery = lift_query demo_query, SetScaleRetries = 2\<rparr>"

definition demo_state :: "(int \<times> uint64) sstate" where
  "demo_state = \<lparr>fcache = NewFunctionCache 250, calls = [], sworld = (0, 0)\<rparr>"

lemma go_int_small_numerals [simp]: "go_int 2 = 2" "go_int 3 = 3"
  by (simp_all add: go_int_def)

lemma demo_cold_start:
  "\<exists>r t. Scale (lift_env demo_env) (gateway_scaler demo_env demo_query demo_config) ''echo'' ''fn'' demo_state
      = (Val r, t) \<and> Available r \<and> calls t =
    [GetCall ''echo'' ''fn'' (Val (demo_response 0, None)),
     GetCall ''echo'' ''fn'' (Val (demo_response 0, None)),
     SetCall ''echo'' ''fn'' 2 (Val None),
     GetCall ''echo'' ''fn'' (Val (demo_response 2, None))]"
  by (simp add: Scale_def scale_and_wait_def scale_attempt_def scale_result_def Retry_def go_simps
      demo_env_def demo_query_def demo_config_def demo_state_def demo_response_def min_replicas_of_def
      NewFunctionCache_def empty_response_def numeral_2_eq_2 numeral_3_eq_3)

theorem Scale_result_wf_witness:
  "\<exists>r t. Scale (lift_env demo_env) (gateway_scaler demo_env demo_query demo_config) ''echo'' ''fn'' demo_state
      = (Val r, t) \<and> Error r = None \<and> Found r"
proof -
  obtain r t where run: "Scale (lift_env demo_env) (gateway_scaler demo_env demo_query demo_config)
      ''echo'' ''fn'' demo_state = (Val r, t)" and "Available r" using demo_cold_start by blast
  with Scale_result_wf [OF run] show ?thesis by blast
qed

theorem Scale_bounded_calls_witness:
  "\<exists>v t. Scale (lift_env demo_env) (gateway_scaler demo_env demo_query demo_config) ''echo'' ''fn'' demo_state
      = (v, t) \<and> length (filter is_set_call (calls t)) \<le> 2"
proof -
  obtain v t where run: "Scale (lift_env demo_env) (gateway_scaler demo_env demo_query demo_config)
      ''echo'' ''fn'' demo_state = (v, t)" by fastforce
  from Scale_bounded_calls [OF run] have "length (filter is_set_call (calls t)) \<le> 2"
    by (auto simp: demo_config_def demo_state_def)
  with run show ?thesis by blast
qed

theorem Scale_sets_only_from_zero_witness:
  "\<exists>v t r j. Scale (lift_env demo_env) (gateway_scaler demo_env demo_query demo_config) ''echo'' ''fn'' demo_state
      = (v, t) \<and> calls t ! 2 = SetCall ''echo'' ''fn'' 2 (Val None)
    \<and> 2 = Suc j \<and> calls t ! j = GetCall ''echo'' ''fn'' (Val (r, None)) \<and> Replicas r = 0"
proof -
  obtain r0 t where run: "Scale (lift_env demo_env) (gateway_scaler demo_env demo_query demo_config)
      ''echo'' ''fn'' demo_state = (Val r0, t)"
    and c: "length (calls t) = 4" "calls t ! 2 = SetCall ''echo'' ''fn'' 2 (Val None)"
    using demo_cold_start by fastforce
  from Scale_sets_only_from_zero [OF run] obtain new where
    "calls t = calls demo_state @ new" and
    all: "\<forall>i f n c e. i < length new \<and> new ! i = SetCall f n c e \<longrightarrow>
        f = ''echo'' \<and> n = ''fn'' \<and> c > 0 \<and>
        (\<exists>j r. i = Suc j \<and> new ! j = GetCall ''echo'' ''fn'' (Val (r, None)) \<and> Replicas r = 0)"
    by blast
  then have "calls t = new" by (simp add: demo_state_def)
  with all c have "\<exists>j r. 2 = Suc j \<and> calls t ! j = GetCall ''echo'' ''fn'' (Val (r, None)) \<and> Replicas r = 0"
    by (metis numeral_less_iff semiring_norm(75,76,77,78))
  with run c show ?thesis by blast
qed

theorem Scale_available_cases_witness:
  "\<exists>r t. Scale (lift_env demo_env) (gateway_scaler demo_env demo_query demo_config) ''echo'' ''fn'' demo_state
      = (Val r, t) \<and> Available r \<and> seen_ready 3 (calls t)"
proof -
  obtain r t where run: "Scale (lift_env demo_env) (gateway_scaler demo_env demo_query demo_config)
      ''echo'' ''fn'' demo_state = (Val r, t)" and av: "Available r" using demo_cold_start by blast
  from Scale_available_cases [OF run av] have "seen_ready 3 (calls t)"
    by (auto simp: demo_state_def NewFunctionCache_def demo_config_def)
  with run av show ?thesis by blast
qed

theorem Scale_reports_available_on_timeout_witness:
  "\<exists>r t. Scale (lift_env demo_env) (gateway_scaler demo_env stuck_query demo_config) ''echo'' ''fn'' demo_state
      = (Val r, t) \<and> Available r \<and> Error r = None \<and> length (calls t) = 4"
  using Scale_reports_available_on_timeout [of stuck_query "''echo''" "''fn''"
      "empty_response\<lparr>Replicas := 1\<rparr>" demo_state 250 demo_env demo_config]
  by (auto simp: stuck_query_def demo_state_def demo_config_def empty_response_def)

end
