(* ===== verification/ScalingHandler.thy ===== *)
theory ScalingHandler
  imports FunctionScaler GoHttp Middleware
begin

text \<open>
  Package \<open>handlers\<close>, file \<open>scaling.go\<close>: the handler that scales a function from zero before it
  lets the request through.
\<close>

text \<open>
  \<open>scale\<close> is \<open>scaler.Scale\<close>. The nil dereference is the one of \<open>res.Error.Error()\<close>. The last
  branch only logs.
\<close>

definition after_scale :: "'w handler \<Rightarrow> string \<Rightarrow> string \<Rightarrow> FunctionScaleResult \<Rightarrow> 'w handler" where
  "after_scale nxt functionName namespace res r =
     (let errStr = (\<lambda>e. ''error finding function '' @ functionName @ ''.'' @ namespace @ '': '' @ e)
      in if \<not> Found res then
           (case Error res of
              None \<Rightarrow> panicp ''nil pointer dereference''
            | Some e \<Rightarrow> bindp (on_rw (WriteHeader StatusNotFound)) (\<lambda>_. on_rw (Write (errStr e))))
         else (case Error res of
             Some e \<Rightarrow> bindp (on_rw (WriteHeader StatusInternalServerError)) (\<lambda>_. on_rw (Write (errStr e)))
           | None \<Rightarrow> if Available res then nxt r else retp ()))"

definition MakeScalingHandler ::
  "'s Env \<Rightarrow> 's handler \<Rightarrow> 's FunctionScaler \<Rightarrow> string \<Rightarrow> 's handler" where
  "MakeScalingHandler env nxt scaler defaultNamespace r =
     (case GetNamespace defaultNamespace (GetServiceName (url_String (URL r))) of (functionName, namespace) \<Rightarrow>
        bindp (on_hworld (Scale env scaler functionName namespace)) (\<lambda>res.
          after_scale nxt functionName namespace res r))"

text \<open>
  after a scale-up that returned, the request goes to the next handler, unchanged, exactly when
  the function is available; otherwise the client gets 404 when the function was not found and 500
  when it was, each with the error in the body. The handler never dereferences a missing error and
  never ends without an answer, although the code has a branch for that.
\<close>

theorem scaling_handler_answers:
  assumes "GetNamespace dns (GetServiceName (url_String (URL r))) = (fn, ns)" "rw_sent (rw s) = None"
    "Scale env f fn ns (hworld s) = (Val res, w)"
  shows "if Available res then MakeScalingHandler env nxt f dns r s = nxt r (s\<lparr>hworld := w\<rparr>)
    else \<exists>t e. MakeScalingHandler env nxt f dns r s = (Val (), t) \<and> hworld t = w \<and> Error res = Some e
      \<and> final_status (rw t) = (if Found res then 500 else 404)
      \<and> rw_body (rw t) = rw_body (rw s) @ ''error finding function '' @ fn @ ''.'' @ ns @ '': '' @ e"
proof -
  have "result_wf res" by (rule valsD [OF vals_Scale assms(3)])
  then show ?thesis using assms
    by (auto simp: result_wf_def MakeScalingHandler_def after_scale_def Let_def on_hworld_run on_rw_run
        bindp_run WriteHeader_fresh Write_run final_status_def split: option.splits)
qed

section \<open>Witness\<close>

definition demo_call :: request where
  "demo_call = \<lparr>Method = ''GET'', URL = \<lparr>Scheme = [], UHost = [], Path = ''/function/echo'', RawPath = [], RawQuery = []\<rparr>,
     Header = (\<lambda>_. None), RHost = [], RemoteAddr = [], Body = None, RVars = (\<lambda>_. None)\<rparr>"

definition demo_function :: "'w handler" where
  "demo_function r = on_rw (Write ''hello'')"

lemma scaling_handler_answers_witness:
  "\<exists>t. MakeScalingHandler (lift_env demo_env) demo_function (gateway_scaler demo_env demo_query demo_config) ''fn''
      demo_call \<lparr>rw = new_writer, hworld = demo_state\<rparr> = (Val (), t) \<and> rw_body (rw t) = ''hello'' \<and> length (calls (hworld t)) = 4"
proof -
  have n: "GetNamespace ''fn'' (GetServiceName (url_String (URL demo_call))) = (''echo'', ''fn'')" by code_simp
  obtain r t where run: "Scale (lift_env demo_env) (gateway_scaler demo_env demo_query demo_config)
      ''echo'' ''fn'' demo_state = (Val r, t)" and av: "Available r" "length (calls t) = 4" using demo_cold_start by fastforce
  let ?s = "\<lparr>rw = new_writer, hworld = demo_state\<rparr>"
  have w: "rw_sent (rw ?s) = None" by (simp add: new_writer_def)
  from run have "Scale (lift_env demo_env) (gateway_scaler demo_env demo_query demo_config) ''echo'' ''fn'' (hworld ?s)
    = (Val r, t)" by simp
  from scaling_handler_answers [OF n w this, of demo_function] av
  show ?thesis by (simp add: new_writer_def demo_function_def on_rw_run Write_run)
qed

end
