(* ===== verification/Gateway.thy ===== *)
theory Gateway
  imports Router BasicAuth Handlers QueueProxy Exporter Config ExternalQuery
    ScaleRange ScalingHandler
begin

text \<open>
  The gateway put together: \<open>main.go\<close> and the handler set of \<open>types/handler_set.go\<close>. The world of
  the gateway is that of theory Notifiers; the scaling handler adds its cache and its log of provider
  calls around it.
\<close>

section \<open>What the gateway is linked with\<close>

text \<open>
  Clocks, HTTP transports, the queue, the static files, JSON, and the reader of the credentials'
  files: everything \<open>main\<close> uses that is not the gateway's own code.
\<close>

record ('w, 'x, 'p) deps =
  d_env :: "'w gworld Env"
  d_version :: string
  d_transport :: "duration \<Rightarrow> 'w gworld client"
  d_default :: "'w gworld client"
  d_deadline :: "duration \<Rightarrow> 'w gworld client"
  d_query_client :: "'w gworld client"
  d_prometheus :: "'w gworld client"
  d_outgoing :: "request \<Rightarrow> header"
  d_uuid :: "('w gworld, string) prog"
  d_connect :: "string \<Rightarrow> int \<Rightarrow> string \<Rightarrow> string \<Rightarrow> string + 'w gworld queuer"
  d_assets :: "'w gworld handler"
  d_codec :: codec
  d_list :: "'x list_codec"
  d_info :: "'p info_env"
  d_alert :: "string \<Rightarrow> PrometheusAlert option"
  d_unscale :: "string \<Rightarrow> ScaleServiceRequest option"
  d_scale :: "ScaleServiceRequest \<Rightarrow> string"
  d_credentials :: "string \<Rightarrow> string + BasicAuthCredentials"

section \<open>The handler set\<close>

record 'h HandlerSet =
  Proxy :: 'h
  DeployFunction :: 'h
  DeleteFunction :: 'h
  ListFunctions :: 'h
  Alert :: 'h
  UpdateFunction :: 'h
  StatusHandler :: 'h
  QueuedProxy :: "'h option"
  ScaleFunction :: 'h
  InfoHandler :: 'h
  TelemetryHandler :: 'h
  SecretHandler :: 'h
  LogProxyHandler :: 'h
  NamespaceListerHandler :: 'h
  NamespaceMutatorHandler :: 'h

text \<open>The second half of the settings of \<open>main\<close>: what was read, and the URLs that are there.\<close>

record settings =
  s_config :: GatewayConfig
  s_provider :: url
  s_logs :: url
  s_credentials :: "BasicAuthCredentials option"

definition service_auth :: "settings \<Rightarrow> BasicAuthCredentials option option" where
  "service_auth c = (if UseBasicAuth (s_config c) then Some (s_credentials c) else None)"

definition auth_injector :: "settings \<Rightarrow> (request \<Rightarrow> request) option" where
  "auth_injector c =
     (case service_auth c of None \<Rightarrow> None
      | Some creds \<Rightarrow> Some (\<lambda>req. the (BasicAuthInjector_Inject basic_value creds (Some req))))"

definition forwarder :: "('w, 'x, 'p) deps \<Rightarrow> settings \<Rightarrow> 'w gworld notifier list \<Rightarrow> (request \<Rightarrow> request) option
    \<Rightarrow> 'w gworld handler" where
  "forwarder d c notifiers auth =
     MakeForwardingProxyHandler (d_env d)
       (NewHTTPClientReverseProxy (BuildVersion (d_version d)) (s_provider c) (UpstreamTimeout (s_config c)) (d_transport d))
       notifiers (SingleHost_Resolve \<lparr>BaseURL = url_String (s_provider c)\<rparr>) Transparent_Transform auth
       (d_outgoing d) (d_default d)"

definition external_service_query :: "('w, 'x, 'p) deps \<Rightarrow> settings \<Rightarrow> 'w gworld ServiceQuery" where
  "external_service_query d c =
     external_query (d_codec d) (NewExternalServiceQuery (s_provider c) (d_query_client d) (service_auth c))"

definition build_handlers :: "('w, 'x, 'p) deps \<Rightarrow> settings \<Rightarrow> 'w gworld queuer option \<Rightarrow> 'w gworld handler HandlerSet" where
  "build_handlers d c queue =
     (let prometheusNotifier = PrometheusFunctionNotifier_Notify (ConfigNamespace (s_config c));
          functionNotifiers = [LoggingNotifier_Notify, prometheusNotifier];
          forwardingNotifiers = [LoggingNotifier_Notify];
          quietNotifier = [];
          serviceAuthInjector = auth_injector c;
          forward = forwarder d c forwardingNotifiers serviceAuthInjector;
          prometheusQuery = NewPrometheusQuery (PrometheusHost (s_config c)) (PrometheusPort (s_config c))
            (d_prometheus d) (BuildVersion (d_version d))
      in \<lparr>Proxy = MakeCallIDMiddleware (d_version d) (d_env d) (d_uuid d) (forwarder d c functionNotifiers None),
          DeployFunction = forward,
          DeleteFunction = forward,
          ListFunctions = AddMetricsHandler (d_list d) forward (Fetch (d_list d) prometheusQuery),
          Alert = MakeNotifierWrapper (d_env d)
            (MakeAlertHandler (d_alert d) (external_service_query d c) (ConfigNamespace (s_config c))) quietNotifier,
          UpdateFunction = forward,
          StatusHandler = forward,
          QueuedProxy = (case queue of None \<Rightarrow> None
            | Some natsQueue \<Rightarrow> Some (MakeNotifierWrapper (d_env d)
                (MakeCallIDMiddleware (d_version d) (d_env d) (d_uuid d)
                  (MakeQueuedProxy natsQueue FunctionPrefixTrimming_Transform)) forwardingNotifiers)),
          ScaleFunction = MakeHorizontalScalingHandler (d_unscale d) (d_scale d) forward,
          InfoHandler = MakeInfoHandler (d_info d) forward,
          TelemetryHandler = forwarder d c forwardingNotifiers None,
          SecretHandler = forward,
          LogProxyHandler = NewLogHandlerFunc (d_deadline d) True (s_logs c) (WriteTimeout (s_config c)),
          NamespaceListerHandler = forward,
          NamespaceMutatorHandler = forward\<rparr>)"

text \<open>With credentials, twelve of the handlers are guarded.\<close>

definition protect :: "BasicAuthCredentials \<Rightarrow> 'w handler HandlerSet \<Rightarrow> 'w handler HandlerSet" where
  "protect creds hs =
     hs\<lparr>Alert := DecorateWithBasicAuth (Alert hs) creds,
        UpdateFunction := DecorateWithBasicAuth (UpdateFunction hs) creds,
        DeleteFunction := DecorateWithBasicAuth (DeleteFunction hs) creds,
        DeployFunction := DecorateWithBasicAuth (DeployFunction hs) creds,
        ListFunctions := DecorateWithBasicAuth (ListFunctions hs) creds,
        ScaleFunction := DecorateWithBasicAuth (ScaleFunction hs) creds,
        StatusHandler := DecorateWithBasicAuth (StatusHandler hs) creds,
        InfoHandler := DecorateWithBasicAuth (InfoHandler hs) creds,
        SecretHandler := DecorateWithBasicAuth (SecretHandler hs) creds,
        LogProxyHandler := DecorateWithBasicAuth (LogProxyHandler hs) creds,
        NamespaceListerHandler := DecorateWithBasicAuth (NamespaceListerHandler hs) creds,
        NamespaceMutatorHandler := DecorateWithBasicAuth (NamespaceMutatorHandler hs) creds\<rparr>"

section \<open>Scale from zero\<close>

text \<open>A handler of the gateway's world, run in the world with the scaling cache.\<close>

definition lift_handler :: "'w handler \<Rightarrow> 'w sstate handler" where
  "lift_handler h r = (\<lambda>s. case h r \<lparr>rw = rw s, hworld = sworld (hworld s)\<rparr> of
     (v, t) \<Rightarrow> (v, s\<lparr>rw := rw t, hworld := (hworld s)\<lparr>sworld := hworld t\<rparr>\<rparr>))"

definition scaling_config :: "'s ServiceQuery \<Rightarrow> 's ScalingConfig" where
  "scaling_config q =
     \<lparr>MaxPollCount = 1000, FunctionPollInterval = millisecond * 100, CacheExpiry = millisecond * 250,
      ConfigServiceQuery = q, SetScaleRetries = 20\<rparr>"

definition function_proxy :: "('w, 'x, 'p) deps \<Rightarrow> settings \<Rightarrow> 'w gworld handler \<Rightarrow> 'w gworld sstate handler" where
  "function_proxy d c proxy =
     (if ScaleFromZero (s_config c) then
        (let q = external_service_query d c;
             scaler = NewFunctionScaler (scaling_config (lift_query q)) (cacher_of (d_env d))
         in MakeScalingHandler (lift_env (d_env d)) (lift_handler proxy) scaler (ConfigNamespace (s_config c)))
      else lift_handler proxy)"

section \<open>Routes\<close>

definition function_routes :: "'h \<Rightarrow> 'h route list" where
  "function_routes functionProxy =
     [([Lit ''/function/'', Name ''name''], [], functionProxy),
      ([Lit ''/function/'', Name ''name'', Lit ''/''], [], functionProxy),
      ([Lit ''/function/'', Name ''name'', Lit ''/'', Params ''params''], [], functionProxy)]"

definition async_routes :: "'h option \<Rightarrow> 'h route list" where
  "async_routes queue_handler =
     (case queue_handler of None \<Rightarrow> []
      | Some q \<Rightarrow>
          [([Lit ''/async-function/'', Name ''name'', Lit ''/''], [''POST''], q),
           ([Lit ''/async-function/'', Name ''name''], [''POST''], q),
           ([Lit ''/async-function/'', Name ''name'', Lit ''/'', Params ''params''], [''POST''], q)])"

definition system_routes :: "'h HandlerSet \<Rightarrow> 'h \<Rightarrow> 'h \<Rightarrow> 'h \<Rightarrow> 'h route list" where
  "system_routes hs ui healthz home =
     [([Lit ''/system/info''], [''GET''], InfoHandler hs),
      ([Lit ''/system/telemetry''], [''GET''], TelemetryHandler hs),
      ([Lit ''/system/alert''], [''POST''], Alert hs),
      ([Lit ''/system/function/'', Name ''name''], [''GET''], StatusHandler hs),
      ([Lit ''/system/functions''], [''GET''], ListFunctions hs),
      ([Lit ''/system/functions''], [''POST''], DeployFunction hs),
      ([Lit ''/system/functions''], [''DELETE''], DeleteFunction hs),
      ([Lit ''/system/functions''], [''PUT''], UpdateFunction hs),
      ([Lit ''/system/scale-function/'', Name ''name''], [''POST''], ScaleFunction hs),
      ([Lit ''/system/secrets''], [''GET'', ''PUT'', ''POST'', ''DELETE''], SecretHandler hs),
      ([Lit ''/system/logs''], [''GET''], LogProxyHandler hs),
      ([Lit ''/system/namespaces''], [''GET''], NamespaceListerHandler hs),
      ([Lit ''/system/namespace/'', NameOpt ''namespace''], [''POST'', ''DELETE'', ''PUT'', ''GET''], NamespaceMutatorHandler hs)]
     @ async_routes (QueuedProxy hs)
     @ [([Lit ''/ui/'', AnyRest], [''GET''], ui),
        ([Lit ''/healthz''], [''GET''], healthz),
        ([Lit ''/''], [''GET''], home)]"

text \<open>\<open>http.StripPrefix\<close> and \<open>http.RedirectHandler\<close>.\<close>

definition TrimPrefix :: "string \<Rightarrow> string \<Rightarrow> string" where
  "TrimPrefix s p = (if HasPrefix s p then drop (length p) s else s)"

definition StripPrefix :: "string \<Rightarrow> 'w handler \<Rightarrow> 'w handler" where
  "StripPrefix prefix h r =
     (let p = TrimPrefix (Path (URL r)) prefix;
          rp = TrimPrefix (RawPath (URL r)) prefix
      in if length p < length (Path (URL r)) \<and> (RawPath (URL r) = [] \<or> length rp < length (RawPath (URL r)))
         then h (r\<lparr>URL := (URL r)\<lparr>Path := p, RawPath := rp\<rparr>\<rparr>)
         else http_NotFound)"

definition ui_redirect :: "'w handler" where
  "ui_redirect r =
     bindp (on_rw (header_map (\<lambda>h. header_Set ''Content-Type'' ''text/html; charset=utf-8'' (header_Set ''Location'' ''/ui/'' h)))) (\<lambda>_.
     bindp (on_rw (WriteHeader 307)) (\<lambda>_.
       on_rw (Write (''<a href='' @ [char_of (34 :: nat)] @ ''/ui/'' @ [char_of (34 :: nat)] @ ''>Temporary Redirect</a>.''
         @ [char_of (10 :: nat), char_of (10 :: nat)]))))"

definition gateway_routes :: "('w, 'x, 'p) deps \<Rightarrow> settings \<Rightarrow> 'w gworld queuer option \<Rightarrow> 'w gworld sstate handler route list" where
  "gateway_routes d c queue =
     (let hs0 = build_handlers d c queue;
          uiHandler = StripPrefix ''/ui'' (DecorateWithCORS (d_assets d) ''raw.githubusercontent.com'');
          hs = (case s_credentials c of None \<Rightarrow> hs0 | Some creds \<Rightarrow> protect creds hs0);
          ui = (case s_credentials c of None \<Rightarrow> uiHandler | Some creds \<Rightarrow> DecorateWithBasicAuth uiHandler creds);
          healthz = forwarder d c [LoggingNotifier_Notify] (auth_injector c)
      in function_routes (function_proxy d c (Proxy hs0))
         @ map (\<lambda>(t, ms, h). (t, ms, lift_handler h)) (system_routes hs ui healthz ui_redirect))"

section \<open>Starting up\<close>

text \<open>
  \<open>main\<close> up to the server: the handler it serves, or the message it ends with. A logs URL that did
  not parse again is a nil dereference.
\<close>

definition start :: "('w, 'x, 'p) deps \<Rightarrow> environment \<Rightarrow> string + 'w gworld sstate handler" where
  "start d env =
     ok_or (Read env) (\<lambda>config.
       case FunctionsProviderURL config of
         None \<Rightarrow> Inl (''You must provide an external provider via '' @ [char_of (39 :: nat)] @ ''functions_provider_url''
           @ [char_of (39 :: nat)] @ '' env-var.'')
       | Some provider \<Rightarrow>
           ok_or (if UseBasicAuth config
                  then (case d_credentials d (SecretMountPath config) of Inl e \<Rightarrow> Inl e | Inr creds \<Rightarrow> Inr (Some creds))
                  else Inr None) (\<lambda>credentials.
             case LogsProviderURL config of
               None \<Rightarrow> Inl ''nil pointer dereference''
             | Some logs \<Rightarrow>
                 ok_or (if UseNATS config
                        then (case d_connect d (the (NATSAddress config)) (the (NATSPort config)) (the (NATSClusterName config))
                            (the (NATSChannel config)) of Inl e \<Rightarrow> Inl e | Inr q \<Rightarrow> Inr (Some q))
                        else Inr None) (\<lambda>queue.
                   Inr (Router_ServeHTTP (gateway_routes d
                     \<lparr>s_config = config, s_provider = provider, s_logs = logs, s_credentials = credentials\<rparr> queue)))))"

text \<open>The metrics server, on a port of its own; \<open>metricsHandler\<close> is the one of the Prometheus library.\<close>

definition metrics_server :: "'w handler \<Rightarrow> 'w handler" where
  "metrics_server metricsHandler =
     Router_ServeHTTP [([Lit ''/metrics''], [], metricsHandler), ([Lit ''/healthz''], [], HealthzHandler)]"

section \<open>What needs credentials\<close>

lemma ok_or_Inr: "ok_or m k = Inr y \<longleftrightarrow> (\<exists>x. m = Inr x \<and> k x = Inr y)"
  by (cases m) auto

lemma start_Inr:
  assumes "start d env = Inr gateway"
  obtains config provider creds logs queue where
    "Read env = Inr config" "FunctionsProviderURL config = Some provider" "LogsProviderURL config = Some logs"
    "UseBasicAuth config \<Longrightarrow> \<exists>c. creds = Some c \<and> d_credentials d (SecretMountPath config) = Inr c"
    "\<not> UseBasicAuth config \<Longrightarrow> creds = None"
    "queue \<noteq> None \<longleftrightarrow> UseNATS config"
    "gateway = Router_ServeHTTP (gateway_routes d
      \<lparr>s_config = config, s_provider = provider, s_logs = logs, s_credentials = creds\<rparr> queue)"
proof -
  obtain config provider where 1: "Read env = Inr config" "FunctionsProviderURL config = Some provider"
    using assms by (auto simp: start_def ok_or_Inr split: option.splits)
  obtain creds logs where 2: "LogsProviderURL config = Some logs"
    "(if UseBasicAuth config then (case d_credentials d (SecretMountPath config) of Inl e \<Rightarrow> Inl e | Inr creds \<Rightarrow> Inr (Some creds))
      else Inr None) = (Inr creds :: string + BasicAuthCredentials option)"
    and "ok_or (if UseNATS config
        then (case d_connect d (the (NATSAddress config)) (the (NATSPort config)) (the (NATSClusterName config))
            (the (NATSChannel config)) of Inl e \<Rightarrow> Inl e | Inr q \<Rightarrow> Inr (Some q))
        else Inr None) (\<lambda>queue. Inr (Router_ServeHTTP (gateway_routes d
          \<lparr>s_config = config, s_provider = provider, s_logs = logs, s_credentials = creds\<rparr> queue))) = Inr gateway"
    using assms 1 by (auto simp: start_def ok_or_Inr split: option.splits)
  then obtain queue where 3: "(if UseNATS config
        then (case d_connect d (the (NATSAddress config)) (the (NATSPort config)) (the (NATSClusterName config))
            (the (NATSChannel config)) of Inl e \<Rightarrow> Inl e | Inr q \<Rightarrow> Inr (Some q))
        else Inr None) = Inr queue" "gateway = Router_ServeHTTP (gateway_routes d
      \<lparr>s_config = config, s_provider = provider, s_logs = logs, s_credentials = creds\<rparr> queue)"
    by (auto simp: ok_or_Inr)
  show thesis
  proof (rule that [OF 1 2(1) _ _ _ 3(2)])
    show "\<exists>c. creds = Some c \<and> d_credentials d (SecretMountPath config) = Inr c" if "UseBasicAuth config"
      using 2(2) that by (auto split: sum.splits)
    show "creds = None" if "\<not> UseBasicAuth config" using 2(2) that by simp
    show "queue \<noteq> None \<longleftrightarrow> UseNATS config" using 3(1) by (auto split: if_splits sum.splits)
  qed
qed

definition open_path :: "string \<Rightarrow> bool" where
  "open_path p \<longleftrightarrow> p = ''/system/telemetry'' \<or> p = ''/healthz'' \<or> p = ''/''
     \<or> HasPrefix p ''/function/'' \<or> HasPrefix p ''/async-function/''"

definition guarded :: "BasicAuthCredentials \<Rightarrow> 'w handler \<Rightarrow> bool" where
  "guarded creds h \<longleftrightarrow> (\<exists>nxt. h = DecorateWithBasicAuth nxt creds)"

lemma guardedI [intro]: "guarded creds (DecorateWithBasicAuth nxt creds)"
  by (auto simp: guarded_def)

lemma async_open: "(t, ms, h) \<in> set (async_routes q) \<Longrightarrow> match_pieces t p = Some vs \<Longrightarrow> open_path p"
  by (auto simp: async_routes_def open_path_def dest: match_Lit_prefix split: option.splits)

lemma system_routes_guarded:
  assumes "(t, ms, h) \<in> set (system_routes (protect creds hs) (DecorateWithBasicAuth ui creds) healthz home)"
    "match_pieces t p = Some vs" "\<not> open_path p"
  shows "guarded creds h"
  using assms async_open [of t ms h "QueuedProxy (protect creds hs)" p vs]
  by (auto simp: system_routes_def protect_def match_Lit_only open_path_def simp del: match_pieces.simps split: if_splits)

lemma BasicAuth_vars [simp]: "request_BasicAuth (r\<lparr>RVars := v\<rparr>) = request_BasicAuth r"
  by (simp add: request_BasicAuth_def)

lemma lift_guarded:
  assumes "guarded creds h" "rw_sent (rw s) = None" "request_BasicAuth r \<noteq> Some (User creds, Password creds)"
  shows "\<exists>t. lift_handler h r s = (Val (), t) \<and> final_status (rw t) = 401 \<and> hworld t = hworld s"
proof -
  obtain nxt where h: "h = DecorateWithBasicAuth nxt creds" using assms(1) by (auto simp: guarded_def)
  let ?s = "\<lparr>rw = rw s, hworld = sworld (hworld s)\<rparr>"
  obtain t where "h r ?s = (Val (), t)" "final_status (rw t) = 401" "hworld t = hworld ?s"
    using auth_refuses [of ?s r creds nxt] assms(2,3) h by auto
  then show ?thesis by (simp add: lift_handler_def)
qed

lemma gateway_route_guarded:
  assumes "s_credentials c = Some creds" "(t, ms, h) \<in> set (gateway_routes d c queue)"
    "match_pieces t p = Some vs" "\<not> open_path p"
  shows "\<exists>g. h = lift_handler g \<and> guarded creds g"
proof -
  have "(t, ms, h) \<notin> set (function_routes f)" for f :: "'a gworld sstate handler"
    using assms(3,4) by (auto simp: function_routes_def open_path_def dest: match_Lit_prefix)
  with assms(1,2) obtain g ui healthz home where "h = lift_handler g"
    "(t, ms, g) \<in> set (system_routes (protect creds (build_handlers d c queue)) (DecorateWithBasicAuth ui creds) healthz home)"
    by (auto simp: gateway_routes_def Let_def)
  with system_routes_guarded assms(3,4) show ?thesis by blast
qed

interpretation guarded_gateway: guarded_router "gateway_routes d (c\<lparr>s_credentials := Some creds\<rparr>) queue"
  "\<lambda>r. request_BasicAuth r = Some (User creds, Password creds)" open_path for d c creds queue
proof unfold_locales
  fix t ms h p vs r and s :: "'a gworld sstate hstate"
  assume "(t, ms, h) \<in> set (gateway_routes d (c\<lparr>s_credentials := Some creds\<rparr>) queue)" "match_pieces t p = Some vs"
    "\<not> open_path p" and a: "rw_sent (rw s) = None" "request_BasicAuth r \<noteq> Some (User creds, Password creds)"
  then obtain g where "h = lift_handler g" "guarded creds g"
    using gateway_route_guarded [of "c\<lparr>s_credentials := Some creds\<rparr>" creds t ms h d queue p vs] by auto
  with lift_guarded [OF _ a] show "\<exists>u. h r s = (Val (), u) \<and> final_status (rw u) = 401 \<and> hworld u = hworld s" by blast
qed simp

text \<open>
  C8: with basic auth on, a request without the configured user and password reaches nothing of the
  gateway but function calls, telemetry, the health check and the redirect of the start page: every
  other path is answered 401, or redirected or refused by the router, and neither the provider
  nor any other part of the world is touched.
\<close>

theorem management_needs_credentials:
  assumes "start d env = Inr gateway" "env ''basic_auth'' = ''true''"
    and "d_credentials d (non_empty (env ''secret_mount_path'') ''/run/secrets/'') = Inr creds"
    and "request_BasicAuth r \<noteq> Some (User creds, Password creds)" "\<not> open_path (Path (URL r))" "rw_sent (rw s) = None"
  shows "\<exists>t. gateway r s = (Val (), t) \<and> final_status (rw t) \<in> {301, 401, 404, 405} \<and> hworld t = hworld s"
proof -
  obtain config provider cs logs queue where cfg: "Read env = Inr config"
    and cs: "UseBasicAuth config \<Longrightarrow> \<exists>c. cs = Some c \<and> d_credentials d (SecretMountPath config) = Inr c"
    and g: "gateway = Router_ServeHTTP (gateway_routes d
      \<lparr>s_config = config, s_provider = provider, s_logs = logs, s_credentials = cs\<rparr> queue)"
    using start_Inr [OF assms(1)] by metis
  have "UseBasicAuth config" "SecretMountPath config = non_empty (env ''secret_mount_path'') ''/run/secrets/''"
    using cfg assms(2) by (auto simp: Read_def Let_def ok_or_Inr parseBoolValue_def)
  with cs assms(3) have c: "cs = Some creds" by auto
  show ?thesis
    using guarded_gateway.router_refuses [of r creds s d
        "\<lparr>s_config = config, s_provider = provider, s_logs = logs, s_credentials = cs\<rparr>" queue] assms(4-6)
    unfolding g c by simp
qed

lemma find_function_route:
  assumes "name \<noteq> []" "\<forall>c \<in> set name. name_char c" "rest = [] \<or> hd rest = CHR ''/''" "char_of (10 :: nat) \<notin> set rest"
  obtains vs where "find_route (function_routes h @ rs) m (''/function/'' @ name @ rest) = Dispatch h vs" "map_of vs ''name'' = Some name"
proof -
  define p where "p = ''/function/'' @ name @ rest"
  note t = match_name [OF assms(1-3), of "''/function/''" "''name''", folded p_def]
  have "\<exists>vs. find_route (function_routes h @ rs) m p = Dispatch h vs \<and> map_of vs ''name'' = Some name"
    using t(1,2) t(3) [of "''params''"] assms(4)
    by (cases "rest = []"; cases "rest = ''/''") (simp_all add: function_routes_def del: match_pieces.simps)
  with that show thesis unfolding p_def by blast
qed

text \<open>
  a call of a function. Whatever the method and the credentials, a clean path
  \<open>/function/name...\<close> goes to the function proxy, with the name as the router's variable.
\<close>

theorem function_calls_are_open:
  assumes "start d env = Inr gateway" "Path (URL r) = ''/function/'' @ name @ rest"
    and "name \<noteq> []" "\<forall>c \<in> set name. name_char c" "rest = [] \<or> hd rest = CHR ''/''" "char_of (10 :: nat) \<notin> set rest"
    and "cleanPath (Path (URL r)) = Path (URL r)"
  shows "\<exists>c vs queue. gateway r = function_proxy d c (Proxy (build_handlers d c queue)) (r\<lparr>RVars := vs\<rparr>) \<and> vs ''name'' = Some name
    \<and> Read env = Inr (s_config c) \<and> FunctionsProviderURL (s_config c) = Some (s_provider c)"
proof -
  obtain config provider cs logs queue where cfg: "Read env = Inr config" "FunctionsProviderURL config = Some provider"
    and g: "gateway = Router_ServeHTTP (gateway_routes d
      \<lparr>s_config = config, s_provider = provider, s_logs = logs, s_credentials = cs\<rparr> queue)"
    using start_Inr [OF assms(1)] by metis
  let ?c = "\<lparr>s_config = config, s_provider = provider, s_logs = logs, s_credentials = cs\<rparr>"
  obtain vs where "find_route (gateway_routes d ?c queue) (Method r) (Path (URL r)) =
      Dispatch (function_proxy d ?c (Proxy (build_handlers d ?c queue))) vs" "map_of vs ''name'' = Some name"
    unfolding assms(2) gateway_routes_def Let_def by (rule find_function_route [OF assms(3-6)])
  then show ?thesis
    unfolding g using assms(7) cfg
    by (intro exI [of _ ?c] exI [of _ "map_of vs"] exI [of _ queue]) (auto simp: Router_ServeHTTP_def Let_def)
qed

text \<open>
  without NATS there are no asynchronous calls: every clean path below \<open>/async-function/\<close> is
  answered 404 and nothing is touched.
\<close>

theorem async_needs_NATS:
  assumes "start d env = Inr gateway" "env ''faas_nats_address'' = [] \<or> env ''faas_nats_port'' = []"
    and "HasPrefix (Path (URL r)) ''/async-function/''" "cleanPath (Path (URL r)) = Path (URL r)" "rw_sent (rw s) = None"
  shows "\<exists>t. gateway r s = (Val (), t) \<and> final_status (rw t) = 404 \<and> hworld t = hworld s"
proof -
  obtain config provider cs logs queue where cfg: "Read env = Inr config"
    and q: "queue \<noteq> None \<longleftrightarrow> UseNATS config"
    and g: "gateway = Router_ServeHTTP (gateway_routes d
      \<lparr>s_config = config, s_provider = provider, s_logs = logs, s_credentials = cs\<rparr> queue)"
    using start_Inr [OF assms(1)] by metis
  have "\<not> UseNATS config"
    using cfg assms(2) by (auto simp: Read_def Let_def ok_or_Inr UseNATS_def read_int_def split: if_splits)
  with q have q: "queue = None" by blast
  obtain x where p: "Path (URL r) = ''/async-function/'' @ x" using assms(3) by (auto simp: HasPrefix_iff)
  have "QueuedProxy (protect k (build_handlers d c None)) = None" "QueuedProxy (build_handlers d c None) = None" for k c
    by (simp_all add: protect_def build_handlers_def Let_def)
  then have "find_route (gateway_routes d c None) (Method r) (Path (URL r)) = NoRoute" for c
    unfolding p
    by (cases "s_credentials c")
      (simp_all add: gateway_routes_def Let_def function_routes_def system_routes_def async_routes_def HasPrefix_def)
  then have "gateway r s = http_Error ''404 page not found'' 404 s"
    unfolding g q using assms(4) by (simp add: Router_ServeHTTP_def Let_def)
  with http_Error_run [OF assms(5), of 404] show ?thesis by auto
qed

section \<open>Encoded names\<close>

lemma GetServiceName_function:
  assumes "name \<noteq> []" "CHR ''/'' \<notin> set name" "CHR ''?'' \<notin> set name" "tail = [] \<or> hd tail = CHR ''?''"
  shows "GetServiceName (''/function/'' @ name @ tail) = name"
proof -
  have "HasPrefix (''/function/'' @ name @ tail) ''/function/''" by (rule HasPrefix_append)
  moreover have "functionMatcher (''/function/'' @ name @ tail) = [''/function/'' @ name, name, []]"
    using functionMatcher_function [OF assms(1-3), of "[]" tail] assms(4) by simp
  ultimately show ?thesis
    using assms(2) by (simp add: GetServiceName_def hasPathCount_def nameIndex_def Trim_no_cut del: append_Cons)
qed

lemma url_String_raw:
  assumes "Scheme u = []" "UHost u = []" "Path u = ''/function/'' @ name" "RawPath u = ''/function/'' @ enc"
    and "unescape enc = Some name" "validEncoded enc"
  shows "url_String u = ''/function/'' @ enc @ (if RawQuery u = [] then [] else ''?'' @ RawQuery u)"
proof -
  have "\<forall>c \<in> set ''/function/''. \<not> shouldEscape c" by code_simp
  then have "validEncoded (''/function/'' @ enc)" using assms(6) by (auto simp: validEncoded_def)
  moreover have "unescape (''/function/'' @ enc) = Some (''/function/'' @ name)" using assms(5) by simp
  ultimately have "EscapedPath u = ''/function/'' @ enc" using assms(3,4) by (simp add: EscapedPath_def)
  then show ?thesis using assms(1,2) by (simp add: url_String_def Let_def)
qed

text \<open>
  C37: a call with percent escapes in the name of the function reaches that function, but is counted
  under the name as it was written: the router decodes the path, \<open>GetServiceName\<close> does not.
\<close>

theorem encoded_name_has_own_label:
  assumes "Scheme (URL r) = []" "UHost (URL r) = []"
    and "Path (URL r) = ''/function/'' @ name" "RawPath (URL r) = ''/function/'' @ enc"
    and "name \<noteq> []" "\<forall>c \<in> set name. name_char c" "unescape enc = Some name" "validEncoded enc"
    and "enc \<noteq> []" "CHR ''/'' \<notin> set enc" "CHR ''?'' \<notin> set enc" "CHR ''.'' \<notin> set enc" "ns \<noteq> []"
  shows "\<exists>vs. find_route (function_routes h @ rs) m (Path (URL r)) = Dispatch h vs \<and> map_of vs ''name'' = Some name
    \<and> metric_name ns (url_String (URL r)) = enc @ ''.'' @ ns"
proof -
  obtain vs where f: "find_route (function_routes h @ rs) m (''/function/'' @ name @ []) = Dispatch h vs" "map_of vs ''name'' = Some name"
    using assms(5,6) by (rule find_function_route) auto
  let ?tail = "if RawQuery (URL r) = [] then [] else ''?'' @ RawQuery (URL r)"
  have "GetServiceName (url_String (URL r)) = enc"
    unfolding url_String_raw [OF assms(1-4,7,8)] using assms(9-11) by (intro GetServiceName_function) auto
  then have "metric_name ns (url_String (URL r)) = enc @ ''.'' @ ns"
    using assms(12,13) by (simp add: metric_name_def ContainsByte_def)
  with f assms(3) show ?thesis by auto
qed

section \<open>Starting\<close>

text \<open>
  the gateway starts exactly when its configuration is accepted, a provider is given and its
  URL survives being printed for the logs, the credentials can be read where they are asked for and
  the queue can be reached where it is configured.
\<close>

theorem start_iff:
  "(\<exists>gateway. start d env = Inr gateway) \<longleftrightarrow>
    (\<exists>cfg. Read env = Inr cfg \<and> UseExternalProvider cfg \<and> LogsProviderURL cfg \<noteq> None
      \<and> (UseBasicAuth cfg \<longrightarrow> (\<exists>c. d_credentials d (SecretMountPath cfg) = Inr c))
      \<and> (UseNATS cfg \<longrightarrow> (\<exists>q. d_connect d (the (NATSAddress cfg)) (the (NATSPort cfg)) (the (NATSClusterName cfg))
           (the (NATSChannel cfg)) = Inr q)))"
proof (cases "Read env")
  case (Inl e)
  then show ?thesis by (simp add: start_def)
next
  case (Inr cfg)
  show ?thesis
  proof (cases "UseExternalProvider cfg \<and> LogsProviderURL cfg \<noteq> None")
    case False
    then have "\<not> (\<exists>gateway. start d env = Inr gateway)"
      using Inr by (auto simp: start_def UseExternalProvider_def ok_or_Inr split: option.splits)
    with False Inr show ?thesis by auto
  next
    case True
    then obtain provider logs where "FunctionsProviderURL cfg = Some provider" "LogsProviderURL cfg = Some logs"
      by (auto simp: UseExternalProvider_def)
    then show ?thesis
      using True Inr by (auto simp: start_def ok_or_Inr split: sum.splits)
  qed
qed

section \<open>Witnesses\<close>

text \<open>A gateway with basic auth, whose provider refuses every connection.\<close>

definition refusing :: "'w client" where
  "refusing req = retp (None, Some ''refused'')"

definition demo_deps :: "(nat, unit, string) deps" where
  "demo_deps = \<lparr>d_env = \<lparr>Now = (\<lambda>w. (0, w)), Sleep = (\<lambda>d w. w)\<rparr>, d_version = ''1.0'', d_transport = (\<lambda>_. refusing),
     d_default = refusing, d_deadline = (\<lambda>_. refusing), d_query_client = refusing, d_prometheus = refusing,
     d_outgoing = Header, d_uuid = retp ''id'', d_connect = (\<lambda>_ _ _ _. Inl ''no queue''), d_assets = (\<lambda>r. retp ()),
     d_codec = \<lparr>basic_header = basic_value, unmarshal_status = (\<lambda>_. Inl ''bad''), marshal_scale = (\<lambda>_. [])\<rparr>,
     d_list = demo_list_codec, d_info = demo_info, d_alert = (\<lambda>_. None), d_unscale = (\<lambda>_. None), d_scale = (\<lambda>_. []),
     d_credentials = (\<lambda>p. if p = ''/run/secrets/'' then Inr demo_credentials else Inl ''no such file'')\<rparr>"

definition demo_gateway_env :: environment where
  "demo_gateway_env = Config.demo_env(''basic_auth'' := ''true'')"

lemma demo_Read: "\<exists>cfg. Read demo_gateway_env = Inr cfg \<and> UseExternalProvider cfg \<and> LogsProviderURL cfg \<noteq> None
    \<and> SecretMountPath cfg = ''/run/secrets/'' \<and> \<not> UseNATS cfg"
proof -
  have u: "url_Parse (url_String \<lparr>Scheme = ''http'', UHost = ''p:8080'', Path = ''/'', RawPath = [], RawQuery = []\<rparr>) \<noteq> None"
    using url_reparse [of "''/''" "''p:8080''" "[]"] demo_env_ok by simp
  have "url_or_empty ''http://p:8080/''" using demo_env_ok(2) by (simp add: url_or_empty_def)
  then show ?thesis
    using demo_env_ok(1,2) u unfolding Read_def Let_def read_int_cases read_url_cases
    by (simp add: demo_gateway_env_def Config.demo_env_def number_or_empty_def url_or_empty_def UseExternalProvider_def UseNATS_def non_empty_def)
qed

lemma start_iff_witness: "\<exists>gateway. start demo_deps demo_gateway_env = Inr gateway"
  unfolding start_iff using demo_Read by (auto simp: demo_deps_def)

lemma demo_start: obtains gateway where "start demo_deps demo_gateway_env = Inr gateway"
proof -
  obtain cfg provider logs where "Read demo_gateway_env = Inr cfg" "FunctionsProviderURL cfg = Some provider"
    "LogsProviderURL cfg = Some logs" "SecretMountPath cfg = ''/run/secrets/''" "\<not> UseNATS cfg"
    using demo_Read by (auto simp: UseExternalProvider_def)
  then show thesis
    using that by (cases "UseBasicAuth cfg") (auto simp: start_def ok_or_Inr demo_deps_def)
qed

definition demo_visit :: "string \<Rightarrow> string \<Rightarrow> string \<Rightarrow> request" where
  "demo_visit meth path raw = \<lparr>Method = meth, URL = \<lparr>Scheme = [], UHost = [], Path = path, RawPath = raw, RawQuery = []\<rparr>,
     Header = (\<lambda>_. None), RHost = ''gw'', RemoteAddr = ''1.2.3.4:5'', Body = None, RVars = (\<lambda>_. None)\<rparr>"

definition demo_gateway_state :: "nat gworld sstate hstate" where
  "demo_gateway_state = \<lparr>rw = new_writer, hworld = \<lparr>fcache = NewFunctionCache 250, calls = [], sworld = demo_gworld\<rparr>\<rparr>"

lemma demo_anonymous: "request_BasicAuth (demo_visit m p raw) = None"
  by (simp add: request_BasicAuth_def demo_visit_def header_Get_def)

lemma management_needs_credentials_witness:
  "\<exists>gateway t. start demo_deps demo_gateway_env = Inr gateway \<and> gateway (demo_visit ''DELETE'' ''/system/functions'' []) demo_gateway_state = (Val (), t)
    \<and> final_status (rw t) \<in> {301, 401, 404, 405} \<and> hworld t = hworld demo_gateway_state"
proof -
  obtain gateway where g: "start demo_deps demo_gateway_env = Inr gateway" by (rule demo_start)
  have "d_credentials demo_deps (non_empty (demo_gateway_env ''secret_mount_path'') ''/run/secrets/'') = Inr demo_credentials"
    by (simp add: demo_gateway_env_def Config.demo_env_def non_empty_def demo_deps_def)
  moreover have "request_BasicAuth (demo_visit ''DELETE'' ''/system/functions'' []) \<noteq> Some (User demo_credentials, Password demo_credentials)"
    by (simp add: demo_anonymous)
  moreover have "\<not> open_path (Path (URL (demo_visit ''DELETE'' ''/system/functions'' [])))" "rw_sent (rw demo_gateway_state) = None"
    "demo_gateway_env ''basic_auth'' = ''true''"
    by (simp_all add: demo_visit_def open_path_def HasPrefix_def demo_gateway_state_def new_writer_def demo_gateway_env_def)
  ultimately show ?thesis using g management_needs_credentials [OF g] by blast
qed

lemma function_calls_are_open_witness:
  "\<exists>gateway c vs queue. start demo_deps demo_gateway_env = Inr gateway
    \<and> gateway (demo_visit ''GET'' ''/function/f.fn/a'' []) = function_proxy demo_deps c (Proxy (build_handlers demo_deps c queue))
        ((demo_visit ''GET'' ''/function/f.fn/a'' [])\<lparr>RVars := vs\<rparr>) \<and> vs ''name'' = Some ''f.fn''"
proof -
  obtain gateway where g: "start demo_deps demo_gateway_env = Inr gateway" by (rule demo_start)
  have "\<forall>c \<in> set ''f.fn''. name_char c" "char_of (10 :: nat) \<notin> set ''/a''" "cleanPath ''/function/f.fn/a'' = ''/function/f.fn/a''" by code_simp+
  then show ?thesis
    using g function_calls_are_open [OF g, of "demo_visit ''GET'' ''/function/f.fn/a'' []" "''f.fn''" "''/a''"]
    by (auto simp: demo_visit_def)
qed

lemma async_needs_NATS_witness:
  "\<exists>gateway t. start demo_deps demo_gateway_env = Inr gateway \<and> gateway (demo_visit ''POST'' ''/async-function/f'' []) demo_gateway_state = (Val (), t)
    \<and> final_status (rw t) = 404"
proof -
  obtain gateway where g: "start demo_deps demo_gateway_env = Inr gateway" by (rule demo_start)
  have "cleanPath ''/async-function/f'' = ''/async-function/f''" by code_simp
  then show ?thesis
    using g async_needs_NATS [OF g, of "demo_visit ''POST'' ''/async-function/f'' []" demo_gateway_state]
    by (auto simp: demo_visit_def HasPrefix_def demo_gateway_env_def Config.demo_env_def demo_gateway_state_def new_writer_def)
qed

lemma encoded_name_has_own_label_witness:
  "\<exists>vs. find_route (function_routes (0 :: nat) @ []) ''GET'' ''/function/foo'' = Dispatch 0 vs \<and> map_of vs ''name'' = Some ''foo''
    \<and> metric_name ''fn'' (url_String (URL (demo_visit ''GET'' ''/function/foo'' ''/function/%66oo''))) = ''%66oo.fn''"
proof -
  have "\<forall>c \<in> set ''foo''. name_char c" "unescape ''%66oo'' = Some ''foo''" "validEncoded ''%66oo''" by code_simp+
  then show ?thesis
    using encoded_name_has_own_label [of "demo_visit ''GET'' ''/function/foo'' ''/function/%66oo''" "''foo''" "''%66oo''" "''fn''" 0 "[]" "''GET''"]
    by (simp add: demo_visit_def)
qed

end
