(* ===== verification/MetricsSetup.thy ===== *)
theory MetricsSetup
  imports Exporter
begin

text \<open>
  The set-up of the metrics: the names and labels of the four vectors (\<open>metrics/metrics.go\<close>), what the
  exporter announces to Prometheus (\<open>Describe\<close> of \<open>metrics/exporter.go\<close>), its registration, which is done
  once, and the watcher that runs behind it. Of the Prometheus library the test is modelled that a
  registry makes of the descriptions of a new collector.
\<close>

section \<open>Names and labels\<close>

record metric_opts =
  MNamespace :: string
  MSubsystem :: string
  MName :: string
  MHelp :: string
  MLabels :: "string list"

definition functions_seconds :: metric_opts where
  "functions_seconds = \<lparr>MNamespace = [], MSubsystem = [], MName = ''gateway_functions_seconds'',
     MHelp = ''Function time taken'', MLabels = [''function_name'', ''code'']\<rparr>"

definition invocation_total :: metric_opts where
  "invocation_total = \<lparr>MNamespace = ''gateway'', MSubsystem = ''function'', MName = ''invocation_total'',
     MHelp = ''Function metrics'', MLabels = [''function_name'', ''code'']\<rparr>"

definition service_count :: metric_opts where
  "service_count = \<lparr>MNamespace = ''gateway'', MSubsystem = [], MName = ''service_count'',
     MHelp = ''Current count of replicas for function'', MLabels = [''function_name'']\<rparr>"

definition invocation_started :: metric_opts where
  "invocation_started = \<lparr>MNamespace = ''gateway'', MSubsystem = ''function'', MName = ''invocation_started'',
     MHelp = ''The total number of function HTTP requests started.'', MLabels = [''function_name'']\<rparr>"

text \<open>\<open>prometheus.Desc\<close> of a vector, and \<open>BuildFQName\<close>.\<close>

record desc =
  fqName :: string
  helpText :: string
  variableLabels :: "string list"

definition BuildFQName :: "string \<Rightarrow> string \<Rightarrow> string \<Rightarrow> string" where
  "BuildFQName namespace subsystem name =
     (if name = [] then []
      else if namespace \<noteq> [] \<and> subsystem \<noteq> [] then join_with ''_'' [namespace, subsystem, name]
      else if namespace \<noteq> [] then join_with ''_'' [namespace, name]
      else if subsystem \<noteq> [] then join_with ''_'' [subsystem, name]
      else name)"

definition desc_of :: "metric_opts \<Rightarrow> desc" where
  "desc_of p = \<lparr>fqName = BuildFQName (MNamespace p) (MSubsystem p) (MName p), helpText = MHelp p, variableLabels = MLabels p\<rparr>"

definition Describe :: "desc list" where
  "Describe = [desc_of invocation_total, desc_of functions_seconds, desc_of service_count, desc_of invocation_started]"

text \<open>The description that goes with what \<open>Collect\<close> sends.\<close>

fun sample_desc :: "sample_set \<Rightarrow> desc" where
  "sample_desc (InvocationSamples c) = desc_of invocation_total"
| "sample_desc (DurationSamples c) = desc_of functions_seconds"
| "sample_desc (StartedSamples c) = desc_of invocation_started"
| "sample_desc (ReplicaSamples c) = desc_of service_count"

section \<open>Registration\<close>

text \<open>
  A registry of descriptions without constant labels: \<open>dims\<close> maps the names it has to their help text
  and label names, \<open>collectors\<close> are its collectors, by the names they describe.
\<close>

record registry =
  dims :: "string \<Rightarrow> (string \<times> string set) option"
  collectors :: "string set set"

definition desc_dim :: "desc \<Rightarrow> string \<times> string set" where
  "desc_dim d = (helpText d, set (variableLabels d))"

text \<open>The tests of \<open>Register\<close>, one description after the other: \<open>seen\<close> are the new names, \<open>dup\<close> that a name existed.\<close>

fun check_descs :: "registry \<Rightarrow> desc list \<Rightarrow> (string \<Rightarrow> (string \<times> string set) option) \<Rightarrow> bool
    \<Rightarrow> string + (string \<Rightarrow> (string \<times> string set) option) \<times> bool" where
  "check_descs g [] seen dup = Inr (seen, dup)"
| "check_descs g (d # ds) seen dup =
     (case dims g (fqName d) of
        Some x \<Rightarrow>
          if x \<noteq> desc_dim d then Inl ''a previously registered descriptor has different label names or a different help string''
          else check_descs g ds seen True
      | None \<Rightarrow>
          (case seen (fqName d) of
             Some x \<Rightarrow>
               if x \<noteq> desc_dim d then Inl ''descriptors reported by collector have inconsistent label names or help strings''
               else check_descs g ds seen dup
           | None \<Rightarrow> check_descs g ds (seen(fqName d \<mapsto> desc_dim d)) dup))"

definition Register :: "desc list \<Rightarrow> registry \<Rightarrow> string + registry" where
  "Register ds g =
     (case check_descs g ds Map.empty False of
        Inl e \<Rightarrow> Inl e
      | Inr (seen, dup) \<Rightarrow>
          if ds = [] then Inr g
          else if fqName ` set ds \<in> collectors g then Inl ''duplicate metrics collector registration attempted''
          else if dup then Inl ''descriptor already exists with the same fully-qualified name and const label values''
          else Inr (g\<lparr>dims := dims g ++ seen, collectors := insert (fqName ` set ds) (collectors g)\<rparr>))"

text \<open>\<open>sync.Once\<close>: the call counts as done when it panics, too.\<close>

record metrics_setup =
  once :: bool
  registered :: registry

definition RegisterExporter :: "desc list \<Rightarrow> (metrics_setup, unit) prog" where
  "RegisterExporter describe = (\<lambda>s.
     if once s then (Val (), s)
     else (case Register describe (registered s) of
             Inl e \<Rightarrow> (Panic e, s\<lparr>once := True\<rparr>)
           | Inr g \<Rightarrow> (Val (), s\<lparr>once := True, registered := g\<rparr>)))"

text \<open>\<open>metadata_query.go\<close>, which nothing uses.\<close>

record MetadataQuery =
  MCredentials :: "BasicAuthCredentials option"

definition NewMetadataQuery :: "BasicAuthCredentials option \<Rightarrow> MetadataQuery" where
  "NewMetadataQuery creds = \<lparr>MCredentials = creds\<rparr>"

section \<open>The watcher\<close>

text \<open>The transport \<open>getHTTPClient\<close> sets up; the client made with it is a parameter.\<close>

record transport_settings =
  DialTimeout :: duration
  DialKeepAlive :: duration
  TMaxIdleConns :: int
  DisableKeepAlives :: bool
  IdleConnTimeout :: duration
  ExpectContinueTimeout :: duration

definition getHTTPClient :: "duration \<Rightarrow> transport_settings" where
  "getHTTPClient timeout = \<lparr>DialTimeout = timeout, DialKeepAlive = 0, TMaxIdleConns = 1, DisableKeepAlives = True,
     IdleConnTimeout = 120 * millisecond, ExpectContinueTimeout = 1500 * millisecond\<rparr>"

text \<open>
  The goroutine of \<open>StartServiceWatcher\<close> over its first \<open>n\<close> ticks. Nothing ever closes \<open>quit\<close>, so it runs as
  long as the gateway; the arguments \<open>metricsOptions\<close> and \<open>label\<close> are not used.
\<close>

fun StartServiceWatcher :: "(transport_settings \<Rightarrow> 'w client) \<Rightarrow> 'x watch_codec \<Rightarrow> url \<Rightarrow> nat \<Rightarrow> 'x Exporter \<Rightarrow> ('w, 'x Exporter) prog" where
  "StartServiceWatcher client cd endpointURL 0 e = retp e"
| "StartServiceWatcher client cd endpointURL (Suc n) e =
     bindp (watcher_tick cd (client (getHTTPClient (5 * second))) endpointURL e) (StartServiceWatcher client cd endpointURL n)"

section \<open>Properties\<close>

lemma names:
  "fqName (desc_of invocation_total) = ''gateway_function_invocation_total''"
  "fqName (desc_of functions_seconds) = ''gateway_functions_seconds''"
  "fqName (desc_of service_count) = ''gateway_service_count''"
  "fqName (desc_of invocation_started) = ''gateway_function_invocation_started''"
  by code_simp+

lemma check_new:
  assumes "\<forall>d \<in> set ds. dims g (fqName d) = None \<and> seen (fqName d) = None" "distinct (map fqName ds)"
  shows "check_descs g ds seen dup = Inr (seen ++ map_of (map (\<lambda>d. (fqName d, desc_dim d)) ds), dup)"
  using assms
proof (induction ds arbitrary: seen)
  case (Cons d ds)
  let ?new = "map_of (map (\<lambda>d. (fqName d, desc_dim d)) ds)"
  have new: "\<forall>x \<in> set ds. fqName x \<noteq> fqName d" using Cons.prems(2) by (simp add: image_iff) metis
  have "?new (fqName d) = None" using Cons.prems(2) by (auto simp: map_of_eq_None_iff)
  then have "seen(fqName d \<mapsto> desc_dim d) ++ ?new = seen ++ ?new(fqName d \<mapsto> desc_dim d)"
    by (auto simp: map_add_def fun_eq_iff split: option.split)
  moreover have "check_descs g (d # ds) seen dup = check_descs g ds (seen(fqName d \<mapsto> desc_dim d)) dup"
    using Cons.prems(1) by simp
  moreover have "check_descs g ds (seen(fqName d \<mapsto> desc_dim d)) dup = Inr (seen(fqName d \<mapsto> desc_dim d) ++ ?new, dup)"
    using Cons.prems new by (intro Cons.IH) auto
  ultimately show ?case by (simp only: list.map map_of.simps fst_conv snd_conv map_add_upd)
qed simp

lemma describe_distinct: "distinct (map fqName Describe)"
  by (simp add: Describe_def names)

text \<open>
  the exporter is registered at most once and never refused. On a registry that has none of its four
  names, as the library's own collectors leave it, registering it succeeds and adds exactly these names with
  their labels; every further call does nothing, where the registry itself would refuse it with a panic.
\<close>

theorem RegisterExporter_once:
  assumes "\<not> once s" "\<forall>d \<in> set Describe. dims (registered s) (fqName d) = None"
    and "fqName ` set Describe \<notin> collectors (registered s)"
  shows "\<exists>t. RegisterExporter Describe s = (Val (), t) \<and> RegisterExporter Describe t = (Val (), t)
    \<and> dims (registered t) = dims (registered s) ++ map_of (map (\<lambda>d. (fqName d, desc_dim d)) Describe)
    \<and> (\<exists>e. Register Describe (registered t) = Inl e)"
proof -
  let ?new = "map_of (map (\<lambda>d. (fqName d, desc_dim d)) Describe)"
  let ?g = "(registered s)\<lparr>dims := dims (registered s) ++ ?new, collectors := insert (fqName ` set Describe) (collectors (registered s))\<rparr>"
  have "Register Describe (registered s) = Inr ?g"
    using check_new [OF _ describe_distinct, of "registered s" Map.empty False] assms(2,3)
    by (simp add: Register_def) (simp add: Describe_def)
  then have run: "RegisterExporter Describe s = (Val (), s\<lparr>once := True, registered := ?g\<rparr>)"
    using assms(1) by (simp add: RegisterExporter_def)
  have "\<exists>e. Register Describe ?g = Inl e"
    by (simp add: Register_def Describe_def split: sum.split prod.split)
  with run show ?thesis by (intro exI [of _ "s\<lparr>once := True, registered := ?g\<rparr>"]) (simp add: RegisterExporter_def)
qed

text \<open>Everything a scrape sends has been described.\<close>

lemma Collect_described:
  assumes "Collect e m = (Val out, m')"
  shows "set (map sample_desc out) = set Describe"
  using assms by (auto simp: Collect_def go_simps Describe_def)

text \<open>What the watcher asks does not depend on the list it has.\<close>

lemma authorized_same: "authorized_get cd (e\<lparr>services := x\<rparr>) u = authorized_get cd e u"
  by (simp add: authorized_get_def split: option.split)

lemma asks_same:
  "getNamespaces cd c (e\<lparr>services := x\<rparr>) u = getNamespaces cd c e u"
  "getFunctions cd c (e\<lparr>services := x\<rparr>) u n = getFunctions cd c e u n"
  by (simp_all add: getNamespaces_def getFunctions_def authorized_same)

text \<open>
  the watcher follows the provider. While the provider answers the same, one tick is enough: after any
  number of ticks but none the exporter has the list of that provider, and the exporter's credentials and
  namespace stay as they were set.
\<close>

theorem watcher_settles:
  assumes "getNamespaces cd (client (getHTTPClient (5 * second))) e u w = (Val (ns, err), w)"
    and "\<And>n. getFunctions cd (client (getHTTPClient (5 * second))) e u n w = (Val (R n), w)"
    and "ns \<noteq> [] \<or> R (ExporterNamespace e) = Inr fs"
  shows "StartServiceWatcher client cd u (Suc n) e w = (Val (e\<lparr>services :=
      if ns = [] then fs else concat (map (\<lambda>n. case R n of Inl _ \<Rightarrow> [] | Inr fs \<Rightarrow> fs) ns)\<rparr>), w)"
proof -
  let ?c = "client (getHTTPClient (5 * second))"
  let ?fs = "if ns = [] then fs else concat (map (\<lambda>n. case R n of Inl _ \<Rightarrow> [] | Inr fs \<Rightarrow> fs) ns)"
  have tick: "watcher_tick cd ?c u (e\<lparr>services := x\<rparr>) w = (Val (e\<lparr>services := ?fs\<rparr>), w)" for x
    using watcher_tick_lists [of cd ?c "e\<lparr>services := x\<rparr>" u w ns err R] assms by (simp add: asks_same)
  have loop: "StartServiceWatcher client cd u n (e\<lparr>services := ?fs\<rparr>) w = (Val (e\<lparr>services := ?fs\<rparr>), w)" for n
    by (induction n) (simp_all only: StartServiceWatcher.simps retp_run bindp_run tick prod.case go.case)
  have "watcher_tick cd ?c u e w = (Val (e\<lparr>services := ?fs\<rparr>), w)" using tick [of "services e"] by simp
  then show ?thesis by (simp only: StartServiceWatcher.simps bindp_run loop prod.case go.case)
qed

section \<open>Witnesses\<close>

lemma RegisterExporter_once_witness:
  "\<exists>t. RegisterExporter Describe \<lparr>once = False, registered = \<lparr>dims = Map.empty, collectors = {}\<rparr>\<rparr> = (Val (), t)
    \<and> dims (registered t) ''gateway_service_count'' = Some (''Current count of replicas for function'', {''function_name''})"
proof -
  let ?s = "\<lparr>once = False, registered = \<lparr>dims = Map.empty, collectors = {}\<rparr>\<rparr>"
  obtain t where "RegisterExporter Describe ?s = (Val (), t)"
    "dims (registered t) = dims (registered ?s) ++ map_of (map (\<lambda>d. (fqName d, desc_dim d)) Describe)"
    using RegisterExporter_once [of ?s] by auto
  then show ?thesis by (simp add: Describe_def names) (simp add: desc_dim_def desc_of_def service_count_def)
qed

lemma watcher_settles_witness:
  "StartServiceWatcher (\<lambda>_. demo_watch_client) demo_watch_codec demo_endpoint 3 demo_exporter 0
    = (Val (demo_exporter\<lparr>services := [demo_service ''f'' ''a'']\<rparr>), 0)"
  using watcher_settles [where client = "\<lambda>_. demo_watch_client" and n = 2 and fs = "[]", OF demo_getNamespaces demo_getFunctions]
  by (simp add: numeral_eq_Suc)

end
