(* ===== verification/Serving.thy ===== *)
theory Serving
  imports Gateway MetricsSetup
begin

text \<open>
  The rest of \<open>main.go\<close>: the two HTTP servers with their addresses and time-outs, and the exporter that is
  started beside them. What the servers do with a connection is \<open>net/http\<close>; here it is fixed what they are
  given, from the environment to the fields of \<open>http.Server\<close>.
\<close>

section \<open>The servers\<close>

text \<open>A time-out of \<open>http.Server\<close> that is zero or negative means no time-out.\<close>

record 'h http_server =
  SrvAddr :: string
  SrvReadTimeout :: duration
  SrvWriteTimeout :: duration
  MaxHeaderBytes :: int
  SrvHandler :: 'h

definition DefaultMaxHeaderBytes :: int where
  "DefaultMaxHeaderBytes = push_bit 20 1"

definition gateway_server :: "GatewayConfig \<Rightarrow> 'h \<Rightarrow> 'h http_server" where
  "gateway_server config r =
     (let tcpPort = 8080
      in \<lparr>SrvAddr = '':'' @ Itoa tcpPort, SrvReadTimeout = ReadTimeout config, SrvWriteTimeout = WriteTimeout config,
          MaxHeaderBytes = DefaultMaxHeaderBytes, SrvHandler = r\<rparr>)"

definition runMetricsServer :: "'w handler \<Rightarrow> 'w handler http_server" where
  "runMetricsServer metricsHandler =
     (let port = 8082; readTimeout = 5 * second; writeTimeout = 5 * second
      in \<lparr>SrvAddr = '':'' @ Itoa port, SrvReadTimeout = readTimeout, SrvWriteTimeout = writeTimeout,
          MaxHeaderBytes = DefaultMaxHeaderBytes, SrvHandler = metrics_server metricsHandler\<rparr>)"

section \<open>The exporter\<close>

text \<open>The exporter of the gateway, with the interval of its watcher.\<close>

definition setup_exporter :: "GatewayConfig \<Rightarrow> BasicAuthCredentials option \<Rightarrow> 'x Exporter \<times> duration" where
  "setup_exporter config creds =
     (let servicePollInterval = second * 5 in (NewExporter creds (ConfigNamespace config), servicePollInterval))"

text \<open>The cache of the annotations, with the query that \<open>MakeQueuedProxy\<close> is given and does not use.\<close>

definition cached_function_query :: "('w, 'x, 'p) deps \<Rightarrow> settings \<Rightarrow> ('w gworld sstate CachedFunctionQuery) \<times> FunctionCache" where
  "cached_function_query d c =
     (let q = lift_query (external_service_query d c);
          functionAnnotationCache = NewFunctionCache (CacheExpiry (scaling_config q))
      in (NewCachedFunctionQuery (cacher_of (d_env d)) q, functionAnnotationCache))"

section \<open>The program\<close>

record ('g, 'm, 'x) program =
  p_gateway :: "'g http_server"
  p_metrics :: "'m http_server"
  p_exporter :: "'x Exporter"
  p_interval :: duration

definition gateway_main :: "('w, 'x, 'p) deps \<Rightarrow> 'm handler \<Rightarrow> environment
    \<Rightarrow> string + ('w gworld sstate handler, 'm handler, 'x) program" where
  "gateway_main d metricsHandler env =
     ok_or (start d env) (\<lambda>r.
     ok_or (Read env) (\<lambda>config.
       let creds = (if UseBasicAuth config then (case d_credentials d (SecretMountPath config) of Inl _ \<Rightarrow> None | Inr c \<Rightarrow> Some c) else None);
           (exporter, interval) = setup_exporter config creds
       in Inr \<lparr>p_gateway = gateway_server config r, p_metrics = runMetricsServer metricsHandler,
               p_exporter = exporter, p_interval = interval\<rparr>))"

section \<open>Properties\<close>

lemma gateway_main_Inr:
  assumes "gateway_main d mh env = Inr p"
  obtains r config where "start d env = Inr r" "Read env = Inr config" "p_gateway p = gateway_server config r"
    "p_metrics p = runMetricsServer mh" "ExporterNamespace (p_exporter p) = ConfigNamespace config"
    "credentials (p_exporter p) \<noteq> None \<longleftrightarrow> UseBasicAuth config"
proof -
  obtain r config where s: "start d env = Inr r" "Read env = Inr config"
    using assms by (auto simp: gateway_main_def ok_or_Inr)
  obtain config' where "Read env = Inr config'" "UseBasicAuth config' \<Longrightarrow> \<exists>c. d_credentials d (SecretMountPath config') = Inr c"
    using s(1) by (rule start_Inr) blast
  with s that show thesis
    using assms
    by (cases "UseBasicAuth config") (auto simp: gateway_main_def ok_or_Inr setup_exporter_def NewExporter_def Let_def)
qed

lemma Read_timeouts:
  assumes "Read env = Inr config"
  shows "ReadTimeout config = parseIntOrDurationValue (env ''read_timeout'') (second * 60)"
    "WriteTimeout config = parseIntOrDurationValue (env ''write_timeout'') (second * 60)"
  using assms by (auto simp: Read_def ok_or_Inr Let_def)

text \<open>
  C40: the addresses and time-outs of the two servers, from the environment. The time-out for reading and the one
  for writing are each taken from their own variable: a number of seconds up to 9223372036 is the
  time-out of the gateway's server, an unset variable means a minute; a larger number, up to 18446744073, leaves the
  server with a negative time-out, which is none at all. The server of the metrics has five seconds for both
  whatever the environment says.
\<close>

theorem server_timeouts:
  assumes "gateway_main d mh env = Inr p"
  shows "(\<forall>(v, timeout) \<in> {(''read_timeout'', SrvReadTimeout), (''write_timeout'', SrvWriteTimeout)}.
        (env v = [] \<longrightarrow> timeout (p_gateway p) = 60 * second)
      \<and> (\<forall>m \<le> 9223372036. env v = Itoa (int m) \<longrightarrow> timeout (p_gateway p) = int m * second)
      \<and> (\<forall>m. 9223372037 \<le> m \<and> m \<le> 18446744073 \<and> env v = Itoa m \<longrightarrow> timeout (p_gateway p) < 0))
    \<and> SrvReadTimeout (p_metrics p) = 5 * second \<and> SrvWriteTimeout (p_metrics p) = 5 * second
    \<and> SrvAddr (p_gateway p) = '':8080'' \<and> SrvAddr (p_metrics p) = '':8082''"
proof -
  obtain r config where c: "Read env = Inr config" "p_gateway p = gateway_server config r" "p_metrics p = runMetricsServer mh"
    using assms by (rule gateway_main_Inr)
  have t: "SrvReadTimeout (p_gateway p) = parseIntOrDurationValue (env ''read_timeout'') (60 * second)"
    "SrvWriteTimeout (p_gateway p) = parseIntOrDurationValue (env ''write_timeout'') (60 * second)"
    using Read_timeouts [OF c(1)] c(2) by (simp_all add: gateway_server_def Let_def)
  have wrap: "parseIntOrDurationValue (Itoa m) f < 0" if "9223372037 \<le> m" "m \<le> 18446744073" for m f
    using timeouts_wrap [OF that, of "''s''" 1000000000 1 f] by (simp add: unitMap_def)
  have "Itoa 8080 = ''8080''" "Itoa 8082 = ''8082''" 
    by (simp_all add: Itoa_def nat_digits.simps digit_def) code_simp+
  then have "SrvAddr (p_gateway p) = '':8080'' \<and> SrvAddr (p_metrics p) = '':8082''"
    using c(2,3) by (simp add: gateway_server_def runMetricsServer_def Let_def)
  moreover have "SrvReadTimeout (p_metrics p) = 5 * second \<and> SrvWriteTimeout (p_metrics p) = 5 * second"
    using c(3) by (simp add: runMetricsServer_def Let_def)
  moreover have "\<forall>(v, timeout) \<in> {(''read_timeout'', SrvReadTimeout), (''write_timeout'', SrvWriteTimeout)}.
      timeout (p_gateway p) = parseIntOrDurationValue (env v) (60 * second)" using t by simp
  ultimately show ?thesis using wrap seconds_exact unset_duration by (auto simp: case_prod_unfold)
qed

section \<open>Witnesses\<close>

lemma server_timeouts_witness:
  "\<exists>p. gateway_main demo_deps (HealthzHandler :: unit handler) demo_gateway_env = Inr p
    \<and> SrvReadTimeout (p_gateway p) = 60 * second \<and> SrvWriteTimeout (p_gateway p) = 60 * second"
proof -
  obtain gateway where g: "start demo_deps demo_gateway_env = Inr gateway" by (rule demo_start)
  then obtain config where "Read demo_gateway_env = Inr config" by (rule start_Inr) blast
  with g obtain p where p: "gateway_main demo_deps (HealthzHandler :: unit handler) demo_gateway_env = Inr p"
    by (simp add: gateway_main_def ok_or_def setup_exporter_def Let_def)
  have env: "demo_gateway_env ''read_timeout'' = []" "demo_gateway_env ''write_timeout'' = []"
    by (simp_all add: demo_gateway_env_def Config.demo_env_def)
  have "SrvReadTimeout (p_gateway p) = 60 * second \<and> SrvWriteTimeout (p_gateway p) = 60 * second"
    using server_timeouts [OF p] env by simp
  with p show ?thesis by (intro exI [of _ p] conjI) blast+
qed

end
