(* ===== verification/LogStream.thy ===== *)
theory LogStream
  imports Handlers "HOL-Library.Sublist"
begin

text \<open>
  The streaming part of \<open>handlers/logs.go\<close>, step by step: the goroutine of \<open>copyNotify\<close>, which copies
  the provider's answer through an \<open>unbufferedWriter\<close>, and the \<open>select\<close> of the handler, which waits for
  the copy or for the client to leave. Theory Handlers has the handler as one step; here its two
  goroutines, the client and the deadline are interleaved in any order, and what the client has on the
  wire is told apart from what the writer still buffers.
\<close>

section \<open>State\<close>

text \<open>
  Where the goroutine is: in \<open>Read\<close>, in \<open>Write\<close> with the bytes it read, between \<open>Write\<close> and \<open>Flush\<close>
  with the error of \<open>Write\<close>, before the send on \<open>done\<close>, or at its end.
\<close>

datatype copier = Reading | Writing string | Flushing goerror | Copied goerror | CopierEnded

text \<open>How the \<open>select\<close> ended: by a result from \<open>done\<close> or by \<open>CloseNotify\<close>.\<close>

datatype outcome = ByDone goerror | ByClient

text \<open>
  \<open>pending\<close> are the pieces that the provider still sends, \<open>ending\<close> is what \<open>Read\<close> answers after them
  (nil is \<open>io.EOF\<close>). \<open>ctx_err\<close> is the error of the request's context, once it has ended.
  \<open>done_chan\<close> is the channel, with room for one value. \<open>late\<close> are the bytes given to
  \<open>Write\<close> after the handler returned, when the writer must not be used any more.
\<close>

record log_stream =
  pending :: "string list"
  ending :: goerror
  ctx_err :: goerror
  client_gone :: bool
  copier :: copier
  done_chan :: "goerror option"
  outcome :: "outcome option"
  writer :: response_writer
  wire :: string
  late :: "string list"

text \<open>The state when the \<open>select\<close> is reached: the goroutine has been started, nothing was copied.\<close>

definition copyNotify :: "response_writer \<Rightarrow> string list \<Rightarrow> goerror \<Rightarrow> log_stream" where
  "copyNotify w chunks e = \<lparr>pending = chunks, ending = e, ctx_err = None, client_gone = False, copier = Reading,
     done_chan = None, outcome = None, writer = w, wire = rw_body w, late = []\<rparr>"

section \<open>Steps\<close>

text \<open>
  What the writer does with one \<open>Write\<close>: it takes all bytes, or the first \<open>n\<close> and answers an error.
  A flush sends what was written: \<open>http.Flusher\<close> reports no error, and the model has no connection that breaks
  without the client being seen to leave.
\<close>

type_synonym write_result = "(nat \<times> string) option"

definition dst_Write :: "write_result \<Rightarrow> string \<Rightarrow> log_stream \<Rightarrow> log_stream" where
  "dst_Write res p s =
     (if outcome s \<noteq> None then s\<lparr>late := late s @ [p]\<rparr>
      else s\<lparr>writer := snd (Write (case res of None \<Rightarrow> p | Some (n, _) \<Rightarrow> take n p) (writer s))\<rparr>)"

definition dst_Flush :: "log_stream \<Rightarrow> log_stream" where
  "dst_Flush s = (if outcome s \<noteq> None then s else s\<lparr>wire := rw_body (writer s)\<rparr>)"

text \<open>
  One step of \<open>io.Copy(destination, source)\<close> and of the send that follows it. The body is closed and its
  context cancelled when the handler has returned.
\<close>

definition source_Read :: "log_stream \<Rightarrow> log_stream" where
  "source_Read s =
     (if outcome s \<noteq> None then s\<lparr>copier := Copied (Some ''http: read on closed response body'')\<rparr>
      else (case ctx_err s of
          Some m \<Rightarrow> s\<lparr>copier := Copied (Some m)\<rparr>
        | None \<Rightarrow>
            (case pending s of
               [] \<Rightarrow> s\<lparr>copier := Copied (ending s)\<rparr>
             | p # ps \<Rightarrow> s\<lparr>pending := ps, copier := (if p = [] then Reading else Writing p)\<rparr>)))"

definition copier_step :: "write_result \<Rightarrow> log_stream \<Rightarrow> log_stream" where
  "copier_step res s =
     (case copier s of
        Reading \<Rightarrow> source_Read s
      | Writing p \<Rightarrow> (dst_Write res p s)\<lparr>copier := Flushing (map_option snd res)\<rparr>
      | Flushing e \<Rightarrow> (dst_Flush s)\<lparr>copier := (case e of None \<Rightarrow> Reading | Some m \<Rightarrow> Copied (Some m))\<rparr>
      | Copied e \<Rightarrow> if done_chan s = None then s\<lparr>done_chan := Some e, copier := CopierEnded\<rparr> else s
      | CopierEnded \<Rightarrow> s)"

text \<open>
  The \<open>select\<close>: of two cases that are ready either one is taken (\<open>first\<close>), with none it waits.
\<close>

definition select_step :: "bool \<Rightarrow> log_stream \<Rightarrow> log_stream" where
  "select_step first s =
     (if outcome s \<noteq> None then s
      else case done_chan s of
        Some e \<Rightarrow> if first \<or> \<not> client_gone s then s\<lparr>outcome := Some (ByDone e)\<rparr> else s\<lparr>outcome := Some ByClient\<rparr>
      | None \<Rightarrow> if client_gone s then s\<lparr>outcome := Some ByClient\<rparr> else s)"

text \<open>
  The context of the request ends with its deadline, or some time after the client has left, when the
  server cancels it.
\<close>

definition end_context :: "string \<Rightarrow> log_stream \<Rightarrow> log_stream" where
  "end_context m s = (if ctx_err s = None then s\<lparr>ctx_err := Some m\<rparr> else s)"

datatype turn = CopierTurn write_result | SelectTurn bool | ClientLeaves | DeadlinePasses | RequestCancelled

fun stream_step :: "turn \<Rightarrow> log_stream \<Rightarrow> log_stream" where
  "stream_step (CopierTurn res) s = copier_step res s"
| "stream_step (SelectTurn first) s = select_step first s"
| "stream_step ClientLeaves s = s\<lparr>client_gone := True\<rparr>"
| "stream_step DeadlinePasses s = end_context ''context deadline exceeded'' s"
| "stream_step RequestCancelled s = (if client_gone s then end_context ''context canceled'' s else s)"

definition stream_run :: "turn list \<Rightarrow> log_stream \<Rightarrow> log_stream" where
  "stream_run ts s = fold stream_step ts s"

lemma stream_run_simps [simp]:
  "stream_run [] s = s"
  "stream_run (t # ts) s = stream_run ts (stream_step t s)"
  "stream_run (ts @ us) s = stream_run us (stream_run ts s)"
  by (simp_all add: stream_run_def)

lemmas step_defs = copier_step_def select_step_def source_Read_def dst_Write_def dst_Flush_def end_context_def

section \<open>Invariants\<close>

text \<open>The bytes the goroutine holds between \<open>Read\<close> and \<open>Write\<close>, while it still copies.\<close>

fun held :: "copier \<Rightarrow> string option" where
  "held Reading = Some []"
| "held (Writing p) = Some p"
| "held (Flushing e) = (if e = None then Some [] else None)"
| "held (Copied e) = None"
| "held CopierEnded = None"

text \<open>
  \<open>full\<close> is the body the client had before, followed by the provider's content. What was written, what
  the goroutine holds and what is still to come make it up, as long as nothing cut the copy short.
\<close>

definition accounted :: "string \<Rightarrow> log_stream \<Rightarrow> bool" where
  "accounted full s \<longleftrightarrow> prefix (rw_body (writer s)) full
     \<and> (\<forall>h. late s = [] \<and> held (copier s) = Some h \<longrightarrow> rw_body (writer s) @ h @ concat (pending s) = full)
     \<and> (copier s = Copied None \<or> done_chan s = Some None \<longrightarrow> rw_body (writer s) = full)"

definition phases_ok :: "log_stream \<Rightarrow> bool" where
  "phases_ok s \<longleftrightarrow> (done_chan s \<noteq> None \<longleftrightarrow> copier s = CopierEnded)
     \<and> (\<forall>e. outcome s = Some (ByDone e) \<longrightarrow> done_chan s = Some e)
     \<and> (outcome s = Some ByClient \<longrightarrow> client_gone s)
     \<and> (late s \<noteq> [] \<longrightarrow> outcome s = Some ByClient \<and> length (late s) = 1 \<and> copier s \<notin> range Writing)"

definition wire_ok :: "log_stream \<Rightarrow> bool" where
  "wire_ok s \<longleftrightarrow> prefix (wire s) (rw_body (writer s))
     \<and> (outcome s = None \<and> copier s \<notin> range Flushing \<or> outcome s \<in> Some ` range ByDone \<longrightarrow> wire s = rw_body (writer s))"

definition stream_ok :: "string \<Rightarrow> log_stream \<Rightarrow> bool" where
  "stream_ok full s \<longleftrightarrow> accounted full s \<and> phases_ok s \<and> wire_ok s"

lemma accounted_step: "accounted full s \<Longrightarrow> phases_ok s \<Longrightarrow> accounted full (stream_step t s)"
  by (cases t; cases "copier s")
    (auto simp: accounted_def phases_ok_def step_defs Write_run take_is_prefix
      intro: prefix_order.trans split: option.splits list.splits if_splits)

lemma phases_step: "phases_ok s \<Longrightarrow> phases_ok (stream_step t s)"
  by (cases t; cases "copier s")
    (auto simp: phases_ok_def step_defs split: option.splits list.splits if_splits, (metis outcome.exhaust)+)

lemma wire_step: "wire_ok s \<Longrightarrow> phases_ok s \<Longrightarrow> wire_ok (stream_step t s)"
  by (cases t; cases "copier s")
    (auto simp: wire_ok_def phases_ok_def step_defs Write_run split: option.splits list.splits if_splits)

lemma stream_ok_run: "stream_ok full s \<Longrightarrow> stream_ok full (stream_run ts s)"
  by (induction ts arbitrary: s) (auto simp: stream_ok_def accounted_step phases_step wire_step)

lemma copyNotify_ok: "stream_ok (rw_body w @ concat chunks) (copyNotify w chunks e)"
  by (simp add: stream_ok_def accounted_def phases_ok_def wire_ok_def copyNotify_def)

lemmas reached_ok = stream_ok_run [OF copyNotify_ok]


section \<open>How long it takes\<close>

text \<open>
  The turns the goroutine still needs: three for every piece (\<open>Read\<close>, \<open>Write\<close>, \<open>Flush\<close>) and two for the
  last \<open>Read\<close> and the send; once the handler has returned no further piece is read.
\<close>

definition pieces_left :: "log_stream \<Rightarrow> nat" where
  "pieces_left s = (if outcome s = None then length (pending s) else 0)"

fun phase_work :: "copier \<Rightarrow> nat" where
  "phase_work Reading = 2"
| "phase_work (Writing p) = 4"
| "phase_work (Flushing e) = 3"
| "phase_work (Copied e) = 1"
| "phase_work CopierEnded = 0"

definition work :: "log_stream \<Rightarrow> nat" where
  "work s = phase_work (copier s) + (if phase_work (copier s) \<le> 1 then 0 else 3 * pieces_left s)"

fun copier_turns :: "turn list \<Rightarrow> nat" where
  "copier_turns [] = 0"
| "copier_turns (CopierTurn res # ts) = Suc (copier_turns ts)"
| "copier_turns (t # ts) = copier_turns ts"

lemma work_copier: "phases_ok s \<Longrightarrow> work (copier_step res s) \<le> work s - 1"
  by (cases "copier s")
    (auto simp: work_def pieces_left_def phases_ok_def step_defs split: option.splits list.splits)

lemma work_other: "(\<And>res. t \<noteq> CopierTurn res) \<Longrightarrow> work (stream_step t s) \<le> work s"
  by (cases t) (auto simp: work_def pieces_left_def select_step_def end_context_def split: option.splits)

lemma work_run: "phases_ok s \<Longrightarrow> work (stream_run ts s) \<le> work s - copier_turns ts"
proof (induction ts arbitrary: s)
  case (Cons t ts)
  note run = Cons.IH [OF phases_step [OF Cons.prems], of t]
  show ?case
  proof (cases "\<exists>res. t = CopierTurn res")
    case True
    then obtain res where t: "t = CopierTurn res" by blast
    from run work_copier [OF Cons.prems, of res] show ?thesis by (simp add: t)
  next
    case False
    then have "work (stream_step t s) \<le> work s" by (intro work_other) auto
    moreover have "copier_turns (t # ts) = copier_turns ts" using False by (cases t) auto
    ultimately show ?thesis using run by simp
  qed
qed simp

lemma no_work: "work s = 0 \<longleftrightarrow> copier s = CopierEnded"
  by (cases "copier s") (auto simp: work_def)

lemma outcome_step: "outcome s = Some x \<Longrightarrow> outcome (stream_step t s) = Some x"
  by (cases t; cases "copier s") (auto simp: step_defs split: option.splits list.splits)

lemma outcome_run: "outcome s = Some x \<Longrightarrow> outcome (stream_run ts s) = Some x"
  by (induction ts arbitrary: s) (auto simp: outcome_step)

lemma copyNotify_phases: "phases_ok (stream_run ts (copyNotify w chunks e))"
  using reached_ok [of w chunks ts e] by (simp add: stream_ok_def)

lemma log_copier_done:
  assumes "3 * length chunks + 2 \<le> copier_turns ts"
  shows "copier (stream_run ts (copyNotify w chunks e)) = CopierEnded"
proof -
  have "work (copyNotify w chunks e) = 3 * length chunks + 2" by (simp add: copyNotify_def work_def pieces_left_def)
  with work_run [of "copyNotify w chunks e" ts] copyNotify_phases [of "[]" w chunks e] assms no_work show ?thesis by simp
qed

lemma log_copier_result:
  assumes "3 * length chunks + 2 \<le> copier_turns ts"
  shows "outcome (stream_run (ts @ [SelectTurn b]) (copyNotify w chunks e)) \<noteq> None"
  using log_copier_done [OF assms, of w e] copyNotify_phases [of ts w chunks e] by (auto simp: phases_ok_def select_step_def)

section \<open>Properties\<close>

text \<open>
  C22: in every state that any interleaving reaches, the client has a prefix of the provider's content on the
  wire. While the copier waits for the provider, everything that was read has been sent: no line waits
  in a buffer. When the handler ended because the copy was complete without an error, the client has all of it.
\<close>

theorem log_lines_reach_client:
  assumes "s = stream_run ts (copyNotify w chunks e)"
  shows "prefix (wire s) (rw_body w @ concat chunks)
    \<and> (copier s = Reading \<and> outcome s = None \<longrightarrow> wire s @ concat (pending s) = rw_body w @ concat chunks)
    \<and> (outcome s = Some (ByDone None) \<longrightarrow> wire s = rw_body w @ concat chunks)"
proof -
  from reached_ok [of w chunks ts e] have ok: "stream_ok (rw_body w @ concat chunks) s" unfolding assms .
  then have late: "outcome s = None \<Longrightarrow> late s = []" by (auto simp: stream_ok_def phases_ok_def)
  have wire: "prefix (wire s) (rw_body (writer s))" "prefix (rw_body (writer s)) (rw_body w @ concat chunks)"
    using ok by (simp_all add: stream_ok_def accounted_def wire_ok_def)
  have "wire s @ concat (pending s) = rw_body w @ concat chunks" if "copier s = Reading" "outcome s = None"
    using ok late that by (auto simp: stream_ok_def accounted_def wire_ok_def)
  moreover have "wire s = rw_body w @ concat chunks" if "outcome s = Some (ByDone None)"
    using ok that by (auto simp: stream_ok_def accounted_def wire_ok_def phases_ok_def)
  ultimately show ?thesis using prefix_order.trans [OF wire] by blast
qed

text \<open>
  C23: the streaming ends and leaves no goroutine behind. After three turns of the copier for every piece
  and two more it has ended, whatever else happens in between, and the handler returns at its next turn; and
  when the handler returns earlier, as the client has left, four turns end the copier, however much the
  provider would still send. The send on \<open>done\<close> never blocks, also when nobody receives.
\<close>

theorem log_copier_ends:
  fixes w chunks e
  defines "s0 \<equiv> copyNotify w chunks e"
  shows "(3 * length chunks + 2 \<le> copier_turns ts \<longrightarrow>
      copier (stream_run ts s0) = CopierEnded \<and> outcome (stream_run (ts @ [SelectTurn b]) s0) \<noteq> None)
    \<and> (outcome (stream_run ts s0) \<noteq> None \<and> 4 \<le> copier_turns us \<longrightarrow> copier (stream_run (ts @ us) s0) = CopierEnded)"
proof -
  have "copier (stream_run (ts @ us) s0) = CopierEnded"
    if "outcome (stream_run ts s0) \<noteq> None" "4 \<le> copier_turns us"
  proof -
    have "work (stream_run ts s0) \<le> 4"
      using that(1) by (cases "copier (stream_run ts s0)") (auto simp: work_def pieces_left_def)
    then show ?thesis
      using work_run [OF copyNotify_phases [of ts w chunks e], of us] that(2) no_work by (simp add: s0_def)
  qed
  then show ?thesis using log_copier_done [of chunks ts w e] log_copier_result [of chunks ts b w e] by (auto simp: s0_def)
qed

text \<open>
  C39: the handler does not wait for its copier when the client leaves: the copier can still call the
  response writer after the handler has returned, which \<open>net/http\<close> forbids. It happens at most once, and
  only after the client has left.
\<close>

theorem log_copier_outlives_handler:
  assumes "s = stream_run ts (copyNotify w chunks e)" "p \<noteq> []"
  shows "length (late s) \<le> 1 \<and> (late s \<noteq> [] \<longrightarrow> outcome s = Some ByClient)
    \<and> late (stream_run [CopierTurn None, ClientLeaves, SelectTurn b, CopierTurn None] (copyNotify w (p # ps) e)) = [p]"
proof -
  have "phases_ok s" using reached_ok [of w chunks ts e] assms(1) by (simp add: stream_ok_def)
  then have "length (late s) \<le> 1 \<and> (late s \<noteq> [] \<longrightarrow> outcome s = Some ByClient)"
    by (cases "late s = []") (auto simp: phases_ok_def)
  moreover have "late (stream_run [CopierTurn None, ClientLeaves, SelectTurn b, CopierTurn None] (copyNotify w (p # ps) e)) = [p]"
    using assms(2) by (simp add: copyNotify_def step_defs)
  ultimately show ?thesis by blast
qed

section \<open>The handler in one step\<close>

text \<open>
  A schedule in which the client stays, the deadline does not pass and the writer takes all bytes.
\<close>

fun undisturbed :: "turn \<Rightarrow> bool" where
  "undisturbed (CopierTurn res) = (res = None)"
| "undisturbed (SelectTurn first) = True"
| "undisturbed ClientLeaves = False"
| "undisturbed DeadlinePasses = False"
| "undisturbed RequestCancelled = False"

definition calm :: "response_writer \<Rightarrow> string \<Rightarrow> goerror \<Rightarrow> log_stream \<Rightarrow> bool" where
  "calm w full e s \<longleftrightarrow> ctx_err s = None \<and> \<not> client_gone s \<and> ending s = e
     \<and> (\<forall>m. copier s \<noteq> Flushing (Some m)) \<and> copier s \<noteq> Writing []
     \<and> (\<forall>x. copier s = Copied x \<or> done_chan s = Some x \<longrightarrow> x = e \<and> rw_body (writer s) = full)
     \<and> prefix (rw_body w) (rw_body (writer s)) \<and> rw_header (writer s) = rw_header w
     \<and> rw_sent (writer s) = (if rw_body (writer s) = rw_body w then None else Some (200, rw_header w))"

lemma copyNotify_calm: "rw_sent w = None \<Longrightarrow> calm w (rw_body w @ concat chunks) e (copyNotify w chunks e)"
  by (simp add: calm_def copyNotify_def)

lemma calm_Write: "prefix b c \<Longrightarrow> p \<noteq> [] \<Longrightarrow> c @ p \<noteq> b"
  by (auto simp: prefix_def)

lemma calm_copier:
  assumes "calm w full e s" "stream_ok full s"
  shows "calm w full e (copier_step None s)"
proof -
  have ok: "phases_ok s" "accounted full s" using assms(2) by (simp_all add: stream_ok_def)
  have late: "late s = []" "outcome s \<noteq> None \<Longrightarrow> copier s = CopierEnded"
    using assms(1) ok(1) by (auto simp: calm_def phases_ok_def) (metis outcome.exhaust option.distinct(1))+
  show ?thesis
  proof (cases "copier s")
    case Reading
    with assms(1) ok late show ?thesis
      by (auto simp: calm_def accounted_def phases_ok_def copier_step_def source_Read_def split: list.splits)
  next
    case (Writing p)
    with assms(1) late(2) have "p \<noteq> []" "outcome s = None"
      by (simp_all add: calm_def, cases "outcome s", auto)
    with assms(1) ok Writing show ?thesis
      by (auto simp: calm_def phases_ok_def copier_step_def dst_Write_def Write_run calm_Write)
  qed (use assms(1) ok in \<open>auto simp: calm_def phases_ok_def step_defs split: option.splits\<close>)
qed

lemma calm_step: "calm w full e s \<Longrightarrow> stream_ok full s \<Longrightarrow> undisturbed t \<Longrightarrow> calm w full e (stream_step t s)"
  by (cases t) (auto simp: calm_copier, auto simp: calm_def select_step_def split: option.splits)

lemma calm_run:
  "calm w full e s \<Longrightarrow> stream_ok full s \<Longrightarrow> list_all undisturbed ts \<Longrightarrow> calm w full e (stream_run ts s)"
proof (induction ts arbitrary: s)
  case (Cons t ts)
  moreover have "stream_ok full (stream_step t s)" using stream_ok_run [OF Cons.prems(2), of "[t]"] by simp
  ultimately show ?case by (simp add: calm_step)
qed simp

text \<open>
  C12: the copier and the \<open>select\<close> together do what the handler of theory Handlers does in one step. In every
  interleaving in which the client stays, the deadline does not pass and the writer takes what it is
  given, the client has, when the handler has returned, the status, the headers and the body of that step
  on the wire, whatever the pieces in which the provider sent them and with whatever error they ended.
\<close>

theorem log_stream_refines_handler:
  assumes "buildUpstreamRequest r (TrimSuffix (url_String u) ''/'') upstreamLogsEndpoint = Val req"
    and "transport timeout req (hworld hs) = (Val (Some resp, None), wd)"
    and "StatusCode resp = 200" "RespBody resp = Some (concat chunks, e)"
    and "rw_sent (rw hs) = None" "list_all undisturbed ts"
    and "s = stream_run ts (copyNotify (rw hs) chunks e)" "outcome s \<noteq> None"
  shows "\<exists>t. NewLogHandlerFunc transport True u timeout r hs = (Val (), t) \<and> hworld t = wd
    \<and> same_response (writer s) (rw t) \<and> wire s = rw_body (rw t) \<and> outcome s = Some (ByDone e)"
proof -
  let ?full = "rw_body (rw hs) @ concat chunks"
  have calm: "calm (rw hs) ?full e s"
    unfolding assms(7) by (rule calm_run [OF copyNotify_calm [OF assms(5)] copyNotify_ok assms(6)])
  have ok: "phases_ok s" "wire_ok s"
    using reached_ok [of "rw hs" chunks ts e] assms(7) by (simp_all add: stream_ok_def)
  obtain x where out: "outcome s = Some x" using assms(8) by auto
  then have x: "x = ByDone e" "rw_body (writer s) = ?full"
    using calm ok(1) by (cases x; auto simp: calm_def phases_ok_def)+
  have "wire s = ?full" using ok(2) out x by (auto simp: wire_ok_def)
  moreover have "\<exists>t. NewLogHandlerFunc transport True u timeout r hs = (Val (), t) \<and> hworld t = wd
      \<and> same_response (writer s) (rw t) \<and> rw_body (rw t) = ?full"
    using assms(1-5) calm x(2)
    by (cases "concat chunks = []")
      (auto simp: NewLogHandlerFunc_def Let_def go_simps same_response_def calm_def)
  ultimately show ?thesis using out x(1) by auto
qed

section \<open>Witnesses\<close>

lemma log_lines_reach_client_witness:
  "wire (stream_run [CopierTurn None, CopierTurn None, CopierTurn None] (copyNotify new_writer [''a'', ''b''] None)) @ ''b'' = ''ab''"
  using log_lines_reach_client [OF refl, of "[CopierTurn None, CopierTurn None, CopierTurn None]" new_writer "[''a'', ''b'']" None]
  by (simp add: copyNotify_def step_defs new_writer_def Write_run)

lemma log_copier_ends_witness:
  "copier (stream_run [CopierTurn None, ClientLeaves, SelectTurn True, CopierTurn None, CopierTurn None, CopierTurn None, CopierTurn None]
     (copyNotify new_writer [''a'', ''b'', ''c''] None)) = CopierEnded"
  using log_copier_ends [of "[''a'', ''b'', ''c'']" "[CopierTurn None, ClientLeaves, SelectTurn True]" new_writer None True
    "[CopierTurn None, CopierTurn None, CopierTurn None, CopierTurn None]"]
  by (simp add: copyNotify_def step_defs)

lemma log_copier_outlives_handler_witness:
  "late (stream_run [CopierTurn None, ClientLeaves, SelectTurn True, CopierTurn None] (copyNotify new_writer [''a'', ''b''] None)) = [''a'']"
  using log_copier_outlives_handler [OF refl, of "''a''" "[]" new_writer "[]" None True "[''b'']"] by simp

lemma log_stream_refines_handler_witness:
  "\<exists>t. NewLogHandlerFunc (\<lambda>_. demo_logs) True
      \<lparr>Scheme = ''http'', UHost = ''p:8080'', Path = ''/'', RawPath = [], RawQuery = []\<rparr> 60 (demo_forward ''text/html'' ''/system/logs'')
      (demo_hs (0 :: nat)) = (Val (), t)
    \<and> wire (stream_run (replicate 8 (CopierTurn None) @ [SelectTurn False]) (copyNotify (rw (demo_hs (0 :: nat))) [''li'', ''ne''] None)) = rw_body (rw t)"
proof -
  let ?ts = "replicate 8 (CopierTurn None) @ [SelectTurn False]"
  have "copier_turns (replicate n (CopierTurn None)) = n" for n by (induction n) auto
  then have "outcome (stream_run ?ts (copyNotify (rw (demo_hs (0 :: nat))) [''li'', ''ne''] None)) \<noteq> None"
    using log_copier_result [of "[''li'', ''ne'']" "replicate 8 (CopierTurn None)"] by simp
  moreover have "list_all undisturbed ?ts" by (simp add: list_all_iff)
  moreover obtain req where "buildUpstreamRequest (demo_forward ''text/html'' ''/system/logs'')
      (TrimSuffix (url_String \<lparr>Scheme = ''http'', UHost = ''p:8080'', Path = ''/'', RawPath = [], RawQuery = []\<rparr>) ''/'') upstreamLogsEndpoint = Val req"
    using demo_logs_request by auto
  ultimately show ?thesis
    using log_stream_refines_handler [of "demo_forward ''text/html'' ''/system/logs''" _ req "\<lambda>_. demo_logs" 60 "demo_hs (0 :: nat)"
      "\<lparr>StatusCode = 200, RespHeader = (\<lambda>_. None), RespBody = Some (''line'', None)\<rparr>" 0 "[''li'', ''ne'']" None ?ts,
      OF _ _ _ _ _ _ refl]
    by (auto simp: demo_hs_def new_writer_def demo_logs_def retp_run)
qed

end
