(* ===== verification/ParseFloat.thy ===== *)
theory ParseFloat
  imports AddMetrics
begin

text \<open>
  \<open>strconv.ParseFloat(s, 64)\<close>: decimal and hexadecimal numbers, infinities and NaN, rounded to the
  nearest \<open>float64\<close>. It reads the counts that Prometheus reports, and the numbers in JSON.
\<close>

section \<open>The nearest float64\<close>

text \<open>
  As \<open>float64\<close> of theory Float64, with the subnormal numbers: the last place is never below 2 to the
  -1074. A value of 2 to the 1024 or more is out of range.
\<close>

definition nearest64 :: "rat \<Rightarrow> rat" where
  "nearest64 x =
     (if x \<le> 0 then 0
      else (let e = max (exponent x) (- 1074) in of_int (round_even (x / 2 powi e)) * 2 powi e))"

lemma nearest64_normal: "- 1074 \<le> exponent x \<Longrightarrow> nearest64 x = float64 x"
  by (simp add: nearest64_def float64_def max_def Let_def)

lemma nearest64_nat:
  assumes "n < 2 ^ 53"
  shows "nearest64 (of_nat n) = of_nat n"
proof (cases "n = 0")
  case False
  define x where "x = (of_nat n :: rat)"
  have x: "1 \<le> x" using False unfolding x_def by (metis One_nat_def Suc_leI neq0_conv of_nat_1 of_nat_le_iff)
  have "- 1074 \<le> exponent x"
  proof (rule ccontr)
    assume "\<not> - 1074 \<le> exponent x"
    then have "(2 :: rat) powi exponent x \<le> 2 powi (- 53)" by (intro power_int_increasing) auto
    moreover have "x < 2 ^ 53 * 2 powi exponent x" using exponent_bounds [of x] x by (simp add: field_simps)
    ultimately show False using x by (simp add: power_int_minus)
  qed
  then show ?thesis using nearest64_normal float64_nat [OF assms] by (simp add: x_def)
qed (simp add: nearest64_def)

section \<open>Reading\<close>

definition is_digit :: "char \<Rightarrow> bool" where
  "is_digit c \<longleftrightarrow> digit_val c \<noteq> None"

definition base_digit :: "nat \<Rightarrow> char \<Rightarrow> nat option" where
  "base_digit base c = (if base = 16 then hex_val c else digit_val c)"

text \<open>
  The mantissa: its digits as one number, how many of them stand after the point, whether there was a
  digit, and the rest of the text. Underscores are skipped here and checked afterwards.
\<close>

record mantissa =
  mval :: nat
  mfrac :: nat
  msaw :: bool
  mdot :: bool

fun read_mantissa :: "nat \<Rightarrow> string \<Rightarrow> mantissa \<Rightarrow> mantissa \<times> string" where
  "read_mantissa base [] m = (m, [])"
| "read_mantissa base (c # cs) m =
     (if c = CHR ''_'' then read_mantissa base cs m
      else if c = CHR ''.'' then (if mdot m then (m, c # cs) else read_mantissa base cs (m\<lparr>mdot := True\<rparr>))
      else (case base_digit base c of
          None \<Rightarrow> (m, c # cs)
        | Some d \<Rightarrow> read_mantissa base cs
            (m\<lparr>mval := base * mval m + d, mfrac := (if mdot m then mfrac m + 1 else mfrac m), msaw := True\<rparr>)))"

text \<open>The digits of an exponent, which is not counted beyond 10000.\<close>

fun read_exponent :: "string \<Rightarrow> nat \<Rightarrow> nat \<times> string" where
  "read_exponent [] e = (e, [])"
| "read_exponent (c # cs) e =
     (if c = CHR ''_'' then read_exponent cs e
      else (case digit_val c of None \<Rightarrow> (e, c # cs) | Some d \<Rightarrow> read_exponent cs (if e < 10000 then 10 * e + d else e)))"

definition signed_exponent :: "string \<Rightarrow> (int \<times> string) option" where
  "signed_exponent s =
     (let neg = (s \<noteq> [] \<and> hd s = CHR ''-'');
          ds = (if s \<noteq> [] \<and> (hd s = CHR ''-'' \<or> hd s = CHR ''+'') then tl s else s)
      in if ds = [] \<or> \<not> is_digit (hd ds) then None
         else (case read_exponent ds 0 of (e, rest) \<Rightarrow> Some (if neg then - int e else int e, rest)))"

text \<open>\<open>underscoreOK\<close>, with the last character seen: \<open>''^''\<close> at the start, \<open>''0''\<close>, \<open>''_''\<close> or \<open>''!''\<close>.\<close>

fun underscores_ok :: "bool \<Rightarrow> char \<Rightarrow> string \<Rightarrow> bool" where
  "underscores_ok hex saw [] \<longleftrightarrow> saw \<noteq> CHR ''_''"
| "underscores_ok hex saw (c # cs) \<longleftrightarrow>
     (if is_digit c \<or> hex \<and> hex_val c \<noteq> None then underscores_ok hex CHR ''0'' cs
      else if c = CHR ''_'' then saw = CHR ''0'' \<and> underscores_ok hex CHR ''_'' cs
      else saw \<noteq> CHR ''_'' \<and> underscores_ok hex CHR ''!'' cs)"

definition has_prefix :: "string \<Rightarrow> string \<Rightarrow> bool" where
  "has_prefix p s \<longleftrightarrow> map to_lower (take (length p) s) = p"

definition underscoreOK :: "string \<Rightarrow> bool" where
  "underscoreOK s =
     (if has_prefix ''0b'' s \<or> has_prefix ''0o'' s \<or> has_prefix ''0x'' s
      then underscores_ok (has_prefix ''0x'' s) CHR ''0'' (drop 2 s)
      else underscores_ok False CHR ''^'' s)"

definition in_range :: "bool \<Rightarrow> rat \<Rightarrow> gofloat option" where
  "in_range neg x = (let r = nearest64 x in if 2 ^ 1024 \<le> r then None else Some (Finite (if neg then - r else r)))"

text \<open>\<open>readFloat\<close> after the sign, and the conversion. A hexadecimal number must have an exponent.\<close>

definition read_number :: "bool \<Rightarrow> string \<Rightarrow> gofloat option" where
  "read_number neg s =
     (let hex = has_prefix ''0x'' s \<and> 2 < length s;
          base = (if hex then 16 else 10)
      in case read_mantissa base (if hex then drop 2 s else s) \<lparr>mval = 0, mfrac = 0, msaw = False, mdot = False\<rparr> of
           (m, rest) \<Rightarrow>
             if \<not> msaw m then None
             else
               (case (if rest \<noteq> [] \<and> to_lower (hd rest) = (if hex then CHR ''p'' else CHR ''e'') then signed_exponent (tl rest)
                      else if hex then None else Some (0, rest)) of
                  None \<Rightarrow> None
                | Some (e, rest') \<Rightarrow>
                    if rest' \<noteq> [] \<or> CHR ''_'' \<in> set s \<and> \<not> underscoreOK s then None
                    else in_range neg (of_nat (mval m) * (if hex then 2 powi (e - 4 * int (mfrac m)) else 10 powi (e - int (mfrac m))))))"

definition ParseFloat64 :: "string \<Rightarrow> gofloat option" where
  "ParseFloat64 s =
     (let neg = (s \<noteq> [] \<and> hd s = CHR ''-'');
          signed = (s \<noteq> [] \<and> (hd s = CHR ''-'' \<or> hd s = CHR ''+''));
          t = (if signed then tl s else s);
          low = map to_lower t
      in if low = ''inf'' \<or> low = ''infinity'' then Some (Infinite neg)
         else if low = ''nan'' \<and> \<not> signed then Some NotANumber
         else read_number neg t)"

section \<open>Properties\<close>

lemma digits_mantissa:
  "parse_digits v ds = Some n \<Longrightarrow>
   read_mantissa 10 ds \<lparr>mval = v, mfrac = 0, msaw = b, mdot = False\<rparr>
     = (\<lparr>mval = n, mfrac = 0, msaw = b \<or> ds \<noteq> [], mdot = False\<rparr>, [])"
proof (induction ds arbitrary: v b)
  case (Cons c cs)
  then obtain d where d: "digit_val c = Some d" "parse_digits (10 * v + d) cs = Some n"
    by (auto split: option.splits)
  have "c \<noteq> CHR ''_''" "c \<noteq> CHR ''.''" using d(1) by (auto simp: digit_val_def)
  with d Cons.IH [OF d(2)] show ?case by (simp add: base_digit_def)
qed simp

lemma digits_only: "parse_digits v ds = Some n \<Longrightarrow> c \<in> set ds \<Longrightarrow> is_digit c"
  by (induction ds arbitrary: v) (auto simp: is_digit_def split: option.splits)

lemma digit_lower: "is_digit c \<Longrightarrow> to_lower c = c"
  by (auto simp: is_digit_def digit_val_def to_lower_def Let_def split: if_splits)

text \<open>What \<open>Itoa\<close> prints is read exactly, below 2 to the 53.\<close>

lemma ParseFloat_digits:
  assumes "n < 2 ^ 53"
  shows "ParseFloat64 (nat_digits n) = Some (Finite (of_nat n))"
proof -
  let ?s = "nat_digits n"
  have p: "parse_digits 0 ?s = Some n" by (rule parse_nat_digits)
  note dig = digits_only [OF p]
  have ne: "?s \<noteq> []" by (rule nat_digits_nonempty)
  have low: "map to_lower ?s = ?s" using dig digit_lower by (simp add: map_idI)
  have nd: "\<not> is_digit CHR ''-''" "\<not> is_digit CHR ''+''" "\<not> is_digit CHR ''i''" "\<not> is_digit CHR ''n''"
    "\<not> is_digit CHR ''x''" "\<not> is_digit CHR ''_''"
    by (simp_all add: is_digit_def digit_val_def)
  have hd: "hd ?s \<noteq> CHR ''-''" "hd ?s \<noteq> CHR ''+''" using dig hd_in_set [OF ne] nd by metis+
  have no: "?s \<noteq> ''inf''" "?s \<noteq> ''infinity''" "?s \<noteq> ''nan''" "CHR ''_'' \<notin> set ?s"
    using dig nd by (metis list.set_intros(1), metis list.set_intros(1), metis list.set_intros(1), metis)
  have "\<not> has_prefix ''0x'' ?s"
  proof
    assume "has_prefix ''0x'' ?s"
    then have "map to_lower (take 2 ?s) = ''0x''" by (simp add: has_prefix_def numeral_2_eq_2)
    then have "take 2 ?s = ''0x''" using low by (metis take_map)
    then have "CHR ''x'' \<in> set (take 2 ?s)" by simp
    then have "CHR ''x'' \<in> set ?s" by (rule in_set_takeD)
    with dig nd show False by blast
  qed
  moreover have "\<not> (2 ^ 1024 \<le> (of_nat n :: rat))"
  proof -
    have "(of_nat n :: rat) < of_nat (2 ^ 53)" using assms by (simp only: of_nat_less_iff)
    then show ?thesis by simp
  qed
  ultimately show ?thesis
    using hd no low ne digits_mantissa [OF p, of False] nearest64_nat [OF assms]
    by (simp add: ParseFloat64_def read_number_def Let_def in_range_def)
qed

lemma ParseFloat_examples:
  "ParseFloat64 ''+Inf'' = Some (Infinite False)" "ParseFloat64 ''NaN'' = Some NotANumber" "ParseFloat64 ''+nan'' = None"
  "ParseFloat64 ''1__0'' = None" "ParseFloat64 ''0x1'' = None" "ParseFloat64 ''.'' = None" "ParseFloat64 ''1e'' = None"
  by code_simp+

end
