(* ===== verification/Utf8.thy ===== *)
theory Utf8
  imports GoStrings
begin

text \<open>
  UTF-8 as package \<open>unicode/utf8\<close> of the standard library reads and writes it. Go strings are bytes; what
  \<open>encoding/json\<close> hands out are always valid encodings.
\<close>

section \<open>Runes\<close>

definition utf8_byte :: "nat \<Rightarrow> char" where
  "utf8_byte n = char_of n"

definition utf8_encode :: "nat \<Rightarrow> string" where
  "utf8_encode n =
     (if n < 128 then [utf8_byte n]
      else if n < 2048 then [utf8_byte (192 + n div 64), utf8_byte (128 + n mod 64)]
      else if n < 65536 then [utf8_byte (224 + n div 4096), utf8_byte (128 + n div 64 mod 64), utf8_byte (128 + n mod 64)]
      else [utf8_byte (240 + n div 262144), utf8_byte (128 + n div 4096 mod 64), utf8_byte (128 + n div 64 mod 64), utf8_byte (128 + n mod 64)])"

definition replacement :: string where
  "replacement = utf8_encode 65533"

text \<open>
  \<open>utf8.DecodeRune\<close>: the number of bytes of the rune that starts with \<open>b\<close>, 0 when they are not a valid
  encoding.
\<close>

definition follows :: "nat \<Rightarrow> nat \<Rightarrow> nat \<Rightarrow> string \<Rightarrow> bool" where
  "follows lo hi n cs \<longleftrightarrow> n \<le> length cs \<and> lo \<le> of_char (hd cs) \<and> of_char (hd cs) \<le> hi
     \<and> list_all (\<lambda>c. 128 \<le> (of_char c :: nat) \<and> (of_char c :: nat) \<le> 191) (take n cs)"

definition rune_width :: "char \<Rightarrow> string \<Rightarrow> nat" where
  "rune_width c cs =
     (let b = of_char c :: nat
      in if b < 128 then 1
         else if 194 \<le> b \<and> b \<le> 223 \<and> follows 128 191 1 cs then 2
         else if 224 \<le> b \<and> b \<le> 239 \<and> follows (if b = 224 then 160 else 128) (if b = 237 then 159 else 191) 2 cs then 3
         else if 240 \<le> b \<and> b \<le> 244 \<and> follows (if b = 240 then 144 else 128) (if b = 244 then 143 else 191) 3 cs then 4
         else 0)"

text \<open>A code point that is a character: not a surrogate, and not beyond the last one.\<close>

definition surrogate :: "nat \<Rightarrow> bool" where
  "surrogate n \<longleftrightarrow> 55296 \<le> n \<and> n < 57344"

definition is_rune :: "nat \<Rightarrow> bool" where
  "is_rune n \<longleftrightarrow> n < 1114112 \<and> \<not> surrogate n"

section \<open>Valid strings\<close>

fun valid_utf8 :: "string \<Rightarrow> bool" where
  "valid_utf8 [] = True"
| "valid_utf8 (c # cs) = (rune_width c cs > 0 \<and> valid_utf8 (drop (rune_width c cs - 1) cs))"

declare valid_utf8.simps(2) [simp del]

text \<open>The width depends only on the bytes of the rune, which after the first are not ASCII.\<close>

lemma follows_take: "follows lo hi n cs \<Longrightarrow> n > 0 \<Longrightarrow> follows lo hi n (take n cs @ x)"
  by (cases cs; cases n) (auto simp: follows_def)

lemma rune_width_cases:
  assumes "rune_width c cs > 0"
  obtains (ascii) "rune_width c cs = 1" "(of_char c :: nat) < 128"
  | (longer) lo hi n where "rune_width c cs = Suc n" "n > 0" "follows lo hi n cs" "128 \<le> (of_char c :: nat)"
    "\<And>x. follows lo hi n x \<Longrightarrow> rune_width c x = Suc n"
proof -
  let ?b = "of_char c :: nat"
  consider "?b < 128" | "194 \<le> ?b" "?b \<le> 223" "follows 128 191 1 cs"
    | "224 \<le> ?b" "?b \<le> 239" "follows (if ?b = 224 then 160 else 128) (if ?b = 237 then 159 else 191) 2 cs"
    | "240 \<le> ?b" "?b \<le> 244" "follows (if ?b = 240 then 144 else 128) (if ?b = 244 then 143 else 191) 3 cs"
    using assms unfolding rune_width_def Let_def by (auto split: if_splits)
  then show thesis
  proof cases
    case 1
    then show ?thesis by (intro ascii) (simp_all add: rune_width_def Let_def)
  next
    case 2
    then show ?thesis by (intro longer [of 1 128 191]) (simp_all add: rune_width_def Let_def)
  next
    case 3
    then show ?thesis by (intro longer [OF _ _ 3(3)]) (simp_all add: rune_width_def Let_def)
  next
    case 4
    then show ?thesis by (intro longer [OF _ _ 4(3)]) (simp_all add: rune_width_def Let_def)
  qed
qed

lemma rune_width_take:
  assumes "rune_width c cs > 0"
  shows "rune_width c (take (rune_width c cs - 1) cs @ x) = rune_width c cs"
  using assms by (cases rule: rune_width_cases) (simp_all add: follows_take, simp add: rune_width_def)

lemma rune_width_length: "rune_width c cs - 1 \<le> length cs"
  by (auto simp: rune_width_def Let_def follows_def)

lemma rune_bytes:
  assumes "rune_width c cs > 1"
  shows "\<forall>b \<in> set (c # take (rune_width c cs - 1) cs). 128 \<le> (of_char b :: nat)"
proof -
  have "rune_width c cs > 0" using assms by simp
  then show ?thesis using assms by (cases rule: rune_width_cases) (auto simp: follows_def list_all_iff)
qed

lemma rune_ascii: "rune_width c cs = 1 \<longleftrightarrow> (of_char c :: nat) < 128"
  by (simp add: rune_width_def Let_def)

text \<open>Reading a valid string rune by rune.\<close>

lemma valid_utf8_induct [consumes 1, case_names Nil rune]:
  assumes "valid_utf8 s" "P []"
    and "\<And>c r s. rune_width c (r @ s) = Suc (length r) \<Longrightarrow> valid_utf8 s \<Longrightarrow> P s \<Longrightarrow> P (c # r @ s)"
  shows "P s"
  using assms(1)
proof (induction s rule: length_induct)
  case (1 s)
  show ?case
  proof (cases s)
    case Nil
    then show ?thesis using assms(2) by simp
  next
    case (Cons c cs)
    let ?k = "rune_width c cs - 1"
    have v: "rune_width c cs > 0" "valid_utf8 (drop ?k cs)" using 1(2) Cons by (simp_all add: valid_utf8.simps(2))
    have "length (drop ?k cs) < length s" using Cons by simp
    with 1(1) v(2) have "P (drop ?k cs)" by blast
    moreover have "rune_width c (take ?k cs @ drop ?k cs) = Suc (length (take ?k cs))"
      using v(1) rune_width_length [of c cs] by simp
    ultimately have "P (c # take ?k cs @ drop ?k cs)" using v(2) assms(3) by blast
    then show ?thesis using Cons by simp
  qed
qed

lemma valid_rune:
  assumes "rune_width c r = Suc (length r)"
  shows "valid_utf8 (c # r @ s) = valid_utf8 s"
  using rune_width_take [of c r s] assms by (simp add: valid_utf8.simps(2))

lemma rune_width_front:
  assumes "rune_width c (r @ s) = Suc (length r)"
  shows "rune_width c (r @ t) = Suc (length r)"
  using rune_width_take [of c "r @ s" t] assms by simp

lemma valid_utf8_append:
  assumes "valid_utf8 s" "valid_utf8 t"
  shows "valid_utf8 (s @ t)"
  using assms
proof (induction rule: valid_utf8_induct)
  case (rune c r s)
  have "rune_width c r = Suc (length r)" using rune_width_front [OF rune(1), of "[]"] by simp
  with rune show ?case by (simp add: valid_rune)
qed simp

lemma valid_Cons [simp]: "(of_char c :: nat) < 128 \<Longrightarrow> valid_utf8 (c # s) = valid_utf8 s"
  using rune_ascii [of c s] by (simp add: valid_utf8.simps(2))

lemma ascii_valid: "\<forall>c \<in> set s. (of_char c :: nat) < 128 \<Longrightarrow> valid_utf8 s"
  by (induction s) simp_all

text \<open>What is encoded is valid.\<close>

lemma utf8_byte_val: "n < 256 \<Longrightarrow> (of_char (utf8_byte n) :: nat) = n"
  by (simp add: utf8_byte_def)

lemma div_div: "n div 4096 = n div 64 div (64 :: nat)" "n div 262144 = n div 4096 div (64 :: nat)"
  by (simp_all add: div_mult2_eq [symmetric])

lemma encode_three:
  assumes "2048 \<le> n" "n < 65536" "\<not> surrogate n"
  shows "n div 4096 \<le> 15" "n div 4096 = 0 \<Longrightarrow> 32 \<le> n div 64 mod 64" "n div 4096 = 13 \<Longrightarrow> n div 64 mod 64 \<le> 31"
proof -
  define m r where "m = n div 64" and "r = n div 64 mod 64"
  have m: "32 \<le> m" using assms(1) by (simp add: m_def)
  have s: "m < 864 \<or> 896 \<le> m"
    using assms(3) by (auto simp: surrogate_def m_def not_le not_less intro: less_mult_imp_div_less dest: div_le_mono [of _ n 64])
  have d: "m = n div 4096 * 64 + r" unfolding m_def r_def div_div by simp
  show "n div 4096 \<le> 15" using assms(2) by (simp add: less_mult_imp_div_less)
  show "32 \<le> n div 64 mod 64" if "n div 4096 = 0" unfolding r_def [symmetric] using d m that by simp
  show "n div 64 mod 64 \<le> 31" if "n div 4096 = 13"
  proof -
    have "r \<le> 63" by (simp add: r_def)
    with d s that show ?thesis unfolding r_def [symmetric] by auto
  qed
qed

lemma encode_four:
  assumes "65536 \<le> n" "n < (1114112 :: nat)"
  shows "n div 262144 \<le> 4" "n div 262144 = 0 \<Longrightarrow> 16 \<le> n div 4096 mod 64" "n div 262144 = 4 \<Longrightarrow> n div 4096 mod 64 \<le> 15"
proof -
  define m r where "m = n div 4096" and "r = n div 4096 mod 64"
  have m: "16 \<le> m" "m < 272" using assms by (simp_all add: m_def less_mult_imp_div_less)
  have d: "m = n div 262144 * 64 + r" unfolding m_def r_def div_div(2) by simp
  show "n div 262144 \<le> 4" using assms(2) by (simp add: less_mult_imp_div_less)
  show "16 \<le> n div 4096 mod 64" if "n div 262144 = 0" unfolding r_def [symmetric] using d m that by simp
  show "n div 4096 mod 64 \<le> 15" if "n div 262144 = 4" unfolding r_def [symmetric] using d m that by simp
qed

lemma width_of_bytes:
  fixes x y z t :: nat
  assumes "of_char b = 128 + y" "y \<le> 63" "of_char c = 128 + z" "z \<le> 63" "of_char d = 128 + t" "t \<le> 63"
  shows "of_char a = 192 + x \<Longrightarrow> 2 \<le> x \<Longrightarrow> x \<le> 31 \<Longrightarrow> rune_width a [b] = 2"
    and "of_char a = 224 + x \<Longrightarrow> x \<le> 15 \<Longrightarrow> (x = 0 \<Longrightarrow> 32 \<le> y) \<Longrightarrow> (x = 13 \<Longrightarrow> y \<le> 31) \<Longrightarrow> rune_width a [b, c] = 3"
    and "of_char a = 240 + x \<Longrightarrow> x \<le> 4 \<Longrightarrow> (x = 0 \<Longrightarrow> 16 \<le> y) \<Longrightarrow> (x = 4 \<Longrightarrow> y \<le> 15) \<Longrightarrow> rune_width a [b, c, d] = 4"
  using assms by (simp_all add: rune_width_def follows_def)

lemma mod_64: "n mod 64 \<le> (63 :: nat)"
  using mod_less_divisor [of 64 n] by linarith

lemma continuation: "(of_char (utf8_byte (128 + n mod 64)) :: nat) = 128 + n mod 64"
  using mod_64 [of n] by (intro utf8_byte_val) linarith

lemma valid_encode:
  assumes "is_rune n"
  shows "valid_utf8 (utf8_encode n)"
proof -
  have r: "n < 1114112" "\<not> surrogate n" using assms by (simp_all add: is_rune_def)
  note w = width_of_bytes [OF continuation mod_64 continuation mod_64 continuation mod_64]
  consider "n < 128" | "128 \<le> n" "n < 2048" | "2048 \<le> n" "n < 65536" | "65536 \<le> n" by linarith
  then show ?thesis
  proof cases
    case 1
    then show ?thesis by (simp add: utf8_encode_def valid_Cons utf8_byte_val)
  next
    case 2
    then have x: "2 \<le> n div 64" "n div 64 \<le> 31" by linarith+
    have "rune_width (utf8_byte (192 + n div 64)) [utf8_byte (128 + n mod 64)] = 2"
      by (rule w(1) [OF utf8_byte_val x]) (use x in linarith)
    with 2 valid_rune [of _ "[_]" "[]"] show ?thesis by (simp add: utf8_encode_def)
  next
    case 3
    note e = encode_three [OF 3 r(2)]
    have "rune_width (utf8_byte (224 + n div 4096)) [utf8_byte (128 + n div 64 mod 64), utf8_byte (128 + n mod 64)] = 3"
      by (rule w(2) [OF utf8_byte_val e]) (use e(1) in linarith)
    with 3 valid_rune [of _ "[_, _]" "[]"] show ?thesis by (simp add: utf8_encode_def)
  next
    case 4
    note e = encode_four [OF 4 r(1)]
    have "rune_width (utf8_byte (240 + n div 262144))
        [utf8_byte (128 + n div 4096 mod 64), utf8_byte (128 + n div 64 mod 64), utf8_byte (128 + n mod 64)] = 4"
      by (rule w(3) [OF utf8_byte_val e]) (use e(1) in linarith)
    with 4 valid_rune [of _ "[_, _, _]" "[]"] show ?thesis by (simp add: utf8_encode_def)
  qed
qed

lemma valid_replacement: "valid_utf8 replacement"
  unfolding replacement_def by (rule valid_encode) (simp add: is_rune_def surrogate_def)

end
