(* ===== verification/Json.thy ===== *)
theory Json
  imports ParseFloat Utf8
begin

text \<open>
  Package \<open>encoding/json\<close> of the standard library, as far as the gateway uses it: reading a text into a
  value and printing values. The scanner is split into a lexer and a parser with a stack of the
  open arrays and objects; every function is structural in its input.
\<close>

section \<open>Values\<close>

text \<open>A number keeps its text, an object its members in the order of the text, repeated keys included.\<close>

datatype jvalue =
    JNull
  | JBool bool
  | JNum string
  | JStr string
  | JArr "jvalue list"
  | JObj "(string \<times> jvalue) list"

section \<open>Strings\<close>

text \<open>
  The parts of a string literal: a byte of the text or of a simple escape, and the number of an escape
  \<open>\u\<close>. Go strings are bytes.
\<close>

datatype strpart = Byte char | Utf16 nat

fun leading_bytes :: "strpart list \<Rightarrow> string" where
  "leading_bytes (Byte c # us) = c # leading_bytes us"
| "leading_bytes us = []"

definition high_surrogate :: "nat \<Rightarrow> bool" where
  "high_surrogate n \<longleftrightarrow> 55296 \<le> n \<and> n < 56320"

definition low_surrogate :: "nat \<Rightarrow> bool" where
  "low_surrogate n \<longleftrightarrow> 56320 \<le> n \<and> n < 57344"

text \<open>
  \<open>unquoteBytes\<close>: invalid bytes and unpaired surrogates become the replacement character.
\<close>

fun unquoted :: "strpart list \<Rightarrow> string" where
  "unquoted [] = []"
| "unquoted (Byte c # us) =
     (let k = rune_width c (leading_bytes us)
      in if k = 0 then replacement @ unquoted us
         else c # take (k - 1) (leading_bytes us) @ unquoted (drop (k - 1) us))"
| "unquoted (Utf16 n # Utf16 m # us) =
     (if high_surrogate n \<and> low_surrogate m
      then utf8_encode (65536 + (n - 55296) * 1024 + (m - 56320)) @ unquoted us
      else (if high_surrogate n \<or> low_surrogate n then replacement else utf8_encode n) @ unquoted (Utf16 m # us))"
| "unquoted (Utf16 n # us) =
     (if high_surrogate n \<or> low_surrogate n then replacement else utf8_encode n) @ unquoted us"

text \<open>\<open>appendString\<close> with the escaping of HTML, which \<open>Marshal\<close> always asks for.\<close>

definition lower_hex :: "nat \<Rightarrow> char" where
  "lower_hex d = (if d < 10 then digit d else char_of (87 + d))"

definition quoted_ascii :: "char \<Rightarrow> string" where
  "quoted_ascii c =
     (let b = of_char c :: nat
      in if c = CHR 0x22 \<or> c = CHR 0x5C then [CHR 0x5C, c]
         else if b = 8 then [CHR 0x5C, CHR ''b'']
         else if b = 9 then [CHR 0x5C, CHR ''t'']
         else if b = 10 then [CHR 0x5C, CHR ''n'']
         else if b = 12 then [CHR 0x5C, CHR ''f'']
         else if b = 13 then [CHR 0x5C, CHR ''r'']
         else if b < 32 \<or> c = CHR ''<'' \<or> c = CHR ''>'' \<or> c = CHR ''&''
         then [CHR 0x5C, CHR ''u'', CHR ''0'', CHR ''0'', lower_hex (b div 16), lower_hex (b mod 16)]
         else [c])"

fun quoted :: "string \<Rightarrow> string" where
  "quoted [] = []"
| "quoted (c # cs) =
     (let k = rune_width c cs; s = c # take (k - 1) cs
      in if k = 0 then CHR 0x5C # ''ufffd'' @ quoted cs
         else if k = 1 then quoted_ascii c @ quoted cs
         else (if s = utf8_encode 8232 then CHR 0x5C # ''u2028''
               else if s = utf8_encode 8233 then CHR 0x5C # ''u2029'' else s) @ quoted (drop (k - 1) cs))"

section \<open>Numbers\<close>

text \<open>The grammar of a number: its integer part, and what may follow it.\<close>

definition fraction :: "string \<Rightarrow> string option" where
  "fraction r =
     (if r \<noteq> [] \<and> hd r = CHR ''.''
      then if takeWhile is_digit (tl r) = [] then None else Some (dropWhile is_digit (tl r))
      else Some r)"

definition exponent_part :: "string \<Rightarrow> string option" where
  "exponent_part r =
     (if r \<noteq> [] \<and> to_lower (hd r) = CHR ''e''
      then (let ds = (if tl r \<noteq> [] \<and> (hd (tl r) = CHR ''+'' \<or> hd (tl r) = CHR ''-'') then tl (tl r) else tl r)
            in if takeWhile is_digit ds = [] then None else Some (dropWhile is_digit ds))
      else Some r)"

definition json_number :: "string \<Rightarrow> bool" where
  "json_number s =
     (let t = (if s \<noteq> [] \<and> hd s = CHR ''-'' then tl s else s); i = takeWhile is_digit t
      in i \<noteq> [] \<and> (hd i = CHR ''0'' \<longrightarrow> length i = 1)
         \<and> (case fraction (dropWhile is_digit t) of None \<Rightarrow> False | Some r \<Rightarrow> exponent_part r = Some []))"

section \<open>The lexer\<close>

datatype token = LBrace | RBrace | LBracket | RBracket | Comma | Colon
  | TNull | TBool bool | TNum string | TStr string

text \<open>The state of the lexer; what it has read of a token is kept in reverse.\<close>

datatype lexmode =
    Between
  | InString "strpart list"
  | Escaped "strpart list"
  | InHex "strpart list" nat nat
  | InNumber string
  | InWord string

definition punctuation :: "char \<Rightarrow> token option" where
  "punctuation c =
     (if c = CHR ''{'' then Some LBrace else if c = CHR ''}'' then Some RBrace
      else if c = CHR ''['' then Some LBracket else if c = CHR '']'' then Some RBracket
      else if c = CHR '','' then Some Comma else if c = CHR '':'' then Some Colon else None)"

definition is_space :: "char \<Rightarrow> bool" where
  "is_space c \<longleftrightarrow> c = CHR '' '' \<or> c = CHR 0x09 \<or> c = CHR 0x0A \<or> c = CHR 0x0D"

definition is_word_char :: "char \<Rightarrow> bool" where
  "is_word_char c \<longleftrightarrow> 97 \<le> (of_char c :: nat) \<and> (of_char c :: nat) \<le> 122"

definition is_number_char :: "char \<Rightarrow> bool" where
  "is_number_char c \<longleftrightarrow> is_digit c \<or> c = CHR ''+'' \<or> c = CHR ''-'' \<or> c = CHR ''.'' \<or> to_lower c = CHR ''e''"

definition word_token :: "string \<Rightarrow> token option" where
  "word_token s = (if s = ''null'' then Some TNull else if s = ''true'' then Some (TBool True)
     else if s = ''false'' then Some (TBool False) else None)"

definition number_token :: "string \<Rightarrow> token option" where
  "number_token s = (if json_number s then Some (TNum s) else None)"

definition simple_escape :: "char \<Rightarrow> char option" where
  "simple_escape c =
     (if c = CHR 0x22 \<or> c = CHR 0x5C \<or> c = CHR ''/'' then Some c
      else if c = CHR ''b'' then Some CHR 0x08 else if c = CHR ''f'' then Some CHR 0x0C
      else if c = CHR ''n'' then Some CHR 0x0A else if c = CHR ''r'' then Some CHR 0x0D
      else if c = CHR ''t'' then Some CHR 0x09 else None)"

definition lex_start :: "char \<Rightarrow> (token list \<times> lexmode) option" where
  "lex_start c =
     (if is_space c then Some ([], Between)
      else if c = CHR 0x22 then Some ([], InString [])
      else if c = CHR ''-'' \<or> is_digit c then Some ([], InNumber [c])
      else if is_word_char c then Some ([], InWord [c])
      else map_option (\<lambda>t. ([t], Between)) (punctuation c))"

definition lex_after :: "token option \<Rightarrow> char \<Rightarrow> (token list \<times> lexmode) option" where
  "lex_after t c = (case t of None \<Rightarrow> None | Some t \<Rightarrow> map_option (\<lambda>(ts, m). (t # ts, m)) (lex_start c))"

fun lex_char :: "lexmode \<Rightarrow> char \<Rightarrow> (token list \<times> lexmode) option" where
  "lex_char Between c = lex_start c"
| "lex_char (InString us) c =
     (if c = CHR 0x22 then Some ([TStr (unquoted (rev us))], Between)
      else if c = CHR 0x5C then Some ([], Escaped us)
      else if (of_char c :: nat) < 32 then None
      else Some ([], InString (Byte c # us)))"
| "lex_char (Escaped us) c =
     (if c = CHR ''u'' then Some ([], InHex us 4 0)
      else map_option (\<lambda>d. ([], InString (Byte d # us))) (simple_escape c))"
| "lex_char (InHex us k v) c =
     map_option (\<lambda>d. ([], if k \<le> 1 then InString (Utf16 (16 * v + d) # us) else InHex us (k - 1) (16 * v + d))) (hex_val c)"
| "lex_char (InNumber s) c =
     (if is_number_char c then Some ([], InNumber (c # s)) else lex_after (number_token (rev s)) c)"
| "lex_char (InWord s) c =
     (if is_word_char c then Some ([], InWord (c # s)) else lex_after (word_token (rev s)) c)"

fun lex :: "lexmode \<Rightarrow> string \<Rightarrow> token list option" where
  "lex m [] = (case m of Between \<Rightarrow> Some []
     | InNumber s \<Rightarrow> map_option (\<lambda>t. [t]) (number_token (rev s))
     | InWord s \<Rightarrow> map_option (\<lambda>t. [t]) (word_token (rev s))
     | _ \<Rightarrow> None)"
| "lex m (c # cs) = (case lex_char m c of None \<Rightarrow> None | Some (ts, m') \<Rightarrow> map_option ((@) ts) (lex m' cs))"

section \<open>The parser\<close>

text \<open>The open arrays and objects, innermost first, and what may come next.\<close>

datatype frame = ArrFrame "jvalue list" | ObjFrame "(string \<times> jvalue) list" string

datatype expected =
    WantValue
  | WantElement
  | WantKey bool "(string \<times> jvalue) list"
  | WantColon "(string \<times> jvalue) list" string
  | Have jvalue

definition maxNestingDepth :: nat where
  "maxNestingDepth = 10000"

fun parse_value :: "frame list \<Rightarrow> token \<Rightarrow> (frame list \<times> expected) option" where
  "parse_value fs TNull = Some (fs, Have JNull)"
| "parse_value fs (TBool b) = Some (fs, Have (JBool b))"
| "parse_value fs (TNum s) = Some (fs, Have (JNum s))"
| "parse_value fs (TStr s) = Some (fs, Have (JStr s))"
| "parse_value fs LBracket = (if length fs < maxNestingDepth then Some (ArrFrame [] # fs, WantElement) else None)"
| "parse_value fs LBrace = (if length fs < maxNestingDepth then Some (fs, WantKey True []) else None)"
| "parse_value fs _ = None"

fun parse_after :: "frame list \<Rightarrow> jvalue \<Rightarrow> token \<Rightarrow> (frame list \<times> expected) option" where
  "parse_after (ArrFrame vs # fs) v Comma = Some (ArrFrame (vs @ [v]) # fs, WantValue)"
| "parse_after (ArrFrame vs # fs) v RBracket = Some (fs, Have (JArr (vs @ [v])))"
| "parse_after (ObjFrame kvs k # fs) v Comma = Some (fs, WantKey False (kvs @ [(k, v)]))"
| "parse_after (ObjFrame kvs k # fs) v RBrace = Some (fs, Have (JObj (kvs @ [(k, v)])))"
| "parse_after fs v t = None"

fun parse_step :: "frame list \<Rightarrow> expected \<Rightarrow> token \<Rightarrow> (frame list \<times> expected) option" where
  "parse_step fs WantValue t = parse_value fs t"
| "parse_step fs WantElement t = (if t = RBracket then Some (tl fs, Have (JArr [])) else parse_value fs t)"
| "parse_step fs (WantKey may_end kvs) t =
     (case t of TStr k \<Rightarrow> Some (fs, WantColon kvs k)
      | RBrace \<Rightarrow> if may_end then Some (fs, Have (JObj kvs)) else None
      | _ \<Rightarrow> None)"
| "parse_step fs (WantColon kvs k) t = (if t = Colon then Some (ObjFrame kvs k # fs, WantValue) else None)"
| "parse_step fs (Have v) t = parse_after fs v t"

fun parse_tokens :: "frame list \<Rightarrow> expected \<Rightarrow> token list \<Rightarrow> jvalue option" where
  "parse_tokens fs e [] = (case e of Have v \<Rightarrow> if fs = [] then Some v else None | _ \<Rightarrow> None)"
| "parse_tokens fs e (t # ts) = (case parse_step fs e t of None \<Rightarrow> None | Some (fs', e') \<Rightarrow> parse_tokens fs' e' ts)"

definition json_parse :: "string \<Rightarrow> jvalue option" where
  "json_parse s = (case lex Between s of None \<Rightarrow> None | Some ts \<Rightarrow> parse_tokens [] WantValue ts)"

section \<open>Printing\<close>

definition json_string :: "string \<Rightarrow> string" where
  "json_string s = CHR 0x22 # quoted s @ [CHR 0x22]"

fun json_print :: "jvalue \<Rightarrow> string"
and print_elements :: "jvalue list \<Rightarrow> string"
and print_members :: "(string \<times> jvalue) list \<Rightarrow> string" where
  "json_print JNull = ''null''"
| "json_print (JBool b) = (if b then ''true'' else ''false'')"
| "json_print (JNum s) = s"
| "json_print (JStr s) = json_string s"
| "json_print (JArr []) = ''[]''"
| "json_print (JArr (v # vs)) = CHR ''['' # json_print v @ print_elements vs"
| "json_print (JObj []) = ''{}''"
| "json_print (JObj ((k, v) # kvs)) = CHR ''{'' # json_string k @ CHR '':'' # json_print v @ print_members kvs"
| "print_elements [] = '']''"
| "print_elements (v # vs) = CHR '','' # json_print v @ print_elements vs"
| "print_members [] = ''}''"
| "print_members ((k, v) # kvs) = CHR '','' # json_string k @ CHR '':'' # json_print v @ print_members kvs"

section \<open>What is printed is read back\<close>

definition strpart_of :: "char \<Rightarrow> strpart" where
  "strpart_of c = (if length (quoted_ascii c) = 6 then Utf16 (of_char c) else Byte c)"

definition rune_parts :: "char \<Rightarrow> string \<Rightarrow> strpart list" where
  "rune_parts c r =
     (if r = [] then [strpart_of c]
      else if c # r = utf8_encode 8232 then [Utf16 8232]
      else if c # r = utf8_encode 8233 then [Utf16 8233]
      else map Byte (c # r))"

fun string_parts :: "string \<Rightarrow> strpart list" where
  "string_parts [] = []"
| "string_parts (c # cs) =
     rune_parts c (take (rune_width c cs - 1) cs) @ string_parts (drop (rune_width c cs - 1) cs)"

lemma hex_val_lower: "d < 16 \<Longrightarrow> hex_val (lower_hex d) = Some d"
  by (auto simp: hex_val_def lower_hex_def Let_def digit_def)

lemma of_char_eq: "(of_char c :: nat) = n \<Longrightarrow> c = char_of n"
  by (metis char_of_char)

lemma char_of_controls:
  "char_of (8 :: nat) = CHR 0x08" "char_of (9 :: nat) = CHR 0x09" "char_of (10 :: nat) = CHR 0x0A"
  "char_of (12 :: nat) = CHR 0x0C" "char_of (13 :: nat) = CHR 0x0D"
  by code_simp+

lemma no_token [simp]: "map_option ((@) []) x = x"
  by (cases x) auto

lemma append_functions:
  "(@) (x # xs) = (\<lambda>r. x # xs @ r)" "(@) (xs @ ys) = (\<lambda>r. xs @ ys @ r)"
  by auto

lemma lex_hex_escape:
  assumes "(of_char c :: nat) < 128"
  shows "lex (InString us) (CHR 0x5C # CHR ''u'' # CHR ''0'' # CHR ''0'' # lower_hex (of_char c div 16) # lower_hex (of_char c mod 16) # cs)
    = lex (InString (Utf16 (of_char c) # us)) cs"
proof -
  have "hex_val CHR ''0'' = Some 0" by (simp add: hex_val_def)
  with assms show ?thesis by (simp add: hex_val_lower)
qed

lemma lex_quoted_ascii:
  assumes "(of_char c :: nat) < 128"
  shows "lex (InString us) (quoted_ascii c @ cs) = lex (InString (strpart_of c # us)) cs"
  using lex_hex_escape [OF assms, of us cs]
  by (auto simp: quoted_ascii_def strpart_of_def Let_def simple_escape_def dest!: of_char_eq simp del: lex.simps(2))
    (simp_all add: simple_escape_def char_of_controls)

lemma lex_quoted_u:
  "lex (InString us) (CHR 0x5C # CHR ''u'' # CHR ''2'' # CHR ''0'' # CHR ''2'' # CHR ''8'' # cs) = lex (InString (Utf16 8232 # us)) cs"
  "lex (InString us) (CHR 0x5C # CHR ''u'' # CHR ''2'' # CHR ''0'' # CHR ''2'' # CHR ''9'' # cs) = lex (InString (Utf16 8233 # us)) cs"
proof -
  have "hex_val CHR ''2'' = Some 2" "hex_val CHR ''0'' = Some 0" "hex_val CHR ''8'' = Some 8" "hex_val CHR ''9'' = Some 9"
    by (simp_all add: hex_val_def)
  then show "lex (InString us) (CHR 0x5C # CHR ''u'' # CHR ''2'' # CHR ''0'' # CHR ''2'' # CHR ''8'' # cs) = lex (InString (Utf16 8232 # us)) cs"
    "lex (InString us) (CHR 0x5C # CHR ''u'' # CHR ''2'' # CHR ''0'' # CHR ''2'' # CHR ''9'' # cs) = lex (InString (Utf16 8233 # us)) cs"
    by simp_all
qed

lemma lex_high_bytes:
  "\<forall>b \<in> set r. 128 \<le> (of_char b :: nat) \<Longrightarrow> lex (InString us) (r @ cs) = lex (InString (rev (map Byte r) @ us)) cs"
proof (induction r arbitrary: us)
  case (Cons b r)
  then have "b \<noteq> CHR 0x22" "b \<noteq> CHR 0x5C" "\<not> (of_char b :: nat) < 32" by auto
  with Cons show ?case by simp
qed simp

lemma lex_quoted: "valid_utf8 s \<Longrightarrow> lex (InString us) (quoted s @ cs) = lex (InString (rev (string_parts s) @ us)) cs"
proof (induction arbitrary: us rule: valid_utf8_induct)
  case (rune c r s)
  let ?k = "rune_width c (r @ s)"
  have q: "quoted (c # r @ s) = (if r = [] then quoted_ascii c
      else if c # r = utf8_encode 8232 then CHR 0x5C # ''u2028''
      else if c # r = utf8_encode 8233 then CHR 0x5C # ''u2029'' else c # r) @ quoted s"
    using rune(1) by (simp add: Let_def)
  have p: "string_parts (c # r @ s) = rune_parts c r @ string_parts s" using rune(1) by simp
  show ?case
  proof (cases "r = []")
    case True
    with rune(1) have "(of_char c :: nat) < 128" using rune_ascii [of c s] by simp
    with True rune(3) p q show ?thesis by (simp add: rune_parts_def lex_quoted_ascii del: quoted.simps(2) string_parts.simps(2) lex.simps)
  next
    case False
    then have "rune_width c (r @ s) > 1" using rune(1) by simp
    from rune_bytes [OF this] have "\<forall>b \<in> set (c # r). 128 \<le> (of_char b :: nat)" using rune(1) by simp
    note h = lex_high_bytes [OF this]
    show ?thesis unfolding p q using False rune(3) h
      by (simp add: rune_parts_def lex_quoted_u del: quoted.simps(2) string_parts.simps(2) lex.simps utf8_encode_def)
  qed
qed simp

lemma unquoted_utf16:
  "\<not> surrogate n \<Longrightarrow> unquoted (Utf16 n # ps) = utf8_encode n @ unquoted ps"
  by (cases "(Utf16 n # ps)" rule: unquoted.cases) (auto simp: surrogate_def high_surrogate_def low_surrogate_def)

lemma leading_bytes_append: "leading_bytes (map Byte r @ ps) = r @ leading_bytes ps"
  by (induction r) simp_all

lemma unquoted_rune:
  assumes "rune_width c r = Suc (length r)"
  shows "unquoted (map Byte (c # r) @ ps) = c # r @ unquoted ps"
  using rune_width_take [of c r "leading_bytes ps"] assms by (simp add: Let_def leading_bytes_append)

lemma unquoted_parts: "valid_utf8 s \<Longrightarrow> unquoted (string_parts s) = s"
proof (induction rule: valid_utf8_induct)
  case (rune c r s)
  have w: "rune_width c r = Suc (length r)" using rune_width_front [OF rune(1), of "[]"] by simp
  have p: "string_parts (c # r @ s) = rune_parts c r @ string_parts s" using rune(1) by simp
  have "unquoted (rune_parts c r @ ps) = (c # r) @ unquoted ps" for ps
  proof (cases "r = []")
    case True
    with w have "(of_char c :: nat) < 128" using rune_ascii [of c "[]"] by simp
    moreover from this have "utf8_encode (of_char c) = [c]" "\<not> surrogate (of_char c)"
      by (simp_all add: utf8_encode_def utf8_byte_def surrogate_def)
    ultimately show ?thesis using True unquoted_rune [OF w, of ps] by (simp add: rune_parts_def strpart_of_def unquoted_utf16 del: unquoted.simps(2))
  next
    case False
    have s: "\<not> surrogate 8232" "\<not> surrogate 8233" by (simp_all add: surrogate_def)
    show ?thesis using False unquoted_rune [OF w, of ps] unquoted_utf16 [OF s(1), of ps] unquoted_utf16 [OF s(2), of ps]
      by (simp add: rune_parts_def del: unquoted.simps)
  qed
  with p rune(3) show ?case by (simp del: string_parts.simps)
qed simp

lemma lex_json_string:
  assumes "valid_utf8 s"
  shows "lex Between (json_string s @ cs) = map_option ((#) (TStr s)) (lex Between cs)"
  using lex_quoted [OF assms, of "[]"] unquoted_parts [OF assms]
  by (simp add: json_string_def lex_start_def is_space_def map_option_case split: option.splits)


text \<open>What may stand behind a number or a word.\<close>

definition delimited :: "string \<Rightarrow> bool" where
  "delimited cs \<longleftrightarrow> cs = [] \<or> hd cs = CHR '','' \<or> hd cs = CHR '']'' \<or> hd cs = CHR ''}''"

lemma not_in_token:
  assumes "c = CHR '','' \<or> c = CHR '']'' \<or> c = CHR ''}''"
  shows "\<not> is_number_char c" "\<not> is_word_char c"
  using assms by (auto simp: is_number_char_def is_word_char_def is_digit_def digit_val_def to_lower_def)

lemma lex_after_lex:
  "(case lex_after (Some t) c of None \<Rightarrow> None | Some (ts, m') \<Rightarrow> map_option ((@) ts) (lex m' cs))
     = map_option ((#) t) (lex Between (c # cs))"
  by (cases "lex_start c") (auto simp: lex_after_def option.map_comp o_def append_functions)

lemma lex_ended:
  assumes "delimited cs"
  shows "number_token (rev s) = Some t \<Longrightarrow> lex (InNumber s) cs = map_option ((#) t) (lex Between cs)"
    and "word_token (rev s) = Some t \<Longrightarrow> lex (InWord s) cs = map_option ((#) t) (lex Between cs)"
proof -
  have "cs = [] \<or> (\<exists>c r. cs = c # r \<and> \<not> is_number_char c \<and> \<not> is_word_char c)"
    using assms not_in_token by (cases cs) (auto simp: delimited_def)
  then show "number_token (rev s) = Some t \<Longrightarrow> lex (InNumber s) cs = map_option ((#) t) (lex Between cs)"
    and "word_token (rev s) = Some t \<Longrightarrow> lex (InWord s) cs = map_option ((#) t) (lex Between cs)"
    by (auto simp: lex_after_lex simp del: lex.simps(2)) (simp_all add: lex_after_lex [unfolded lex.simps lex_char.simps])
qed

lemma lex_number_chars:
  "list_all is_number_char s \<Longrightarrow> lex (InNumber u) (s @ cs) = lex (InNumber (rev s @ u)) cs"
  by (induction s arbitrary: u) auto

lemma lex_word_chars:
  "list_all is_word_char s \<Longrightarrow> lex (InWord u) (s @ cs) = lex (InWord (rev s @ u)) cs"
  by (induction s arbitrary: u) auto

lemma number_start:
  assumes "json_number s"
  obtains c r where "s = c # r" "c = CHR ''-'' \<or> is_digit c"
  using assms by (cases s) (auto simp: json_number_def Let_def split: if_splits)

lemma lex_number:
  assumes "json_number s" "list_all is_number_char s" "delimited cs"
  shows "lex Between (s @ cs) = map_option ((#) (TNum s)) (lex Between cs)"
proof -
  obtain c r where s: "s = c # r" "c = CHR ''-'' \<or> is_digit c" by (rule number_start [OF assms(1)])
  have "lex_start c = Some ([], InNumber [c])"
    using s(2) by (auto simp: lex_start_def is_space_def is_digit_def digit_val_def)
  moreover have "number_token (rev (rev r @ [c])) = Some (TNum s)" using assms(1) s(1) by (simp add: number_token_def)
  ultimately show ?thesis
    using assms(2,3) s(1) lex_number_chars [of r "[c]" cs] lex_ended(1) [of cs "rev r @ [c]"] by simp
qed

lemma lex_word:
  assumes "word_token s = Some t" "delimited cs"
  shows "lex Between (s @ cs) = map_option ((#) t) (lex Between cs)"
proof -
  obtain c r where s: "s = c # r" using assms(1) by (cases s) (auto simp: word_token_def)
  have "lex_start c = Some ([], InWord [c])" "list_all is_word_char r"
    using assms(1) s
    by (auto simp: word_token_def lex_start_def is_space_def is_digit_def digit_val_def is_word_char_def split: if_splits)
  then show ?thesis
    using assms s lex_word_chars [of r "[c]" cs] lex_ended(2) [of cs "rev r @ [c]"] by simp
qed

text \<open>The tokens of a printed value.\<close>

fun tokens :: "jvalue \<Rightarrow> token list"
and element_tokens :: "jvalue list \<Rightarrow> token list"
and member_tokens :: "(string \<times> jvalue) list \<Rightarrow> token list" where
  "tokens JNull = [TNull]"
| "tokens (JBool b) = [TBool b]"
| "tokens (JNum s) = [TNum s]"
| "tokens (JStr s) = [TStr s]"
| "tokens (JArr []) = [LBracket, RBracket]"
| "tokens (JArr (v # vs)) = LBracket # tokens v @ element_tokens vs"
| "tokens (JObj []) = [LBrace, RBrace]"
| "tokens (JObj ((k, v) # kvs)) = LBrace # TStr k # Colon # tokens v @ member_tokens kvs"
| "element_tokens [] = [RBracket]"
| "element_tokens (v # vs) = Comma # tokens v @ element_tokens vs"
| "member_tokens [] = [RBrace]"
| "member_tokens ((k, v) # kvs) = Comma # TStr k # Colon # tokens v @ member_tokens kvs"

text \<open>The values that are read back as they are: their strings are valid UTF-8 and their numbers are numbers.\<close>

fun printable :: "jvalue \<Rightarrow> bool" where
  "printable (JNum s) \<longleftrightarrow> json_number s \<and> list_all is_number_char s"
| "printable (JStr s) \<longleftrightarrow> valid_utf8 s"
| "printable (JArr vs) \<longleftrightarrow> list_all printable vs"
| "printable (JObj kvs) \<longleftrightarrow> list_all (\<lambda>(k, v). valid_utf8 k \<and> printable v) kvs"
| "printable v \<longleftrightarrow> True"

fun depth :: "jvalue \<Rightarrow> nat" where
  "depth (JArr vs) = Suc (foldr (\<lambda>v d. max (depth v) d) vs 0)"
| "depth (JObj kvs) = Suc (foldr (\<lambda>(k, v) d. max (depth v) d) kvs 0)"
| "depth v = 0"

lemma lex_punctuation:
  "punctuation c = Some t \<Longrightarrow> lex Between (c # cs) = map_option ((#) t) (lex Between cs)"
  by (auto simp: punctuation_def lex_start_def is_space_def is_digit_def digit_val_def is_word_char_def append_functions split: if_splits)

lemma delimited_print [simp]: "delimited (print_elements vs @ cs)" "delimited (print_members kvs @ cs)"
  by (cases vs; simp add: delimited_def) (cases kvs; auto simp: delimited_def)

lemma lex_print:
  "printable v \<Longrightarrow> delimited cs \<Longrightarrow> lex Between (json_print v @ cs) = map_option ((@) (tokens v)) (lex Between cs)"
  "list_all printable vs \<Longrightarrow> lex Between (print_elements vs @ cs) = map_option ((@) (element_tokens vs)) (lex Between cs)"
  "list_all (\<lambda>(k, v). valid_utf8 k \<and> printable v) kvs \<Longrightarrow>
     lex Between (print_members kvs @ cs) = map_option ((@) (member_tokens kvs)) (lex Between cs)"
proof (induction v and vs and kvs arbitrary: cs and cs and cs rule: json_print_print_elements_print_members.induct)
  case 1
  then show ?case using lex_word [of "''null''" TNull cs] by (simp add: word_token_def append_functions del: lex.simps)
next
  case (2 b)
  then show ?case using lex_word [of "if b then ''true'' else ''false''" "TBool b" cs]
    by (cases b) (simp_all add: word_token_def append_functions del: lex.simps)
qed (simp_all add: lex_number lex_json_string lex_punctuation punctuation_def option.map_comp o_def append_functions del: lex.simps)

lemma foldr_max_le: "foldr (\<lambda>v d. max (f v) d) vs (0 :: nat) \<le> n \<longleftrightarrow> (\<forall>v \<in> set vs. f v \<le> n)"
  by (induction vs) auto

lemma depth_le:
  "n + depth (JArr vs) \<le> m \<longleftrightarrow> n < m \<and> (\<forall>v \<in> set vs. n + depth v < m)"
  "n + depth (JObj kvs) \<le> m \<longleftrightarrow> n < m \<and> (\<forall>(k, v) \<in> set kvs. n + depth v < m)"
  using foldr_max_le [of depth vs "m - n - 1"] foldr_max_le [of "\<lambda>(k, v). depth v" kvs "m - n - 1"]
  by (auto simp: case_prod_unfold)

lemma parse_element: "parse_tokens fs WantElement (tokens v @ ts) = parse_tokens fs WantValue (tokens v @ ts)"
  by (cases v rule: tokens.cases) auto

lemma parse_print:
  "length fs + depth v \<le> maxNestingDepth \<Longrightarrow> parse_tokens fs WantValue (tokens v @ ts) = parse_tokens fs (Have v) ts"
  "length fs < maxNestingDepth \<Longrightarrow> \<forall>w \<in> set vs. length fs + depth w < maxNestingDepth \<Longrightarrow>
     parse_tokens (ArrFrame us # fs) (Have x) (element_tokens vs @ ts) = parse_tokens fs (Have (JArr (us @ x # vs))) ts"
  "length fs < maxNestingDepth \<Longrightarrow> \<forall>(l, w) \<in> set kvs. length fs + depth w < maxNestingDepth \<Longrightarrow>
     parse_tokens (ObjFrame ms k # fs) (Have x) (member_tokens kvs @ ts) = parse_tokens fs (Have (JObj (ms @ (k, x) # kvs))) ts"
proof (induction v and vs and kvs arbitrary: fs ts and fs us x ts and fs ms k x ts rule: tokens_element_tokens_member_tokens.induct)
qed (auto simp: depth_le parse_element simp del: depth.simps(1,2))

lemma json_parse_print:
  assumes "printable v" "depth v \<le> maxNestingDepth"
  shows "json_parse (json_print v) = Some v"
  using lex_print(1) [OF assms(1), of "[]"] parse_print(1) [of "[]" v "[]"] assms(2)
  by (simp add: json_parse_def delimited_def)

section \<open>What is read is valid\<close>

text \<open>Every string that is read is valid UTF-8, whatever the text: invalid bytes and lone surrogates are replaced.\<close>

fun part_ok :: "strpart \<Rightarrow> bool" where
  "part_ok (Byte c) \<longleftrightarrow> True"
| "part_ok (Utf16 n) \<longleftrightarrow> n < 65536"

lemma surrogate_halves: "surrogate n \<longleftrightarrow> high_surrogate n \<or> low_surrogate n"
  by (auto simp: surrogate_def high_surrogate_def low_surrogate_def)

lemma paired_rune: "high_surrogate n \<Longrightarrow> low_surrogate m \<Longrightarrow> is_rune (65536 + (n - 55296) * 1024 + (m - 56320))"
proof -
  assume "high_surrogate n" "low_surrogate m"
  then have "n - 55296 \<le> 1023" "m - 56320 \<le> 1023" unfolding high_surrogate_def low_surrogate_def by linarith+
  then have "(n - 55296) * 1024 + (m - 56320) \<le> 1048575" by linarith
  then have "65536 \<le> 65536 + (n - 55296) * 1024 + (m - 56320) \<and> 65536 + (n - 55296) * 1024 + (m - 56320) < 1114112" by linarith
  then show ?thesis unfolding is_rune_def surrogate_def by linarith
qed

lemma single_rune: "n < 65536 \<Longrightarrow> valid_utf8 (if high_surrogate n \<or> low_surrogate n then replacement else utf8_encode n)"
  using surrogate_halves [of n] by (simp add: valid_replacement valid_encode is_rune_def)

lemma unquoted_valid: "list_all part_ok us \<Longrightarrow> valid_utf8 (unquoted us)"
proof (induction us rule: unquoted.induct [case_names Empty Raw Pair Last Apart])
  case (Raw c us)
  let ?k = "rune_width c (leading_bytes us)"
  have ok: "list_all part_ok us" "list_all part_ok (drop n us)" for n
    using Raw(3) by (auto simp: list_all_iff dest: in_set_dropD)
  show ?case
  proof (cases "?k = 0")
    case True
    then show ?thesis using Raw(1) ok(1) by (simp add: valid_utf8_append valid_replacement)
  next
    case False
    let ?r = "take (?k - 1) (leading_bytes us)"
    have "rune_width c ?r = Suc (length ?r)"
      using False rune_width_take [of c "leading_bytes us" "[]"] rune_width_length [of c "leading_bytes us"] by simp
    from valid_rune [OF this, of "unquoted (drop (?k - 1) us)"] show ?thesis using False Raw(2) ok(2) by (simp add: Let_def)
  qed
next
  case (Pair n m us)
  then show ?case using paired_rune [of n m] single_rune [of n] by (auto intro: valid_utf8_append valid_encode)
next
  case (Apart n c us)
  then have "valid_utf8 (unquoted (Byte c # us))" "n < 65536" by simp_all
  from valid_utf8_append [OF single_rune [OF this(2)] this(1)] show ?case by (simp del: unquoted.simps(2))
qed (use single_rune in \<open>auto intro: valid_utf8_append\<close>)

text \<open>The lexer only makes parts of four hexadecimal digits.\<close>

definition parts_ok :: "lexmode \<Rightarrow> bool" where
  "parts_ok m = (case m of InString us \<Rightarrow> list_all part_ok us | Escaped us \<Rightarrow> list_all part_ok us
     | InHex us k v \<Rightarrow> list_all part_ok us \<and> 1 \<le> k \<and> k \<le> 4 \<and> v * 16 ^ k < 65536 | _ \<Rightarrow> True)"

definition token_ok :: "token \<Rightarrow> bool" where
  "token_ok t = (case t of TStr s \<Rightarrow> valid_utf8 s | _ \<Rightarrow> True)"

lemma lex_start_ok: "lex_start c = Some (ts, m) \<Longrightarrow> parts_ok m \<and> list_all token_ok ts"
  by (auto simp: lex_start_def parts_ok_def token_ok_def punctuation_def split: if_splits)

lemma lex_after_ok: "lex_after t c = Some (ts, m) \<Longrightarrow> (\<And>x. t = Some x \<Longrightarrow> token_ok x) \<Longrightarrow> parts_ok m \<and> list_all token_ok ts"
  using lex_start_ok by (fastforce simp: lex_after_def split: option.splits)

lemma hex_val_less: "hex_val c = Some d \<Longrightarrow> d < 16"
  by (auto simp: hex_val_def Let_def split: if_splits)

lemma hex_digit_ok:
  assumes "1 \<le> k" "k \<le> 4" "v * 16 ^ k < (65536 :: nat)" "d < 16"
  shows "k \<le> 1 \<Longrightarrow> 16 * v + d < 65536" "\<not> k \<le> 1 \<Longrightarrow> (16 * v + d) * 16 ^ (k - 1) < 65536"
proof -
  consider "k = 1" | "k = 2" | "k = 3" | "k = 4" using assms(1,2) by linarith
  then show "k \<le> 1 \<Longrightarrow> 16 * v + d < 65536" "\<not> k \<le> 1 \<Longrightarrow> (16 * v + d) * 16 ^ (k - 1) < 65536"
    by (cases; use assms(3,4) in simp)+
qed

lemma lex_char_ok:
  assumes "lex_char m c = Some (ts, m')" "parts_ok m"
  shows "parts_ok m' \<and> list_all token_ok ts"
proof (cases m)
  case Between
  with assms lex_start_ok show ?thesis by simp
next
  case (InString us)
  have "valid_utf8 (unquoted (rev us))" using assms(2) InString by (intro unquoted_valid) (simp add: parts_ok_def)
  with assms InString show ?thesis by (auto simp: parts_ok_def token_ok_def split: if_splits)
next
  case (Escaped us)
  with assms show ?thesis by (auto simp: parts_ok_def token_ok_def split: if_splits)
next
  case (InHex us k v)
  from assms(1) InHex obtain d where d: "hex_val c = Some d" "ts = []"
    "m' = (if k \<le> 1 then InString (Utf16 (16 * v + d) # us) else InHex us (k - 1) (16 * v + d))" by auto
  have "1 \<le> k" "k \<le> 4" "v * 16 ^ k < 65536" "list_all part_ok us" using assms(2) InHex by (simp_all add: parts_ok_def)
  with hex_digit_ok [OF this(1-3) hex_val_less [OF d(1)]] d show ?thesis by (auto simp: parts_ok_def)
next
  case (InNumber s)
  have "token_ok x" if "number_token (rev s) = Some x" for x using that by (auto simp: number_token_def token_ok_def split: if_splits)
  with assms(1) InNumber lex_after_ok show ?thesis by (fastforce simp: parts_ok_def split: if_splits)
next
  case (InWord s)
  have "token_ok x" if "word_token (rev s) = Some x" for x using that by (auto simp: word_token_def token_ok_def split: if_splits)
  with assms(1) InWord lex_after_ok show ?thesis by (fastforce simp: parts_ok_def split: if_splits)
qed

lemma lex_ok: "lex m s = Some ts \<Longrightarrow> parts_ok m \<Longrightarrow> list_all token_ok ts"
proof (induction s arbitrary: m ts)
  case Nil
  then show ?case by (auto simp: number_token_def word_token_def token_ok_def split: lexmode.splits if_splits)
next
  case (Cons c s)
  from Cons.prems(1) obtain ts' m' us where "lex_char m c = Some (ts', m')" "lex m' s = Some us" "ts = ts' @ us"
    by (auto split: option.splits prod.splits)
  with lex_char_ok [of m c ts' m'] Cons.IH [of m' us] Cons.prems(2) show ?case by simp
qed

text \<open>So are the strings of the parsed value.\<close>

fun strings_ok :: "jvalue \<Rightarrow> bool" where
  "strings_ok (JStr s) \<longleftrightarrow> valid_utf8 s"
| "strings_ok (JArr vs) \<longleftrightarrow> list_all strings_ok vs"
| "strings_ok (JObj kvs) \<longleftrightarrow> list_all (\<lambda>(k, v). valid_utf8 k \<and> strings_ok v) kvs"
| "strings_ok v \<longleftrightarrow> True"

abbreviation members_ok :: "(string \<times> jvalue) list \<Rightarrow> bool" where
  "members_ok \<equiv> list_all (\<lambda>(k, v). valid_utf8 k \<and> strings_ok v)"

fun frame_ok :: "frame \<Rightarrow> bool" where
  "frame_ok (ArrFrame vs) \<longleftrightarrow> list_all strings_ok vs"
| "frame_ok (ObjFrame kvs k) \<longleftrightarrow> members_ok kvs \<and> valid_utf8 k"

fun expected_ok :: "expected \<Rightarrow> bool" where
  "expected_ok (WantKey b kvs) \<longleftrightarrow> members_ok kvs"
| "expected_ok (WantColon kvs k) \<longleftrightarrow> members_ok kvs \<and> valid_utf8 k"
| "expected_ok (Have v) \<longleftrightarrow> strings_ok v"
| "expected_ok e \<longleftrightarrow> True"

lemma parse_value_ok: "parse_value fs t = Some (fs', e) \<Longrightarrow> list_all frame_ok fs \<Longrightarrow> token_ok t \<Longrightarrow> list_all frame_ok fs' \<and> expected_ok e"
  by (cases t) (auto simp: token_ok_def split: if_splits)

lemma parse_after_ok: "parse_after fs v t = Some (fs', e) \<Longrightarrow> list_all frame_ok fs \<Longrightarrow> strings_ok v \<Longrightarrow> list_all frame_ok fs' \<and> expected_ok e"
  by (cases "(fs, v, t)" rule: parse_after.cases) auto

lemma parse_step_ok:
  assumes "parse_step fs e t = Some (fs', e')" "list_all frame_ok fs" "expected_ok e" "token_ok t"
  shows "list_all frame_ok fs' \<and> expected_ok e'"
proof (cases e)
  case WantElement
  with assms parse_value_ok show ?thesis by (cases fs) (auto split: if_splits)
qed (use assms parse_value_ok parse_after_ok in \<open>auto simp: token_ok_def split: if_splits token.splits\<close>)

lemma parse_tokens_ok:
  "parse_tokens fs e ts = Some v \<Longrightarrow> list_all frame_ok fs \<Longrightarrow> expected_ok e \<Longrightarrow> list_all token_ok ts \<Longrightarrow> strings_ok v"
proof (induction ts arbitrary: fs e)
  case Nil
  then show ?case by (auto split: expected.splits if_splits)
next
  case (Cons t ts)
  then show ?case using parse_step_ok by (fastforce split: option.splits)
qed

lemma json_parse_ok:
  assumes "json_parse s = Some v"
  shows "strings_ok v"
proof -
  obtain ts where ts: "lex Between s = Some ts" "parse_tokens [] WantValue ts = Some v"
    using assms by (auto simp: json_parse_def split: option.splits)
  have "list_all token_ok ts" by (rule lex_ok [OF ts(1)]) (simp add: parts_ok_def)
  then show ?thesis by (intro parse_tokens_ok [OF ts(2)]) simp_all
qed

end
