(* ===== verification/JsonCodecs.thy ===== *)
theory JsonCodecs
  imports Json Exporter ExternalQuery ScaleRange
begin

text \<open>
  \<open>json.Unmarshal\<close> into the types of the gateway and of the provider's package \<open>types\<close>, and
  \<open>json.Marshal\<close> of a scale request: the decoders and encoders that other theories have as parameters.
\<close>

section \<open>Decoders\<close>

text \<open>
  A decoder is given the present value of the variable, which it overwrites, merges with or keeps, and
  says whether a type did not fit. Decoding goes on after such an error, which \<open>Unmarshal\<close> returns in
  the end. Two things are left out: the text of the errors, and the old elements that come back
  when one array is given three times under the same key.
\<close>

type_synonym 'a decoder = "'a \<Rightarrow> jvalue \<Rightarrow> 'a \<times> bool"

definition decode_string :: "string decoder" where
  "decode_string old v = (case v of JNull \<Rightarrow> (old, False) | JStr s \<Rightarrow> (s, False) | _ \<Rightarrow> (old, True))"

definition decode_bool :: "bool decoder" where
  "decode_bool old v = (case v of JNull \<Rightarrow> (old, False) | JBool b \<Rightarrow> (b, False) | _ \<Rightarrow> (old, True))"

definition ParseUint64 :: "string \<Rightarrow> uint64 option" where
  "ParseUint64 s =
     (if s = [] then None
      else (case parse_digits 0 s of None \<Rightarrow> None | Some n \<Rightarrow> if n < 2 ^ 64 then Some (of_nat n) else None))"

definition decode_uint64 :: "uint64 decoder" where
  "decode_uint64 old v =
     (case v of JNull \<Rightarrow> (old, False)
      | JNum s \<Rightarrow> (case ParseUint64 s of None \<Rightarrow> (old, True) | Some n \<Rightarrow> (n, False))
      | _ \<Rightarrow> (old, True))"

definition decode_float64 :: "gofloat decoder" where
  "decode_float64 old v =
     (case v of JNull \<Rightarrow> (old, False)
      | JNum s \<Rightarrow> (case ParseFloat64 s of None \<Rightarrow> (old, True) | Some x \<Rightarrow> (x, False))
      | _ \<Rightarrow> (old, True))"

text \<open>Into \<open>interface{}\<close>: every number, also inside, has to be a \<open>float64\<close>.\<close>

fun numbers_fit :: "jvalue \<Rightarrow> bool" where
  "numbers_fit (JNum s) \<longleftrightarrow> ParseFloat64 s \<noteq> None"
| "numbers_fit (JArr vs) \<longleftrightarrow> list_all numbers_fit vs"
| "numbers_fit (JObj kvs) \<longleftrightarrow> list_all (\<lambda>(k, v). numbers_fit v) kvs"
| "numbers_fit v \<longleftrightarrow> True"

definition decode_interface :: "json decoder" where
  "decode_interface old v = (case v of JStr s \<Rightarrow> JString s | _ \<Rightarrow> JOther, \<not> numbers_fit v)"

text \<open>A pointer is set to nil by \<open>null\<close>, and to a new variable when it was nil.\<close>

definition decode_pointer :: "'a \<Rightarrow> 'a decoder \<Rightarrow> 'a option decoder" where
  "decode_pointer zero d old v =
     (if v = JNull then (None, False)
      else (case d (case old of None \<Rightarrow> zero | Some x \<Rightarrow> x) v of (x, bad) \<Rightarrow> (Some x, bad)))"

fun decode_elements :: "'a \<Rightarrow> 'a decoder \<Rightarrow> 'a list \<Rightarrow> jvalue list \<Rightarrow> 'a list \<times> bool" where
  "decode_elements zero d old [] = ([], False)"
| "decode_elements zero d old (v # vs) =
     (case (d (if old = [] then zero else hd old) v, decode_elements zero d (tl old) vs) of
        ((x, bad), (xs, bads)) \<Rightarrow> (x # xs, bad \<or> bads))"

definition decode_slice :: "'a \<Rightarrow> 'a decoder \<Rightarrow> 'a list decoder" where
  "decode_slice zero d old v =
     (case v of JNull \<Rightarrow> ([], False) | JArr vs \<Rightarrow> decode_elements zero d old vs | _ \<Rightarrow> (old, True))"

text \<open>A map keeps its other entries; every value is decoded into an empty string.\<close>

fun decode_entries :: "(string \<Rightarrow> string option) \<Rightarrow> (string \<times> jvalue) list \<Rightarrow> (string \<Rightarrow> string option) \<times> bool" where
  "decode_entries m [] = (m, False)"
| "decode_entries m ((k, v) # kvs) =
     (case decode_string [] v of (x, bad) \<Rightarrow>
        (case decode_entries (m(k \<mapsto> x)) kvs of (m', bads) \<Rightarrow> (m', bad \<or> bads)))"

definition decode_map :: "(string \<Rightarrow> string option) decoder" where
  "decode_map old v = (case v of JObj kvs \<Rightarrow> decode_entries old kvs | _ \<Rightarrow> (old, True))"

subsection \<open>Structs\<close>

text \<open>
  The field of a key: the one with exactly its name, otherwise the one with the same folded name. Apart from
  the ASCII letters only the Kelvin sign and the long s fold to a letter of a field's name.
\<close>

fun folded :: "string \<Rightarrow> string" where
  "folded [] = []"
| "folded (c # cs) =
     (if c = CHR 0xE2 \<and> take 2 cs = [CHR 0x84, CHR 0xAA] then CHR ''K'' # folded (drop 2 cs)
      else if c = CHR 0xC5 \<and> take 1 cs = [CHR 0xBF] then CHR ''S'' # folded (drop 1 cs)
      else to_upper c # folded cs)"

definition find_field :: "(string \<times> 'd) list \<Rightarrow> string \<Rightarrow> 'd option" where
  "find_field flds k =
     (case map_of flds k of Some d \<Rightarrow> Some d
      | None \<Rightarrow> map_option snd (find (\<lambda>(n, d). folded n = folded k) flds))"

fun decode_members :: "(string \<times> 'a decoder) list \<Rightarrow> 'a \<Rightarrow> (string \<times> jvalue) list \<Rightarrow> 'a \<times> bool" where
  "decode_members flds old [] = (old, False)"
| "decode_members flds old ((k, v) # kvs) =
     (case (case find_field flds k of None \<Rightarrow> (old, False) | Some d \<Rightarrow> d old v) of (x, bad) \<Rightarrow>
        (case decode_members flds x kvs of (y, bads) \<Rightarrow> (y, bad \<or> bads)))"

definition decode_struct :: "(string \<times> 'a decoder) list \<Rightarrow> 'a decoder" where
  "decode_struct flds old v =
     (case v of JNull \<Rightarrow> (old, False) | JObj kvs \<Rightarrow> decode_members flds old kvs | _ \<Rightarrow> (old, True))"

definition in_field :: "('r \<Rightarrow> 'a) \<Rightarrow> (('a \<Rightarrow> 'a) \<Rightarrow> 'r \<Rightarrow> 'r) \<Rightarrow> 'a decoder \<Rightarrow> 'r decoder" where
  "in_field get update d old v = (case d (get old) v of (x, bad) \<Rightarrow> (update (\<lambda>_. x) old, bad))"

definition Unmarshal :: "'a decoder \<Rightarrow> 'a \<Rightarrow> string \<Rightarrow> 'a \<times> bool" where
  "Unmarshal d zero s = (case json_parse s of None \<Rightarrow> (zero, True) | Some v \<Rightarrow> d zero v)"

definition unmarshalled :: "'a decoder \<Rightarrow> 'a \<Rightarrow> string \<Rightarrow> 'a option" where
  "unmarshalled d zero s = (case Unmarshal d zero s of (x, bad) \<Rightarrow> if bad then None else Some x)"

section \<open>The types\<close>

subsection \<open>Scale requests\<close>

definition decode_scale_request :: "ScaleServiceRequest decoder" where
  "decode_scale_request = decode_struct
     [(''serviceName'', in_field ServiceName ServiceName_update decode_string),
      (''replicas'', in_field ReqReplicas ReqReplicas_update decode_uint64),
      (''namespace'', in_field ReqNamespace ReqNamespace_update decode_string)]"

definition unmarshal_scale_request :: "string \<Rightarrow> ScaleServiceRequest option" where
  "unmarshal_scale_request = unmarshalled decode_scale_request \<lparr>ServiceName = [], ReqReplicas = 0, ReqNamespace = []\<rparr>"

definition scale_request_json :: "ScaleServiceRequest \<Rightarrow> jvalue" where
  "scale_request_json q = JObj ([(''serviceName'', JStr (ServiceName q)), (''replicas'', JNum (nat_digits (unat (ReqReplicas q))))]
     @ (if ReqNamespace q = [] then [] else [(''namespace'', JStr (ReqNamespace q))]))"

definition marshal_scale_request :: "ScaleServiceRequest \<Rightarrow> string" where
  "marshal_scale_request q = json_print (scale_request_json q)"

subsection \<open>Alerts\<close>

definition decode_alert_labels :: "PrometheusInnerAlertLabel decoder" where
  "decode_alert_labels = decode_struct
     [(''alertname'', in_field AlertName AlertName_update decode_string),
      (''function_name'', in_field FunctionName FunctionName_update decode_string)]"

definition decode_inner_alert :: "PrometheusInnerAlert decoder" where
  "decode_inner_alert = decode_struct
     [(''status'', in_field Status Status_update decode_string),
      (''labels'', in_field Labels Labels_update decode_alert_labels)]"

definition empty_inner_alert :: PrometheusInnerAlert where
  "empty_inner_alert = \<lparr>Status = [], Labels = \<lparr>AlertName = [], FunctionName = []\<rparr>\<rparr>"

definition decode_alert :: "PrometheusAlert decoder" where
  "decode_alert = decode_struct
     [(''status'', in_field AlertStatus AlertStatus_update decode_string),
      (''receiver'', in_field Receiver Receiver_update decode_string),
      (''alerts'', in_field Alerts Alerts_update (decode_slice empty_inner_alert decode_inner_alert))]"

definition unmarshal_alert :: "string \<Rightarrow> PrometheusAlert option" where
  "unmarshal_alert = unmarshalled decode_alert \<lparr>AlertStatus = [], Receiver = [], Alerts = []\<rparr>"

subsection \<open>Answers of Prometheus\<close>

definition decode_vector_result :: "VectorResult decoder" where
  "decode_vector_result = decode_struct
     [(''Metric'', decode_struct
        [(''code'', in_field VCode VCode_update decode_string),
         (''function_name'', in_field VFunctionName VFunctionName_update decode_string)]),
      (''value'', in_field VValue VValue_update (decode_slice JOther decode_interface))]"

definition decode_vector :: "VectorQueryResponse decoder" where
  "decode_vector = decode_struct [(''Data'', decode_struct
     [(''Result'', decode_slice \<lparr>VCode = [], VFunctionName = [], VValue = []\<rparr> decode_vector_result)])]"

subsection \<open>The status of a function\<close>

record FunctionResources =
  Memory :: string
  CPU :: string
  NvidiaGPU :: string
  AmdGPU :: string
  IntelGPU :: string

text \<open>The fields the list of functions only passes on. The reader of \<open>time.Time\<close> is a parameter.\<close>

record 't FunctionRest =
  RImage :: string
  REnvProcess :: string
  REnvVars :: "(string \<Rightarrow> string option) option"
  RConstraints :: "string list option"
  RSecrets :: "string list option"
  RLabels :: "(string \<Rightarrow> string option) option"
  RAnnotations :: "(string \<Rightarrow> string option) option"
  RLimits :: "FunctionResources option"
  RRequests :: "FunctionResources option"
  RReadOnly :: bool
  RAvailable :: uint64
  RCreatedAt :: 't
  RUsage :: "(gofloat \<times> gofloat) option"

definition decode_labels :: "(string \<Rightarrow> string option) option decoder" where
  "decode_labels = decode_pointer Map.empty decode_map"

definition decode_strings :: "string list option decoder" where
  "decode_strings = decode_pointer [] (decode_slice [] decode_string)"

definition decode_resources :: "FunctionResources option decoder" where
  "decode_resources = decode_pointer \<lparr>Memory = [], CPU = [], NvidiaGPU = [], AmdGPU = [], IntelGPU = []\<rparr> (decode_struct
     [(''memory'', in_field Memory Memory_update decode_string),
      (''cpu'', in_field CPU CPU_update decode_string),
      (''nvidia.com/gpu'', in_field NvidiaGPU NvidiaGPU_update decode_string),
      (''amd.com/gpu'', in_field AmdGPU AmdGPU_update decode_string),
      (''intel.com/gpu'', in_field IntelGPU IntelGPU_update decode_string)])"

definition decode_usage :: "(gofloat \<times> gofloat) option decoder" where
  "decode_usage = decode_pointer (Finite 0, Finite 0) (decode_struct
     [(''cpu'', in_field fst apfst decode_float64), (''totalMemoryBytes'', in_field snd apsnd decode_float64)])"

definition in_rest :: "('t FunctionRest \<Rightarrow> 'a) \<Rightarrow> (('a \<Rightarrow> 'a) \<Rightarrow> 't FunctionRest \<Rightarrow> 't FunctionRest) \<Rightarrow> 'a decoder
    \<Rightarrow> 't FunctionRest listed decoder" where
  "in_rest get update d = in_field LRest LRest_update (in_field get update d)"

definition decode_status :: "'t decoder \<Rightarrow> 't FunctionRest listed decoder" where
  "decode_status decode_time = decode_struct
     [(''name'', in_field LName LName_update decode_string),
      (''image'', in_rest RImage RImage_update decode_string),
      (''namespace'', in_field LNamespace LNamespace_update decode_string),
      (''envProcess'', in_rest REnvProcess REnvProcess_update decode_string),
      (''envVars'', in_rest REnvVars REnvVars_update decode_labels),
      (''constraints'', in_rest RConstraints RConstraints_update decode_strings),
      (''secrets'', in_rest RSecrets RSecrets_update decode_strings),
      (''labels'', in_rest RLabels RLabels_update decode_labels),
      (''annotations'', in_rest RAnnotations RAnnotations_update decode_labels),
      (''limits'', in_rest RLimits RLimits_update decode_resources),
      (''requests'', in_rest RRequests RRequests_update decode_resources),
      (''readOnlyRootFilesystem'', in_rest RReadOnly RReadOnly_update decode_bool),
      (''invocationCount'', in_field LInvocationCount LInvocationCount_update decode_float64),
      (''replicas'', in_field LReplicas LReplicas_update decode_uint64),
      (''availableReplicas'', in_rest RAvailable RAvailable_update decode_uint64),
      (''createdAt'', in_rest RCreatedAt RCreatedAt_update decode_time),
      (''usage'', in_rest RUsage RUsage_update decode_usage)]"

definition empty_status :: "'t \<Rightarrow> 't FunctionRest listed" where
  "empty_status t = \<lparr>LName = [], LNamespace = [], LInvocationCount = Finite 0, LReplicas = 0, LRest =
     \<lparr>RImage = [], REnvProcess = [], REnvVars = None, RConstraints = None, RSecrets = None, RLabels = None,
      RAnnotations = None, RLimits = None, RRequests = None, RReadOnly = False, RAvailable = 0, RCreatedAt = t, RUsage = None\<rparr>\<rparr>"

text \<open>What the service query reads of it.\<close>

definition queried_status :: "'t FunctionRest listed \<Rightarrow> FunctionStatus" where
  "queried_status f = \<lparr>FReplicas = LReplicas f, FAvailableReplicas = RAvailable (LRest f),
     FLabels = RLabels (LRest f), FAnnotations = RAnnotations (LRest f)\<rparr>"

section \<open>The codecs\<close>

text \<open>\<open>msg\<close> gives the text of the error for an input, \<open>t0\<close> is the zero time.\<close>

definition or_message :: "(string \<Rightarrow> string) \<Rightarrow> (string \<Rightarrow> 'a option) \<Rightarrow> string \<Rightarrow> string + 'a" where
  "or_message msg u s = (case u s of None \<Rightarrow> Inl (msg s) | Some x \<Rightarrow> Inr x)"

definition json_codec :: "'t decoder \<Rightarrow> 't \<Rightarrow> (string \<Rightarrow> string) \<Rightarrow> (string \<Rightarrow> string \<Rightarrow> string) \<Rightarrow> codec" where
  "json_codec decode_time t0 msg basic =
     \<lparr>basic_header = basic,
      unmarshal_status = or_message msg (map_option queried_status \<circ> unmarshalled (decode_status decode_time) (empty_status t0)),
      marshal_scale = marshal_scale_request\<rparr>"

definition json_list_codec :: "'t decoder \<Rightarrow> 't \<Rightarrow> (string \<Rightarrow> string) \<Rightarrow> ('t FunctionRest listed list option \<Rightarrow> string + string)
    \<Rightarrow> 't FunctionRest list_codec" where
  "json_list_codec decode_time t0 msg marshal =
     \<lparr>unmarshal_functions = or_message msg
        (unmarshalled (decode_pointer [] (decode_slice (empty_status t0) (decode_status decode_time))) None),
      marshal_functions = marshal,
      unmarshal_vector = or_message msg (unmarshalled decode_vector []),
      ParseFloat = ParseFloat64\<rparr>"

definition json_watch_codec :: "'t decoder \<Rightarrow> 't \<Rightarrow> (string \<Rightarrow> string) \<Rightarrow> ('t FunctionRest listed list option \<Rightarrow> string + string)
    \<Rightarrow> (string \<Rightarrow> string \<Rightarrow> string) \<Rightarrow> 't FunctionRest watch_codec" where
  "json_watch_codec decode_time t0 msg marshal basic =
     \<lparr>functions_codec = json_list_codec decode_time t0 msg marshal,
      unmarshal_strings = (\<lambda>s. case Unmarshal (decode_slice [] decode_string) [] s of
        (ns, bad) \<Rightarrow> (ns, if bad then Some (msg s) else None)),
      basic_text = basic\<rparr>"

section \<open>Round trips\<close>

lemma unmarshalled_print:
  assumes "printable v" "depth v \<le> maxNestingDepth"
  shows "unmarshalled d zero (json_print v) = (case d zero v of (x, bad) \<Rightarrow> if bad then None else Some x)"
  using json_parse_print [OF assms] by (simp add: unmarshalled_def Unmarshal_def)

lemma unmarshalled_text:
  assumes "printable v" "depth v \<le> maxNestingDepth" "d zero v = (x, False)"
  shows "unmarshalled d zero (json_print v) = Some x"
  using unmarshalled_print [OF assms(1,2), of d zero] assms(3) by simp

lemma digits_nat_digits: "c \<in> set (nat_digits n) \<Longrightarrow> is_digit c"
  using digits_only [OF parse_nat_digits] by blast

lemma hd_zero_digit: "hd (nat_digits n) = CHR ''0'' \<Longrightarrow> n = 0"
proof (induction n rule: nat_digits.induct)
  case (1 n)
  show ?case
  proof (cases "n < 10")
    case True
    with "1.prems" have "digit n = CHR ''0''" by (simp add: nat_digits.simps [of n])
    then have "digit_val (digit n) = Some 0" by (simp add: digit_val_def)
    with True show ?thesis by simp
  next
    case False
    with 1 show ?thesis by (simp add: nat_digits.simps [of n] hd_append nat_digits_nonempty)
  qed
qed

lemma json_number_digits: "json_number (nat_digits n)" "list_all is_number_char (nat_digits n)"
proof -
  let ?s = "nat_digits n"
  have all: "takeWhile is_digit ?s = ?s" "dropWhile is_digit ?s = []"
    using digits_nat_digits by (simp_all add: takeWhile_eq_all_conv dropWhile_eq_Nil_conv)
  have "\<not> is_digit CHR ''-''" by (simp add: is_digit_def digit_val_def)
  then have "hd ?s \<noteq> CHR ''-''" using digits_nat_digits [of "hd ?s" n] hd_in_set [OF nat_digits_nonempty] by metis
  moreover have "length ?s = 1" if "hd ?s = CHR ''0''" using hd_zero_digit [OF that] by (simp add: nat_digits.simps)
  ultimately show "json_number ?s"
    using nat_digits_nonempty [of n] by (simp del: takeWhile_eq_all_conv dropWhile_eq_Nil_conv add: json_number_def Let_def all fraction_def exponent_part_def)
  show "list_all is_number_char ?s" using digits_nat_digits by (auto simp: list_all_iff is_number_char_def)
qed

lemma ParseUint64_digits: "ParseUint64 (nat_digits (unat n)) = Some n"
proof -
  have "unat n < 2 ^ 64" using unsigned_less [of n] by simp
  then show ?thesis by (simp add: ParseUint64_def nat_digits_nonempty parse_nat_digits)
qed

lemma scale_request_printable:
  "valid_utf8 (ServiceName q) \<Longrightarrow> valid_utf8 (ReqNamespace q) \<Longrightarrow> printable (scale_request_json q)"
  by (simp add: scale_request_json_def json_number_digits)

lemma scale_request_decoded:
  "decode_scale_request \<lparr>ServiceName = [], ReqReplicas = 0, ReqNamespace = []\<rparr> (scale_request_json q) = (q, False)"
  by (simp add: decode_scale_request_def decode_struct_def scale_request_json_def find_field_def in_field_def
      decode_string_def decode_uint64_def ParseUint64_digits)

lemma unmarshal_marshal_scale_request:
  assumes "valid_utf8 (ServiceName q)" "valid_utf8 (ReqNamespace q)"
  shows "unmarshal_scale_request (marshal_scale_request q) = Some q"
  unfolding unmarshal_scale_request_def marshal_scale_request_def
  by (rule unmarshalled_text [OF scale_request_printable [OF assms]])
    (simp_all add: scale_request_decoded, simp add: scale_request_json_def maxNestingDepth_def)

text \<open>Whatever text a scale request was read from, its names are valid UTF-8, so it can be printed and read again.\<close>

lemma decode_members_inv:
  assumes "\<And>k d x v. (k, v) \<in> set kvs \<Longrightarrow> find_field flds k = Some d \<Longrightarrow> P x \<Longrightarrow> P (fst (d x v))" "P x"
  shows "P (fst (decode_members flds x kvs))"
  using assms
proof (induction kvs arbitrary: x)
  case (Cons kv kvs)
  obtain k v where kv: "kv = (k, v)" by fastforce
  let ?d = "case find_field flds k of None \<Rightarrow> (x, False) | Some d \<Rightarrow> d x v"
  have "P (fst ?d)" using Cons.prems kv by (auto split: option.split)
  then have "P (fst (decode_members flds (fst ?d) kvs))"
    using Cons.prems(1) by (intro Cons.IH) auto
  with kv show ?case by (auto split: prod.split)
qed simp

lemma find_field_in: "find_field flds k = Some d \<Longrightarrow> \<exists>n. (n, d) \<in> set flds \<and> (n = k \<or> folded n = folded k)"
  by (auto simp: find_field_def find_Some_iff dest: map_of_SomeD split: option.splits) (metis nth_mem)

lemma decode_string_valid: "valid_utf8 old \<Longrightarrow> strings_ok v \<Longrightarrow> valid_utf8 (fst (decode_string old v))"
  by (cases v) (simp_all add: decode_string_def)

lemma scale_request_valid:
  assumes "unmarshal_scale_request b = Some q"
  shows "valid_utf8 (ServiceName q) \<and> valid_utf8 (ReqNamespace q)"
proof -
  let ?P = "\<lambda>q :: ScaleServiceRequest. valid_utf8 (ServiceName q) \<and> valid_utf8 (ReqNamespace q)" and ?z = "\<lparr>ServiceName = [], ReqReplicas = 0, ReqNamespace = []\<rparr>"
  let ?flds = "[(''serviceName'', in_field ServiceName ServiceName_update decode_string),
      (''replicas'', in_field ReqReplicas ReqReplicas_update decode_uint64),
      (''namespace'', in_field ReqNamespace ReqNamespace_update decode_string)] :: (string \<times> ScaleServiceRequest decoder) list"
  have step: "?P (fst (d x v))" if "find_field ?flds k = Some d" "?P x" "strings_ok v" for k d v and x :: ScaleServiceRequest
  proof -
    from find_field_in [OF that(1)] obtain n where "(n, d) \<in> set ?flds" by blast
    then have "d \<in> snd ` set ?flds" by force
    then consider "d = in_field ServiceName ServiceName_update decode_string" | "d = in_field ReqReplicas ReqReplicas_update decode_uint64"
      | "d = in_field ReqNamespace ReqNamespace_update decode_string" by auto
    then show ?thesis using that(2) decode_string_valid [OF _ that(3)]
      by cases (simp_all add: in_field_def case_prod_unfold)
  qed
  obtain v where v: "json_parse b = Some v" "fst (decode_scale_request ?z v) = q"
    using assms by (auto simp: unmarshal_scale_request_def unmarshalled_def Unmarshal_def split: option.splits prod.splits if_splits)
  have "?P (fst (decode_members ?flds ?z kvs))" if "members_ok kvs" for kvs
  proof (rule decode_members_inv [where P = ?P])
    fix k d v and x :: ScaleServiceRequest
    assume kv: "(k, v) \<in> set kvs" and d: "find_field ?flds k = Some d" "?P x"
    from kv that have "strings_ok v" by (auto simp: list_all_iff)
    with d show "?P (fst (d x v))" by (rule step)
  qed simp
  then have "?P (fst (decode_scale_request ?z v))"
    using json_parse_ok [OF v(1)]
    by (cases v) (simp_all add: decode_scale_request_def decode_struct_def)
  with v(2) show ?thesis by simp
qed

text \<open>What Alertmanager posts, with one alert; further members of the objects are skipped.\<close>

definition inner_alert_json :: "PrometheusInnerAlert \<Rightarrow> jvalue" where
  "inner_alert_json a = JObj [(''status'', JStr (Status a)), (''labels'', JObj
     [(''alertname'', JStr (AlertName (Labels a))), (''function_name'', JStr (FunctionName (Labels a)))])]"

definition alert_json :: "PrometheusAlert \<Rightarrow> jvalue" where
  "alert_json a = JObj [(''receiver'', JStr (Receiver a)), (''status'', JStr (AlertStatus a)),
     (''alerts'', JArr (map inner_alert_json (Alerts a)))]"

definition valid_alert :: "PrometheusInnerAlert \<Rightarrow> bool" where
  "valid_alert a \<longleftrightarrow> valid_utf8 (Status a) \<and> valid_utf8 (AlertName (Labels a)) \<and> valid_utf8 (FunctionName (Labels a))"

lemma inner_alert_decoded: "decode_inner_alert a0 (inner_alert_json a) = (a, False)"
  by (simp add: decode_inner_alert_def decode_struct_def inner_alert_json_def find_field_def in_field_def
      decode_string_def decode_alert_labels_def)

lemma elements_decoded:
  assumes "\<And>x z. d z (f x) = (x, False)"
  shows "decode_elements zero d old (map f xs) = (xs, False)"
  using assms by (induction xs arbitrary: old) auto

lemma unmarshal_alert_text:
  assumes "valid_utf8 (Receiver a)" "valid_utf8 (AlertStatus a)" "\<forall>i \<in> set (Alerts a). valid_alert i"
  shows "unmarshal_alert (json_print (alert_json a)) = Some a"
proof -
  have "printable (inner_alert_json i)" if "valid_alert i" for i
    using that by (simp add: inner_alert_json_def valid_alert_def)
  then have p: "printable (alert_json a)" using assms by (auto simp: alert_json_def list_all_iff)
  have "depth (alert_json a) \<le> maxNestingDepth"
  proof -
    have "\<forall>v \<in> set (map inner_alert_json (Alerts a)). depth v \<le> 2" by (auto simp: inner_alert_json_def)
    then have "foldr (\<lambda>v d. max (depth v) d) (map inner_alert_json (Alerts a)) 0 \<le> 2" by (subst foldr_max_le)
    then show ?thesis by (simp add: alert_json_def maxNestingDepth_def)
  qed
  moreover have "decode_alert \<lparr>AlertStatus = [], Receiver = [], Alerts = []\<rparr> (alert_json a) = (a, False)"
    using elements_decoded [of decode_inner_alert inner_alert_json] inner_alert_decoded
    by (simp add: decode_alert_def decode_struct_def alert_json_def find_field_def in_field_def
        decode_string_def decode_slice_def)
  ultimately show ?thesis unfolding unmarshal_alert_def by (rule unmarshalled_text [OF p])
qed

text \<open>The answer of Prometheus to the query, at the time \<open>t\<close>: the value of every label, as a string.\<close>

definition result_json :: "string \<Rightarrow> string \<times> nat \<Rightarrow> jvalue" where
  "result_json t r = JObj [(''metric'', JObj [(''function_name'', JStr (fst r))]),
     (''value'', JArr [JNum t, JStr (nat_digits (snd r))])]"

definition vector_json :: "string \<Rightarrow> (string \<times> nat) list \<Rightarrow> jvalue" where
  "vector_json t rs = JObj [(''status'', JStr ''success''), (''data'', JObj
     [(''resultType'', JStr ''vector''), (''result'', JArr (map (result_json t) rs))])]"

definition vector_of :: "(string \<times> nat) list \<Rightarrow> VectorQueryResponse" where
  "vector_of rs = map (\<lambda>(l, n). \<lparr>VCode = [], VFunctionName = l, VValue = [JOther, JString (nat_digits n)]\<rparr>) rs"

lemma folded_names:
  "folded ''metric'' = ''METRIC''" "folded ''Metric'' = ''METRIC''" "folded ''data'' = ''DATA''" "folded ''Data'' = ''DATA''"
  "folded ''result'' = ''RESULT''" "folded ''Result'' = ''RESULT''" "folded ''status'' = ''STATUS''"
  "folded ''resultType'' = ''RESULTTYPE''"
  by code_simp+

lemma result_decoded:
  "ParseFloat64 t \<noteq> None \<Longrightarrow> decode_vector_result \<lparr>VCode = [], VFunctionName = [], VValue = []\<rparr> (result_json t (l, n))
     = (\<lparr>VCode = [], VFunctionName = l, VValue = [JOther, JString (nat_digits n)]\<rparr>, False)"
  by (simp add: decode_vector_result_def decode_struct_def result_json_def find_field_def in_field_def folded_names
      decode_string_def decode_slice_def decode_interface_def del: folded.simps)

lemma results_decoded:
  assumes "ParseFloat64 t \<noteq> None"
  shows "decode_elements \<lparr>VCode = [], VFunctionName = [], VValue = []\<rparr> decode_vector_result [] (map (result_json t) rs) = (vector_of rs, False)"
  using result_decoded [OF assms] by (induction rs) (auto simp: vector_of_def)

lemma valid_digits: "valid_utf8 (nat_digits n)"
proof -
  have "(of_char c :: nat) < 128" if "is_digit c" for c
    using that by (auto simp: is_digit_def digit_val_def Let_def split: if_splits)
  then show ?thesis using digits_nat_digits by (intro ascii_valid) blast
qed

lemma unmarshal_vector_text:
  assumes "json_number t" "list_all is_number_char t" "ParseFloat64 t \<noteq> None" "\<forall>(l, n) \<in> set rs. valid_utf8 l"
  shows "unmarshalled decode_vector [] (json_print (vector_json t rs)) = Some (vector_of rs)"
proof -
  have "printable (result_json t (l, n))" if "valid_utf8 l" for l n
    using that assms(1,2) valid_digits by (simp add: result_json_def)
  then have p: "printable (vector_json t rs)" using assms(4) by (auto simp: vector_json_def list_all_iff)
  have "depth (vector_json t rs) \<le> maxNestingDepth"
  proof -
    have "\<forall>v \<in> set (map (result_json t) rs). depth v \<le> 2" by (auto simp: result_json_def)
    then have "foldr (\<lambda>v d. max (depth v) d) (map (result_json t) rs) 0 \<le> 2" by (subst foldr_max_le)
    then show ?thesis by (simp add: vector_json_def maxNestingDepth_def)
  qed
  moreover have "decode_vector [] (vector_json t rs) = (vector_of rs, False)"
    using results_decoded [OF assms(3), of rs]
    by (simp add: decode_vector_def decode_struct_def vector_json_def find_field_def folded_names decode_slice_def
        del: folded.simps)
  ultimately show ?thesis by (rule unmarshalled_text [OF p])
qed

end
