(* ===== verification/ProviderTexts.thy ===== *)
theory ProviderTexts
  imports JsonCodecs
begin

text \<open>
  What a provider sends about its functions, spelled as JSON with the keys of its interface, and what the decoders
  of theory JsonCodecs make of it.
\<close>

section \<open>Functions as a provider prints them\<close>

text \<open>
  The four members the gateway reads, printed as \<open>omitempty\<close> has it, and the other ones: image, labels,
  time of creation and so on.
\<close>

record served =
  SName :: string
  SNamespace :: string
  SReplicas :: uint64
  SAvailable :: uint64
  SOthers :: "(string \<times> jvalue) list"

definition served_json :: "served \<Rightarrow> jvalue" where
  "served_json f = JObj ([(''name'', JStr (SName f))]
     @ (if SNamespace f = [] then [] else [(''namespace'', JStr (SNamespace f))])
     @ (if SReplicas f = 0 then [] else [(''replicas'', JNum (nat_digits (unat (SReplicas f))))])
     @ (if SAvailable f = 0 then [] else [(''availableReplicas'', JNum (nat_digits (unat (SAvailable f))))])
     @ SOthers f)"

text \<open>
  The strings are valid UTF-8, and the other members do not repeat the four, are not nested too deeply and have the
  types of their fields.
\<close>

definition served_ok :: "'t decoder \<Rightarrow> served \<Rightarrow> bool" where
  "served_ok dt f \<longleftrightarrow> valid_utf8 (SName f) \<and> valid_utf8 (SNamespace f)
     \<and> (\<forall>(k, v) \<in> set (SOthers f). valid_utf8 k \<and> printable v \<and> depth v + 3 \<le> maxNestingDepth
          \<and> folded k \<notin> {''NAME'', ''NAMESPACE'', ''REPLICAS'', ''AVAILABLEREPLICAS''})
     \<and> (\<forall>old. \<not> snd (decode_status dt old (JObj (SOthers f))))"

definition unlabelled :: "served \<Rightarrow> bool" where
  "unlabelled f \<longleftrightarrow> (\<forall>(k, v) \<in> set (SOthers f). folded k \<noteq> ''LABELS'')"

text \<open>What is read of such a function.\<close>

definition read_as :: "served \<Rightarrow> 't FunctionRest listed \<Rightarrow> bool" where
  "read_as f y \<longleftrightarrow> LName y = SName f \<and> LNamespace y = SNamespace f \<and> LReplicas y = SReplicas f
     \<and> RAvailable (LRest y) = SAvailable f \<and> (unlabelled f \<longrightarrow> RLabels (LRest y) = None)"

section \<open>Reading them\<close>

lemma decode_members_append:
  "decode_members flds x (a @ b) = (case decode_members flds x a of (y, bad) \<Rightarrow>
     (case decode_members flds y b of (z, bads) \<Rightarrow> (z, bad \<or> bads)))"
  by (induction a arbitrary: x) (auto split: prod.splits)

lemma decode_members_then:
  "decode_members flds x a = (y, False) \<Longrightarrow> decode_members flds y b = (z, False) \<Longrightarrow> decode_members flds x (a @ b) = (z, False)"
  by (simp add: decode_members_append)

text \<open>A further member is decoded into a field of its own.\<close>

lemma status_fields:
  obtains flds where "decode_status dt = decode_struct flds"
    "find_field flds ''name'' = Some (in_field LName LName_update decode_string)"
    "find_field flds ''namespace'' = Some (in_field LNamespace LNamespace_update decode_string)"
    "find_field flds ''replicas'' = Some (in_field LReplicas LReplicas_update decode_uint64)"
    "find_field flds ''availableReplicas'' = Some (in_rest RAvailable RAvailable_update decode_uint64)"
    "\<And>k d x v. find_field flds k = Some d \<Longrightarrow> folded k \<notin> {''NAME'', ''NAMESPACE'', ''REPLICAS'', ''AVAILABLEREPLICAS''} \<Longrightarrow>
      LName (fst (d x v)) = LName x \<and> LNamespace (fst (d x v)) = LNamespace x \<and> LReplicas (fst (d x v)) = LReplicas x
      \<and> RAvailable (LRest (fst (d x v))) = RAvailable (LRest x)
      \<and> (folded k \<noteq> ''LABELS'' \<longrightarrow> RLabels (LRest (fst (d x v))) = RLabels (LRest x))"
proof -
  define flds where "flds =
     [(''name'', in_field LName LName_update decode_string),
      (''image'', in_rest RImage RImage_update decode_string),
      (''namespace'', in_field LNamespace LNamespace_update decode_string),
      (''envProcess'', in_rest REnvProcess REnvProcess_update decode_string),
      (''envVars'', in_rest REnvVars REnvVars_update decode_labels),
      (''constraints'', in_rest RConstraints RConstraints_update decode_strings),
      (''secrets'', in_rest RSecrets RSecrets_update decode_strings),
      (''labels'', in_rest RLabels RLabels_update decode_labels),
      (''annotations'', in_rest RAnnotations RAnnotations_update decode_labels),
      (''limits'', in_rest RLimits RLimits_update decode_resources),
      (''requests'', in_rest RRequests RRequests_update decode_resources),
      (''readOnlyRootFilesystem'', in_rest RReadOnly RReadOnly_update decode_bool),
      (''invocationCount'', in_field LInvocationCount LInvocationCount_update decode_float64),
      (''replicas'', in_field LReplicas LReplicas_update decode_uint64),
      (''availableReplicas'', in_rest RAvailable RAvailable_update decode_uint64),
      (''createdAt'', in_rest RCreatedAt RCreatedAt_update dt),
      (''usage'', in_rest RUsage RUsage_update decode_usage)]"
  have s: "decode_status dt = decode_struct flds" by (simp add: decode_status_def flds_def)
  have f: "folded ''name'' = ''NAME''" "folded ''namespace'' = ''NAMESPACE''" "folded ''replicas'' = ''REPLICAS''"
    "folded ''availableReplicas'' = ''AVAILABLEREPLICAS''" "folded ''labels'' = ''LABELS''" by code_simp+
  have "LName (fst (d x v)) = LName x \<and> LNamespace (fst (d x v)) = LNamespace x \<and> LReplicas (fst (d x v)) = LReplicas x
      \<and> RAvailable (LRest (fst (d x v))) = RAvailable (LRest x)
      \<and> (folded k \<noteq> ''LABELS'' \<longrightarrow> RLabels (LRest (fst (d x v))) = RLabels (LRest x))"
    if k: "find_field flds k = Some d" "folded k \<notin> {''NAME'', ''NAMESPACE'', ''REPLICAS'', ''AVAILABLEREPLICAS''}" for k d x v
  proof -
    from find_field_in [OF k(1)] obtain n where n: "(n, d) \<in> set flds" "folded n = folded k" by auto
    have "folded n \<notin> {''NAME'', ''NAMESPACE'', ''REPLICAS'', ''AVAILABLEREPLICAS''}" using k(2) n(2) by simp
    with n(1) show ?thesis unfolding flds_def n(2) [symmetric]
      by (auto simp: in_rest_def in_field_def case_prod_unfold f simp del: folded.simps)
  qed
  moreover have "find_field flds ''name'' = Some (in_field LName LName_update decode_string)"
    "find_field flds ''namespace'' = Some (in_field LNamespace LNamespace_update decode_string)"
    "find_field flds ''replicas'' = Some (in_field LReplicas LReplicas_update decode_uint64)"
    "find_field flds ''availableReplicas'' = Some (in_rest RAvailable RAvailable_update decode_uint64)"
    by (simp_all add: find_field_def flds_def)
  ultimately show thesis using s that by blast
qed

lemma served_decoded:
  fixes dt :: "'t decoder"
  assumes "served_ok dt f"
  shows "\<exists>y. decode_status dt (empty_status t0) (served_json f) = (y, False) \<and> read_as f y"
proof -
  obtain flds where s: "decode_status dt = decode_struct flds"
    and four: "find_field flds ''name'' = Some (in_field LName LName_update decode_string)"
      "find_field flds ''namespace'' = Some (in_field LNamespace LNamespace_update decode_string)"
      "find_field flds ''replicas'' = Some (in_field LReplicas LReplicas_update decode_uint64)"
      "find_field flds ''availableReplicas'' = Some (in_rest RAvailable RAvailable_update decode_uint64)"
    and keeps: "\<And>k d x v. find_field flds k = Some d \<Longrightarrow> folded k \<notin> {''NAME'', ''NAMESPACE'', ''REPLICAS'', ''AVAILABLEREPLICAS''} \<Longrightarrow>
      LName (fst (d x v)) = LName x \<and> LNamespace (fst (d x v)) = LNamespace x \<and> LReplicas (fst (d x v)) = LReplicas x
      \<and> RAvailable (LRest (fst (d x v))) = RAvailable (LRest x)
      \<and> (folded k \<noteq> ''LABELS'' \<longrightarrow> RLabels (LRest (fst (d x v))) = RLabels (LRest x))"
    by (rule status_fields [of dt]) blast
  let ?four = "[(''name'', JStr (SName f))]
     @ (if SNamespace f = [] then [] else [(''namespace'', JStr (SNamespace f))])
     @ (if SReplicas f = 0 then [] else [(''replicas'', JNum (nat_digits (unat (SReplicas f))))])
     @ (if SAvailable f = 0 then [] else [(''availableReplicas'', JNum (nat_digits (unat (SAvailable f))))])"
  have n: "decode_members flds z [(''name'', JStr (SName f))] = (z\<lparr>LName := SName f\<rparr>, False)" for z
    by (simp add: four in_field_def decode_string_def)
  have ns: "decode_members flds z (if SNamespace f = [] then [] else [(''namespace'', JStr (SNamespace f))]) = (z\<lparr>LNamespace := SNamespace f\<rparr>, False)"
    if "LNamespace z = []" for z using that by (simp add: four in_field_def decode_string_def)
  have rs: "decode_members flds z (if SReplicas f = 0 then [] else [(''replicas'', JNum (nat_digits (unat (SReplicas f))))]) = (z\<lparr>LReplicas := SReplicas f\<rparr>, False)"
    if "LReplicas z = 0" for z using that by (simp add: four in_field_def decode_uint64_def ParseUint64_digits)
  have as: "decode_members flds z (if SAvailable f = 0 then [] else [(''availableReplicas'', JNum (nat_digits (unat (SAvailable f))))])
      = (z\<lparr>LRest := LRest z\<lparr>RAvailable := SAvailable f\<rparr>\<rparr>, False)"
    if "RAvailable (LRest z) = 0" for z using that by (simp add: four in_field_def in_rest_def decode_uint64_def ParseUint64_digits)
  have "\<exists>x. decode_members flds (empty_status t0) ?four = (x, False) \<and> read_as f x"
    by (rule exI, rule conjI, rule decode_members_then [OF n decode_members_then [OF ns decode_members_then [OF rs as]]])
      (simp_all add: empty_status_def read_as_def)
  then obtain x where x: "decode_members flds (empty_status t0) ?four = (x, False)" and r: "read_as f x" by blast
  have "\<not> snd (decode_members flds x (SOthers f))" using assms by (simp add: served_ok_def s decode_struct_def)
  then obtain y where y: "decode_members flds x (SOthers f) = (y, False)" by (cases "decode_members flds x (SOthers f)") auto
  have "read_as f (fst (decode_members flds x (SOthers f)))"
  proof (rule decode_members_inv [where P = "read_as f"])
    fix k d v and z :: "'t FunctionRest listed"
    assume m: "(k, v) \<in> set (SOthers f)" "find_field flds k = Some d" "read_as f z"
    have "folded k \<notin> {''NAME'', ''NAMESPACE'', ''REPLICAS'', ''AVAILABLEREPLICAS''}" using assms m(1) by (auto simp: served_ok_def)
    moreover have "folded k \<noteq> ''LABELS''" if "unlabelled f" using that m(1) by (auto simp: unlabelled_def)
    ultimately show "read_as f (fst (d z v))" using keeps [OF m(2), of z v] m(3) by (auto simp: read_as_def)
  qed (rule r)
  with y have "read_as f y" by simp
  moreover have "decode_status dt (empty_status t0) (served_json f) = (y, False)"
    using decode_members_then [OF x y] by (simp add: s decode_struct_def served_json_def del: decode_members.simps)
  ultimately show ?thesis by blast
qed

lemma served_printable: "served_ok dt f \<Longrightarrow> printable (served_json f)"
proof -
  assume f: "served_ok dt f"
  have "printable (JNum (nat_digits n))" for n by (simp add: json_number_digits)
  moreover have "list_all (\<lambda>(k, v). valid_utf8 k \<and> printable v) (SOthers f)"
    using f by (auto simp: served_ok_def list_all_iff)
  ultimately show ?thesis using f by (simp add: served_ok_def served_json_def del: printable.simps(1))
qed

lemma depth_JObj: "n > 0 \<Longrightarrow> \<forall>(k, v) \<in> set kvs. depth v < n \<Longrightarrow> depth (JObj kvs) \<le> n"
  using depth_le(2) [of 0 kvs n] by (simp del: depth.simps)

lemma served_depth: "served_ok dt f \<Longrightarrow> depth (served_json f) \<le> maxNestingDepth - 2"
  unfolding served_json_def by (rule depth_JObj) (auto simp: served_ok_def maxNestingDepth_def)

text \<open>One function, and a list of them.\<close>

lemma unmarshal_served:
  assumes "served_ok dt f"
  obtains y where "unmarshalled (decode_status dt) (empty_status t0) (json_print (served_json f)) = Some y" "read_as f y"
proof -
  obtain y where y: "decode_status dt (empty_status t0) (served_json f) = (y, False)" "read_as f y"
    using served_decoded [OF assms] by blast
  have "depth (served_json f) \<le> maxNestingDepth" using served_depth [OF assms] by simp
  with served_printable [OF assms] have "unmarshalled (decode_status dt) (empty_status t0) (json_print (served_json f)) = Some y"
    using y(1) by (rule unmarshalled_text)
  then show thesis using y(2) by (rule that)
qed

definition served_text :: "served list \<Rightarrow> string" where
  "served_text fs = json_print (JArr (map served_json fs))"

lemma served_elements:
  assumes "\<forall>f \<in> set fs. served_ok dt f"
  shows "\<exists>ys. decode_elements (empty_status t0) (decode_status dt) [] (map served_json fs) = (ys, False) \<and> list_all2 read_as fs ys"
  using assms
proof (induction fs)
  case (Cons f fs)
  obtain y where "decode_status dt (empty_status t0) (served_json f) = (y, False)" "read_as f y"
    using served_decoded Cons.prems by fastforce
  moreover obtain ys where "decode_elements (empty_status t0) (decode_status dt) [] (map served_json fs) = (ys, False)" "list_all2 read_as fs ys"
    using Cons by auto
  ultimately show ?case by auto
qed simp

lemma unmarshal_served_list:
  assumes "\<forall>f \<in> set fs. served_ok dt f"
  obtains ys where "unmarshalled (decode_pointer [] (decode_slice (empty_status t0) (decode_status dt))) None (served_text fs) = Some (Some ys)"
    "list_all2 read_as fs ys"
proof -
  obtain ys where ys: "decode_elements (empty_status t0) (decode_status dt) [] (map served_json fs) = (ys, False)" "list_all2 read_as fs ys"
    using served_elements [OF assms] by blast
  have "printable (JArr (map served_json fs))" using assms served_printable by (auto simp: list_all_iff)
  moreover have "depth (JArr (map served_json fs)) \<le> maxNestingDepth"
  proof -
    have "\<forall>v \<in> set (map served_json fs). depth v < maxNestingDepth"
      using assms served_depth by (fastforce simp: maxNestingDepth_def)
    then show ?thesis using depth_le(1) [of 0 "map served_json fs" maxNestingDepth] by (simp add: maxNestingDepth_def del: depth.simps)
  qed
  moreover have "decode_pointer [] (decode_slice (empty_status t0) (decode_status dt)) None (JArr (map served_json fs)) = (Some ys, False)"
    by (simp add: decode_pointer_def decode_slice_def ys(1))
  ultimately have "unmarshalled (decode_pointer [] (decode_slice (empty_status t0) (decode_status dt))) None (served_text fs) = Some (Some ys)"
    unfolding served_text_def by (rule unmarshalled_text)
  then show thesis using ys(2) by (rule that)
qed

section \<open>Requests as they arrive\<close>

lemma NewRequest_plain:
  assumes "plain_target h p q" "q \<noteq> []" "CHR ''%'' \<notin> set p" "m = ''GET'' \<or> m = ''POST''"
  obtains req where "http_NewRequest m (''http://'' @ h @ p @ ''?'' @ q) bd = Some req" "Method req = m" "Body req = bd"
    "UHost (URL req) = remove_empty_port h" "Path (URL req) = p" "RawQuery (URL req) = q"
proof -
  have "\<forall>c \<in> set ''GET''. is_token_char c" "\<forall>c \<in> set ''POST''. is_token_char c" by code_simp+
  then have m: "m \<noteq> []" "\<forall>c \<in> set m. is_token_char c" using assms(4) by (elim disjE; simp)+
  have "url_Parse (''http://'' @ h @ p @ ''?'' @ q) = setPath \<lparr>Scheme = ''http'', UHost = h, Path = [], RawPath = [], RawQuery = q\<rparr> p"
    using url_Parse_plain [OF assms(1)] assms(2) by simp
  then obtain rp where "url_Parse (''http://'' @ h @ p @ ''?'' @ q) = Some \<lparr>Scheme = ''http'', UHost = h, Path = p, RawPath = rp, RawQuery = q\<rparr>"
    using unescape_plain [OF assms(3)] by (simp add: setPath_def)
  with m have "\<exists>req. http_NewRequest m (''http://'' @ h @ p @ ''?'' @ q) bd = Some req \<and> Method req = m \<and> Body req = bd
      \<and> UHost (URL req) = remove_empty_port h \<and> Path (URL req) = p \<and> RawQuery (URL req) = q"
    by (simp add: http_NewRequest_def del: append.simps)
  with that show thesis by blast
qed

lemma url_Query_pairs: "ps \<noteq> [] \<Longrightarrow> url_Query (join_with ''&'' (map encode_pair ps)) = ps"
proof -
  assume "ps \<noteq> []"
  then have "split_on CHR ''&'' (join_with ''&'' (map encode_pair ps)) = map encode_pair ps"
    by (intro split_on_join) (auto simp: encode_pair_free)
  then show ?thesis by (simp add: url_Query_def comp_def parse_encode_pair)
qed

text \<open>Names of functions and namespaces that stay as they are in a path and in a query.\<close>

definition plain_name :: "string \<Rightarrow> bool" where
  "plain_name s \<longleftrightarrow> (\<forall>c \<in> set s. query_plain c)"

lemma QueryEscape_plain: "plain_name s \<Longrightarrow> QueryEscape s = s"
  by (induction s) (simp_all add: plain_name_def)

lemma plain_name_char: "plain_name s \<Longrightarrow> c \<in> set s \<Longrightarrow> \<not> is_ctl c \<and> c \<noteq> CHR ''?'' \<and> c \<noteq> CHR ''#'' \<and> c \<noteq> CHR ''%'' \<and> (of_char c :: nat) < 128"
  by (auto simp: plain_name_def query_plain_def is_alnum_def is_ctl_def Let_def)

lemma plain_name_valid: "plain_name s \<Longrightarrow> valid_utf8 s"
  using plain_name_char by (intro ascii_valid) blast

lemma namespace_read:
  assumes "plain_name ns"
  shows "values_Get (url_Query (''namespace='' @ ns)) ''namespace'' = Some ns"
    and "values_Get (url_Query (''namespace='' @ ns @ ''&usage='' @ show_bool b)) ''namespace'' = Some ns"
proof -
  have k: "QueryEscape ''namespace'' = ''namespace''" "QueryEscape ''usage'' = ''usage''" "QueryEscape (show_bool b) = show_bool b"
    by (simp_all add: query_plain_def is_alnum_def show_bool_def)
  have "''namespace='' @ ns = join_with ''&'' (map encode_pair [(''namespace'', ns)])"
    by (simp add: encode_pair_def k QueryEscape_plain [OF assms] del: QueryEscape.simps)
  then show "values_Get (url_Query (''namespace='' @ ns)) ''namespace'' = Some ns"
    using url_Query_pairs [of "[(''namespace'', ns)]"] by (simp add: values_Get_def del: append.simps)
  have "''namespace='' @ ns @ ''&usage='' @ show_bool b = join_with ''&'' (map encode_pair [(''namespace'', ns), (''usage'', show_bool b)])"
    by (simp add: encode_pair_def k QueryEscape_plain [OF assms] del: QueryEscape.simps)
  then show "values_Get (url_Query (''namespace='' @ ns @ ''&usage='' @ show_bool b)) ''namespace'' = Some ns"
    using url_Query_pairs [of "[(''namespace'', ns), (''usage'', show_bool b)]"] by (simp add: values_Get_def del: append.simps)
qed

section \<open>What is assumed of the collaborators\<close>

text \<open>
  A provider at a host and a base path, about its functions \<open>fs\<close> without labels, with the counts
  \<open>rep\<close>. A GET of the path of a function, with its namespace in the query, is answered 200 with the JSON of
  that function and its count; a POST of a scale request to the function's scale path, with its namespace in the query,
  is answered 202 and sets the count of that function, and no other.
\<close>

definition keeps_functions :: "'t decoder \<Rightarrow> string \<Rightarrow> string \<Rightarrow> (string \<times> string) set \<Rightarrow> ('w \<Rightarrow> string \<times> string \<Rightarrow> uint64) \<Rightarrow> 'w client \<Rightarrow> bool" where
  "keeps_functions dt host base fs rep client \<longleftrightarrow> (\<forall>(fn, ns) \<in> fs. \<forall>req w.
     UHost (URL req) = host \<longrightarrow> values_Get (url_Query (RawQuery (URL req))) ''namespace'' = Some ns \<longrightarrow>
       (Method req = ''GET'' \<and> Path (URL req) = base @ ''system/function/'' @ fn \<longrightarrow>
         (\<exists>h f. client req w = (Val (Some \<lparr>StatusCode = 200, RespHeader = h, RespBody = Some (json_print (served_json f), None)\<rparr>, None), w)
           \<and> served_ok dt f \<and> unlabelled f \<and> SName f = fn \<and> SNamespace f = ns \<and> SReplicas f = rep w (fn, ns)))
     \<and> (\<forall>n. Method req = ''POST'' \<and> Path (URL req) = base @ ''system/scale-function/'' @ fn
           \<and> Body req = Some (json_print (JObj [(''serviceName'', JStr fn), (''replicas'', JNum (nat_digits (unat n)))]), None) \<longrightarrow>
         (\<exists>w' h b. client req w = (Val (Some \<lparr>StatusCode = 202, RespHeader = h, RespBody = b\<rparr>, None), w') \<and> rep w' = (rep w)((fn, ns) := n))))"

text \<open>
  A provider at the root of a host that lists its namespaces and, for each of them, its functions: \<open>None\<close>
  stands for a text that is not JSON. Without a namespace in the query the list is that of the empty name.
\<close>

definition lists_functions :: "'t decoder \<Rightarrow> string \<Rightarrow> string list \<Rightarrow> (string \<Rightarrow> served list option) \<Rightarrow> 'w client \<Rightarrow> 'w \<Rightarrow> bool" where
  "lists_functions dt host ns functions client w \<longleftrightarrow> (\<forall>req. Method req = ''GET'' \<longrightarrow> UHost (URL req) = host \<longrightarrow>
     (Path (URL req) = ''/system/namespaces'' \<longrightarrow>
       (\<exists>h. client req w = (Val (Some \<lparr>StatusCode = 200, RespHeader = h, RespBody = Some (json_print (JArr (map JStr ns)), None)\<rparr>, None), w)))
     \<and> (\<forall>n. Path (URL req) = ''/system/functions''
           \<and> values_Get (url_Query (RawQuery (URL req))) ''namespace'' = (if n = [] then None else Some n) \<longrightarrow>
         (\<exists>h c b. client req w = (Val (Some \<lparr>StatusCode = c, RespHeader = h, RespBody = Some (b, None)\<rparr>, None), w)
           \<and> (case functions n of None \<Rightarrow> json_parse b = None | Some fs \<Rightarrow> b = served_text fs \<and> (\<forall>f \<in> set fs. served_ok dt f)))))"

end
