(* ===== verification/ListedCounts.thy ===== *)
theory ListedCounts
  imports AddMetrics ForwardingProxy
begin

text \<open>
  The way of an invocation count through the gateway: the notifier of \<open>handlers/notifiers.go\<close> counts a
  finished call under a label made from its URL, Prometheus sums what it scraped, and \<open>mixIn\<close> of
  \<open>metrics/add_metrics.go\<close> looks the sum up under a label made from the function's name and namespace.
  The theory shows when the two labels are the same.
\<close>

section \<open>Finished calls\<close>

text \<open>A finished call, as the notifiers see it: the URL, the status and the duration.\<close>

type_synonym finished = "string \<times> int \<times> duration"

definition notify_finished :: "string \<Rightarrow> finished \<Rightarrow> 'w gworld \<Rightarrow> 'w gworld" where
  "notify_finished ns c w = (case c of (u, st, d) \<Rightarrow> snd (PrometheusFunctionNotifier_Notify ns ''GET'' u u st ''completed'' d w))"

definition finished_calls :: "string \<Rightarrow> finished list \<Rightarrow> 'w gworld \<Rightarrow> 'w gworld" where
  "finished_calls ns cs w = fold (notify_finished ns) cs w"

text \<open>The function a call is for, and the calls of one function.\<close>

definition called_function :: "string \<Rightarrow> finished \<Rightarrow> string \<times> string" where
  "called_function ns c = GetNamespace ns (GetServiceName (fst c))"

definition calls_of :: "string \<Rightarrow> finished list \<Rightarrow> string \<times> string \<Rightarrow> nat" where
  "calls_of ns cs f = length (filter (\<lambda>c. called_function ns c = f) cs)"

text \<open>
  What \<open>sum(...) by (function_name)\<close> answers for a label, with the counter's codes in \<open>codes\<close>: a label
  that was never counted has no result.
\<close>

definition sum_by_name :: "MetricOptions \<Rightarrow> string set \<Rightarrow> string \<Rightarrow> nat list" where
  "sum_by_name m codes label =
     (let n = \<Sum>c \<in> codes. GatewayFunctionInvocation m (label, c) in if n = 0 then [] else [n])"

definition answers_sums :: "'x list_codec \<Rightarrow> MetricOptions \<Rightarrow> string set \<Rightarrow> VectorQueryResponse \<Rightarrow> bool" where
  "answers_sums cd m codes vs \<longleftrightarrow> two_values vs
     \<and> (\<forall>label. counts_of cd vs label = map (\<lambda>n. Finite (of_nat n)) (sum_by_name m codes label))"

section \<open>Labels\<close>

lemma label_of_call:
  assumes "ns \<noteq> [] \<or> dns \<noteq> []" "CHR ''.'' \<notin> set ns" "CHR ''.'' \<notin> set dns"
  shows "metric_name dns u = f @ ''.'' @ ns \<longleftrightarrow> GetNamespace dns (GetServiceName u) = (f, ns)"
proof (cases "CHR ''.'' \<in> set (GetServiceName u)")
  case True
  then show ?thesis
    using assms by (auto simp: metric_name_def Let_def GetNamespace_correct ContainsByte_def)
next
  case False
  then have "f = GetServiceName u \<and> ns = dns" if "GetServiceName u @ ''.'' @ dns = f @ ''.'' @ ns"
    using that assms(2,3) last_split_unique [of "CHR ''.''" dns ns "GetServiceName u" f] by simp
  with False assms show ?thesis
    by (auto simp: metric_name_def Let_def GetNamespace_correct ContainsByte_def)
qed

lemma notify_finished_counts:
  "GatewayFunctionInvocation (metrics (notify_finished ns (u, st, d) w)) l =
     GatewayFunctionInvocation (metrics w) l + (if l = (metric_name ns u, Itoa st) then 1 else 0)"
  by (simp add: notify_finished_def PrometheusFunctionNotifier_Notify_def Let_def go_simps)

lemma sum_finished:
  assumes "finite codes" "\<forall>(u, st, d) \<in> set cs. Itoa st \<in> codes"
  shows "(\<Sum>c \<in> codes. GatewayFunctionInvocation (metrics (finished_calls ns cs w)) (label, c))
    = (\<Sum>c \<in> codes. GatewayFunctionInvocation (metrics w) (label, c)) + length (filter (\<lambda>(u, st, d). metric_name ns u = label) cs)"
  using assms(2)
proof (induction cs arbitrary: w)
  case (Cons c cs)
  obtain u st d where c: "c = (u, st, d)" by (metis prod_cases3)
  have "(\<Sum>x \<in> codes. if (label, x) = (metric_name ns u, Itoa st) then 1 else 0) = (if metric_name ns u = label then 1 else (0 :: nat))"
    using assms(1) Cons.prems c by auto
  moreover have "finished_calls ns (c # cs) w = finished_calls ns cs (notify_finished ns c w)"
    by (simp add: finished_calls_def)
  ultimately show ?case
    using Cons.IH [of "notify_finished ns c w"] Cons.prems c by (simp add: notify_finished_counts sum.distrib)
qed (simp add: finished_calls_def)

lemma counted_calls:
  assumes "metrics w = BuildMetricsOptions" "finite codes" "\<forall>(u, st, d) \<in> set cs. Itoa st \<in> codes"
    and "ns \<noteq> [] \<or> dns \<noteq> []" "CHR ''.'' \<notin> set ns" "CHR ''.'' \<notin> set dns"
  shows "(\<Sum>c \<in> codes. GatewayFunctionInvocation (metrics (finished_calls dns cs w)) (n @ ''.'' @ ns, c)) = calls_of dns cs (n, ns)"
proof -
  have "filter (\<lambda>(u, st, d). metric_name dns u = n @ ''.'' @ ns) cs = filter (\<lambda>c. called_function dns c = (n, ns)) cs"
    using label_of_call [OF assms(4-6)] by (intro filter_cong) (auto simp: called_function_def)
  then show ?thesis
    using sum_finished [OF assms(2,3), of dns w "n @ ''.'' @ ns"] assms(1) by (simp add: calls_of_def BuildMetricsOptions_def)
qed

lemma listed_sum:
  assumes "answers_sums cd m codes vs" "i < length fs" "mixIn cd (reset_counts fs) (Some vs) = Val gs"
    and "(\<Sum>c \<in> codes. GatewayFunctionInvocation m (LName (fs ! i) @ ''.'' @ LNamespace (fs ! i), c)) = n" "n < 2 ^ 53"
  shows "LInvocationCount (gs ! i) = Finite (of_nat n)"
proof -
  let ?ns = "sum_by_name m codes (LName (fs ! i) @ ''.'' @ LNamespace (fs ! i))"
  have "sum_list ?ns = n" using assms(4) by (auto simp: sum_by_name_def Let_def)
  with assms mixIn_exact_sum [of vs i fs cd ?ns] show ?thesis by (auto simp: answers_sums_def)
qed

section \<open>Properties\<close>

text \<open>
  the count shown for a function is the number of finished calls of it. When Prometheus sums the counter
  that the notifier keeps, the list of functions shows for a function exactly the number of calls whose
  URL names it, with or without its namespace, whatever status they ended with: provided there is a
  namespace, the default one or the function's, and no namespace holds a dot.
\<close>

theorem listed_count_is_number_of_calls:
  assumes "answers_sums cd (metrics (finished_calls dns cs w)) codes vs" "metrics w = BuildMetricsOptions"
    and "finite codes" "\<forall>(u, st, d) \<in> set cs. Itoa st \<in> codes" "length cs < 2 ^ 53"
    and "mixIn cd (reset_counts fs) (Some vs) = Val gs" "i < length fs"
    and "LNamespace (fs ! i) \<noteq> [] \<or> dns \<noteq> []" "CHR ''.'' \<notin> set (LNamespace (fs ! i))" "CHR ''.'' \<notin> set dns"
  shows "LInvocationCount (gs ! i) = Finite (of_nat (calls_of dns cs (LName (fs ! i), LNamespace (fs ! i))))"
proof (rule listed_sum [OF assms(1,7,6)])
  let ?f = "(LName (fs ! i), LNamespace (fs ! i))"
  show "(\<Sum>c \<in> codes. GatewayFunctionInvocation (metrics (finished_calls dns cs w)) (LName (fs ! i) @ ''.'' @ LNamespace (fs ! i), c)) = calls_of dns cs ?f"
    by (rule counted_calls [OF assms(2-4,8-10)])
  show "calls_of dns cs ?f < 2 ^ 53"
    unfolding calls_of_def by (rule le_less_trans [OF length_filter_le assms(5)])
qed

text \<open>
  without namespaces nothing is shown. Where neither the gateway nor the function has a namespace, the
  call is counted under the plain name, as the exporter's gauge is, but \<open>mixIn\<close> looks for the name
  followed by a dot: the count stays 0 however often the function was called.
\<close>

theorem unnamespaced_calls_not_listed:
  assumes "answers_sums cd (metrics (finished_calls [] cs w)) codes vs" "metrics w = BuildMetricsOptions"
    and "finite codes" "\<forall>(u, st, d) \<in> set cs. Itoa st \<in> codes \<and> GetServiceName u = LName (fs ! i)"
    and "mixIn cd (reset_counts fs) (Some vs) = Val gs" "i < length fs" "LNamespace (fs ! i) = []"
  shows "LInvocationCount (gs ! i) = Finite 0 \<and> calls_of [] cs (GetNamespace [] (LName (fs ! i))) = length cs"
proof -
  let ?label = "LName (fs ! i) @ ''.'' @ LNamespace (fs ! i)"
  have codes: "\<forall>(u, st, d) \<in> set cs. Itoa st \<in> codes" using assms(4) by auto
  have "filter (\<lambda>(u, st, d). metric_name [] u = ?label) cs = []"
    using assms(4) by (auto simp: filter_empty_conv metric_name_def)
  then have "(\<Sum>c \<in> codes. GatewayFunctionInvocation (metrics (finished_calls [] cs w)) (?label, c)) = 0"
    using sum_finished [OF assms(3) codes, of "[]" w ?label] assms(2) by (simp add: BuildMetricsOptions_def)
  from listed_sum [OF assms(1,6,5) this] have "LInvocationCount (gs ! i) = Finite 0" by simp
  moreover have "filter (\<lambda>c. called_function [] c = GetNamespace [] (LName (fs ! i))) cs = cs"
    using assms(4) by (auto simp: called_function_def filter_id_conv)
  ultimately show ?thesis by (simp add: calls_of_def)
qed

section \<open>Witnesses\<close>

text \<open>Two calls of one function, with and without its namespace; then one call where there are no namespaces.\<close>

definition demo_calls :: "finished list" where
  "demo_calls = [(''/function/f'', 200, 1), (''/function/f.fn/x'', 500, 2)]"

definition demo_result :: "string \<Rightarrow> string \<Rightarrow> VectorQueryResponse" where
  "demo_result label n = [\<lparr>VCode = [], VFunctionName = label, VValue = [JOther, JString n]\<rparr>]"

definition demo_counter_world :: "unit gworld" where
  "demo_counter_world = \<lparr>metrics = BuildMetricsOptions, loglines = [], net = ()\<rparr>"

lemma demo_answers:
  assumes "\<And>u st d. (u, st, d) \<in> set cs \<Longrightarrow> metric_name ns u = label \<and> Itoa st \<in> codes" "finite codes"
    "ParseFloat cd n = Some (Finite (of_nat (length cs)))" "cs \<noteq> []"
  shows "answers_sums cd (metrics (finished_calls ns cs demo_counter_world)) codes (demo_result label n)"
proof -
  have codes: "\<forall>(u, st, d) \<in> set cs. Itoa st \<in> codes" using assms(1) by auto
  have "filter (\<lambda>(u, st, d). metric_name ns u = l) cs = (if l = label then cs else [])" for l
    using assms(1) by (auto simp: filter_id_conv filter_empty_conv)
  then have "(\<Sum>c \<in> codes. GatewayFunctionInvocation (metrics (finished_calls ns cs demo_counter_world)) (l, c))
      = (if l = label then length cs else 0)" for l
    using sum_finished [OF assms(2) codes, of ns demo_counter_world l]
    by (simp add: demo_counter_world_def BuildMetricsOptions_def)
  then show ?thesis
    using assms(3,4)
    by (simp add: answers_sums_def demo_result_def two_values_def counts_of_def sum_by_name_def List.map_filter_simps)
qed

lemma listed_count_is_number_of_calls_witness:
  "\<exists>gs. mixIn demo_list_codec (reset_counts [demo_listed]) (Some (demo_result ''f.fn'' ''2'')) = Val gs
    \<and> LInvocationCount (gs ! 0) = Finite 2"
proof -
  have names: "metric_name ''fn'' ''/function/f'' = ''f.fn''" "metric_name ''fn'' ''/function/f.fn/x'' = ''f.fn''" by code_simp+
  have two: "ParseFloat demo_list_codec ''2'' = Some (Finite (of_nat 2))" by code_simp
  have "answers_sums demo_list_codec (metrics (finished_calls ''fn'' demo_calls demo_counter_world)) {Itoa 200, Itoa 500} (demo_result ''f.fn'' ''2'')"
    using names two by (intro demo_answers) (auto simp: demo_calls_def)
  moreover from this obtain gs where gs: "mixIn demo_list_codec (reset_counts [demo_listed]) (Some (demo_result ''f.fn'' ''2'')) = Val gs"
    by (auto simp: answers_sums_def mixIn_counted)
  moreover have "calls_of ''fn'' demo_calls (''f'', ''fn'') = 2" by code_simp
  ultimately have "LInvocationCount (gs ! 0) = Finite 2"
    using listed_count_is_number_of_calls [of demo_list_codec "''fn''" demo_calls demo_counter_world "{Itoa 200, Itoa 500}"
        "demo_result ''f.fn'' ''2''" "[demo_listed]" gs 0]
    by (simp add: demo_counter_world_def demo_calls_def demo_listed_def)
  with gs show ?thesis by blast
qed

definition demo_unnamed :: "unit listed" where
  "demo_unnamed = demo_listed\<lparr>LNamespace := []\<rparr>"

lemma unnamespaced_calls_not_listed_witness:
  "\<exists>gs. mixIn demo_list_codec (reset_counts [demo_unnamed]) (Some (demo_result ''f'' ''1'')) = Val gs
    \<and> LInvocationCount (gs ! 0) = Finite 0"
proof -
  have names: "metric_name [] ''/function/f'' = ''f''" "GetServiceName ''/function/f'' = ''f''" by code_simp+
  have one: "ParseFloat demo_list_codec ''1'' = Some (Finite (of_nat 1))" by code_simp
  have "answers_sums demo_list_codec (metrics (finished_calls [] [(''/function/f'', 200, 1)] demo_counter_world)) {Itoa 200} (demo_result ''f'' ''1'')"
    using names one by (intro demo_answers) auto
  moreover from this obtain gs where gs: "mixIn demo_list_codec (reset_counts [demo_unnamed]) (Some (demo_result ''f'' ''1'')) = Val gs"
    by (auto simp: answers_sums_def mixIn_counted)
  ultimately have "LInvocationCount (gs ! 0) = Finite 0"
    using unnamespaced_calls_not_listed [of demo_list_codec "[(''/function/f'', 200, 1)]" demo_counter_world "{Itoa 200}"
        "demo_result ''f'' ''1''" "[demo_unnamed]" 0 gs] names
    by (simp add: demo_counter_world_def demo_unnamed_def demo_listed_def)
  with gs show ?thesis by blast
qed

end
