(* ===== verification/JsonFlows.thy ===== *)
theory JsonFlows
  imports ProviderTexts ListedCounts
begin

text \<open>
  Components that exchange JSON, put together: the scale endpoint, the alert webhook in front of the
  provider's HTTP interface, the list of functions with the counts of Prometheus, and the exporter. The
  texts are read and printed by the codecs of theory JsonCodecs; what the collaborators answer is spelled in theory
  ProviderTexts.
\<close>

section \<open>Scale requests\<close>

text \<open>
  the limits of the scale endpoint, on the text of a request. Whatever JSON a client posts that is a scale
  request, the next handler gets a body that reads back as the request for the same function and
  namespace with the count brought between 1 and 5.
\<close>

theorem scale_endpoint_limits_text:
  assumes "Method r = ''POST''" "Body r = Some (b, None)" "unmarshal_scale_request b = Some q"
  shows "\<exists>b' q'. MakeHorizontalScalingHandler unmarshal_scale_request marshal_scale_request nxt r = nxt (r\<lparr>Body := Some (b', None)\<rparr>)
    \<and> unmarshal_scale_request b' = Some q' \<and> ServiceName q' = ServiceName q \<and> ReqNamespace q' = ReqNamespace q
    \<and> unat (ReqReplicas q') = max 1 (min 5 (unat (ReqReplicas q)))"
proof (intro exI conjI)
  let ?q = "q\<lparr>ReqReplicas := clamp_replicas (ReqReplicas q)\<rparr>"
  show "MakeHorizontalScalingHandler unmarshal_scale_request marshal_scale_request nxt r = nxt (r\<lparr>Body := Some (marshal_scale_request ?q, None)\<rparr>)"
    using assms by (simp add: MakeHorizontalScalingHandler_def)
  show "unmarshal_scale_request (marshal_scale_request ?q) = Some ?q"
    using scale_request_valid [OF assms(3)] by (intro unmarshal_marshal_scale_request) simp_all
qed (simp_all add: unat_clamp)

section \<open>The alert webhook and the provider\<close>

text \<open>The URL of a provider at a plain host and path.\<close>

definition provider_at :: "url \<Rightarrow> string \<Rightarrow> string \<Rightarrow> bool" where
  "provider_at u host base \<longleftrightarrow> u = \<lparr>Scheme = ''http'', UHost = host, Path = base, RawPath = [], RawQuery = []\<rparr>
     \<and> plain_path base \<and> plain_target host [] [] \<and> host \<noteq> []"

lemma injected_keeps:
  "\<exists>req'. injected cd auth (Some req) = Some req' \<and> Method req' = Method req \<and> Body req' = Body req \<and> URL req' = URL req"
  by (auto simp: injected_def BasicAuthInjector_Inject_def SetBasicAuth_def split: option.splits)

lemma request_at_provider:
  assumes "provider_at u host base" "plain_name fn" "plain_name ns" "m = ''GET'' \<or> m = ''POST''"
    and "values_Get (url_Query q) ''namespace'' = Some ns" "q = ''namespace='' @ ns \<or> q = ''namespace='' @ ns @ ''&usage='' @ show_bool b"
    and "CHR ''?'' \<notin> set path" "CHR ''#'' \<notin> set path" "CHR ''%'' \<notin> set path" "\<forall>c \<in> set path. \<not> is_ctl c"
  obtains req where "injected cd auth (http_NewRequest m (url_String u @ path @ fn @ ''?'' @ q) bd) = Some req" "Method req = m" "Body req = bd"
    "UHost (URL req) = remove_empty_port host" "Path (URL req) = base @ path @ fn"
    "values_Get (url_Query (RawQuery (URL req))) ''namespace'' = Some ns"
proof -
  have u: "url_String u = ''http://'' @ host @ base" and base: "plain_path base" and host: "plain_target host [] []"
    using assms(1) by (simp_all add: provider_at_def url_String_plain)
  have bc: "\<not> is_ctl c \<and> c \<noteq> CHR ''?'' \<and> c \<noteq> CHR ''#'' \<and> c \<noteq> CHR ''%''" if "c \<in> set base" for c
    using base that plain_char unfolding plain_path_def by blast
  have "\<forall>c \<in> set (''namespace='' @ ''&usage='' @ show_bool b). \<not> is_ctl c \<and> c \<noteq> CHR ''#''"
    by (cases b) (simp_all add: show_bool_def is_ctl_def)
  moreover have "set q \<subseteq> set (''namespace='' @ ''&usage='' @ show_bool b) \<union> set ns"
    by (rule disjE [OF assms(6)]) (auto simp only: set_append)
  ultimately have "\<not> is_ctl c \<and> c \<noteq> CHR ''#''" if "c \<in> set q" for c
    using that plain_name_char [OF assms(3), of c] by blast
  then have t: "plain_target host (base @ path @ fn) q"
    using host base bc plain_name_char [OF assms(2)] assms(7-10) by (auto simp: plain_target_def plain_path_def)
  have "CHR ''%'' \<notin> set (base @ path @ fn)" using bc plain_name_char [OF assms(2)] assms(9) by auto
  from NewRequest_plain [OF t _ this assms(4), of bd] assms(6) obtain req where req:
    "http_NewRequest m (''http://'' @ host @ (base @ path @ fn) @ ''?'' @ q) bd = Some req" "Method req = m" "Body req = bd"
    "UHost (URL req) = remove_empty_port host" "Path (URL req) = base @ path @ fn" "RawQuery (URL req) = q" by auto
  obtain req' where "injected cd auth (Some req) = Some req'" "Method req' = Method req" "Body req' = Body req" "URL req' = URL req"
    using injected_keeps by blast
  note inj = this
  have "url_String u @ path @ fn @ ''?'' @ q = ''http://'' @ host @ (base @ path @ fn) @ ''?'' @ q" by (simp only: u append_assoc)
  then have "http_NewRequest m (url_String u @ path @ fn @ ''?'' @ q) bd = Some req" using req(1) by (simp only:)
  with inj(1) have "injected cd auth (http_NewRequest m (url_String u @ path @ fn @ ''?'' @ q) bd) = Some req'" by (simp only:)
  then show thesis
    by (rule that) (simp_all only: inj req assms(5))
qed

lemma GetReplicas_text:
  assumes "keeps_functions dt (remove_empty_port host) base fs rep (ProxyClient x)" "provider_at (EURL x) host base"
    and "(fn, ns) \<in> fs" "plain_name fn" "plain_name ns"
  shows "\<exists>q. ExternalServiceQuery_GetReplicas (json_codec dt t0 msg basic) x fn ns w = (Val (q, None), w)
    \<and> Replicas q = rep w (fn, ns) \<and> MaxReplicas q = 5 \<and> MinReplicas q = 1 \<and> ScalingFactor q = 10"
proof -
  let ?cd = "json_codec dt t0 msg basic" and ?q = "''namespace='' @ ns @ ''&usage='' @ show_bool (IncludeUsage x)"
  let ?url = "url_String (EURL x) @ ''system/function/'' @ fn @ ''?'' @ ?q"
  obtain req' where req': "injected ?cd (EAuth x) (http_NewRequest ''GET'' ?url None) = Some req'" "Method req' = ''GET''"
    "UHost (URL req') = remove_empty_port host" "Path (URL req') = base @ ''system/function/'' @ fn"
    "values_Get (url_Query (RawQuery (URL req'))) ''namespace'' = Some ns"
    by (rule request_at_provider [OF assms(2,4,5) _ namespace_read(2) [OF assms(5)], where m = "''GET''" and path = "''system/function/''"
          and cd = ?cd and auth = "EAuth x" and bd = None]) (auto simp: is_ctl_def)
  from req'(1) obtain req where req: "http_NewRequest ''GET'' ?url None = Some req"
    by (cases "http_NewRequest ''GET'' ?url None") (auto simp: injected_def BasicAuthInjector_Inject_def split: option.splits)
  obtain h f where f: "ProxyClient x req' w = (Val (Some \<lparr>StatusCode = 200, RespHeader = h, RespBody = Some (json_print (served_json f), None)\<rparr>, None), w)"
    "served_ok dt f" "unlabelled f" "SReplicas f = rep w (fn, ns)"
    using assms(1,3) req'(2-5) unfolding keeps_functions_def by fastforce
  obtain y where "unmarshalled (decode_status dt) (empty_status t0) (json_print (served_json f)) = Some y" "read_as f y"
    by (rule unmarshal_served [OF f(2)])
  with req req'(1) f show ?thesis
    by (simp add: ExternalServiceQuery_GetReplicas_def Let_def bindp_run retp_run json_codec_def or_message_def read_as_def
        status_response_def queried_status_def DefaultMinReplicas_def DefaultMaxReplicas_def DefaultScalingFactor_def del: json_print.simps)
qed

lemma SetReplicas_text:
  assumes "keeps_functions dt (remove_empty_port host) base fs rep (ProxyClient x)" "provider_at (EURL x) host base"
    and "(fn, ns) \<in> fs" "plain_name fn" "plain_name ns"
  shows "\<exists>w'. ExternalServiceQuery_SetReplicas (json_codec dt t0 msg basic) x fn ns n w = (Val None, w') \<and> rep w' = (rep w)((fn, ns) := n)"
proof -
  let ?cd = "json_codec dt t0 msg basic" and ?q = "\<lparr>ServiceName = fn, ReqReplicas = n, ReqNamespace = []\<rparr>"
  let ?b = "marshal_scale_request ?q" and ?url = "url_String (EURL x) @ ''system/scale-function/'' @ fn @ ''?'' @ (''namespace='' @ ns)"
  obtain req' where req': "injected ?cd (EAuth x) (http_NewRequest ''POST'' ?url (Some (?b, None))) = Some req'" "Method req' = ''POST''"
    "Body req' = Some (?b, None)" "UHost (URL req') = remove_empty_port host" "Path (URL req') = base @ ''system/scale-function/'' @ fn"
    "values_Get (url_Query (RawQuery (URL req'))) ''namespace'' = Some ns"
    by (rule request_at_provider [OF assms(2,4,5) _ namespace_read(1) [OF assms(5)], where m = "''POST''" and path = "''system/scale-function/''"
          and cd = ?cd and auth = "EAuth x" and bd = "Some (?b, None)"]) (auto simp: is_ctl_def)
  have "?b = json_print (JObj [(''serviceName'', JStr fn), (''replicas'', JNum (nat_digits (unat n)))])"
    by (simp add: marshal_scale_request_def scale_request_json_def del: json_print.simps)
  with assms(1,3) req'(2-6) obtain w' h b where
    "ProxyClient x req' w = (Val (Some \<lparr>StatusCode = 202, RespHeader = h, RespBody = b\<rparr>, None), w')" "rep w' = (rep w)((fn, ns) := n)"
    unfolding keeps_functions_def by fastforce
  with req'(1) show ?thesis
    by (simp add: ExternalServiceQuery_SetReplicas_def Let_def bindp_run retp_run json_codec_def)
qed

lemma handled_alert_text:
  assumes "keeps_functions dt (remove_empty_port host) base fs rep (ProxyClient x)" "provider_at (EURL x) host base"
    and "(fn, ns) \<in> fs" "plain_name fn" "plain_name ns" "GetNamespace dns (FunctionName (Labels i)) = (fn, ns)" "fn \<noteq> []"
    and "unat (rep w (fn, ns)) < 2 ^ 64 - 5"
  shows "\<exists>w'. scaleService i (external_query (json_codec dt t0 msg basic) x) dns w = (Val None, w')
    \<and> rep w' = (rep w)((fn, ns) := of_nat (if Status i = ''firing'' then min 5 (unat (rep w (fn, ns)) + 1) else 1))"
proof -
  obtain q where q: "ExternalServiceQuery_GetReplicas (json_codec dt t0 msg basic) x fn ns w = (Val (q, None), w)"
    "Replicas q = rep w (fn, ns)" "MaxReplicas q = 5" "MinReplicas q = 1" "ScalingFactor q = 10"
    using GetReplicas_text [OF assms(1-5)] by blast
  let ?n = "CalculateReplicas (Status i) (rep w (fn, ns)) 5 1 10"
  have u: "unat ?n = (if Status i = ''firing'' then min 5 (unat (rep w (fn, ns)) + 1) else 1)"
    using unat_calculate [of 10 "rep w (fn, ns)" "Status i" 5 1] assms(8) by (simp add: step_for_def)
  have "?n = of_nat (unat ?n)" by simp
  then have n: "?n = of_nat (if Status i = ''firing'' then min 5 (unat (rep w (fn, ns)) + 1) else 1)" unfolding u .
  obtain w' where w': "ExternalServiceQuery_SetReplicas (json_codec dt t0 msg basic) x fn ns ?n w = (Val None, w')" "rep w' = (rep w)((fn, ns) := ?n)"
    using SetReplicas_text [OF assms(1-5)] by blast
  have "scaleService i (external_query (json_codec dt t0 msg basic) x) dns w = (Val None, if ?n = rep w (fn, ns) then w else w')"
    using assms(6,7) by (simp add: scaleService_def external_query_def bindp_run q w'(1) retp_run Let_def)
  moreover have "rep (if ?n = rep w (fn, ns) then w else w') = (rep w)((fn, ns) := ?n)" by (simp add: w'(2))
  ultimately show ?thesis unfolding n [symmetric] by blast
qed

lemma alert_text_handled:
  assumes "Body r = Some (json_print (alert_json a), None)" "Alerts a = [i]"
    and "valid_utf8 (Receiver a)" "valid_utf8 (AlertStatus a)" "valid_alert i"
    and "keeps_functions dt (remove_empty_port host) base fs rep (ProxyClient x)" "provider_at (EURL x) host base"
    and "(fn, ns) \<in> fs" "plain_name fn" "plain_name ns" "GetNamespace dns (FunctionName (Labels i)) = (fn, ns)" "fn \<noteq> []"
    and "unat (rep (hworld s) (fn, ns)) < 2 ^ 64 - 5" "rw_sent (rw s) = None"
  shows "\<exists>t. MakeAlertHandler unmarshal_alert (external_query (json_codec dt t0 msg basic) x) dns r s = (Val (), t)
    \<and> final_status (rw t) = 200
    \<and> rep (hworld t) = (rep (hworld s))((fn, ns) := of_nat (if Status i = ''firing'' then min 5 (unat (rep (hworld s) (fn, ns)) + 1) else 1))"
proof -
  have u: "unmarshal_alert (json_print (alert_json a)) = Some a" using assms(2-5) by (intro unmarshal_alert_text) simp_all
  obtain w' where w': "scaleService i (external_query (json_codec dt t0 msg basic) x) dns (hworld s) = (Val None, w')"
    "rep w' = (rep (hworld s))((fn, ns) := of_nat (if Status i = ''firing'' then min 5 (unat (rep (hworld s) (fn, ns)) + 1) else 1))"
    using handled_alert_text [OF assms(6-13)] by blast
  have "\<exists>t. MakeAlertHandler unmarshal_alert (external_query (json_codec dt t0 msg basic) x) dns r s = (Val (), t)
      \<and> final_status (rw t) = 200 \<and> hworld t = w'"
    using assms(1,2,14) w'(1)
    by (simp add: MakeAlertHandler_def u handleAlerts_def bindp_run on_hworld_run on_rw_run retp_run
        WriteHeader_fresh final_status_def del: json_print.simps)
  with w'(2) show ?thesis by auto
qed

section \<open>Listed counts\<close>

lemma vector_counts:
  assumes "\<forall>(l, n) \<in> set rs. n < 2 ^ 53"
  shows "counts_of (json_list_codec dt t0 msg marshal) (vector_of rs) lbl
    = map (\<lambda>n. Finite (of_nat n)) (map snd (filter (\<lambda>r. fst r = lbl) rs))"
  using assms by (induction rs) (auto simp: vector_of_def counts_of_def List.map_filter_simps json_list_codec_def ParseFloat_digits)

text \<open>
  A Prometheus that scraped the metrics \<open>m\<close>, whose label \<open>code\<close> has the values \<open>codes\<close>. Asked for
  the sums of the gateway's counter by function, of the functions whose name matches \<open>.*.ns\<close>, it answers with the JSON
  of the sums of just these: names that end with some character and \<open>ns\<close>, which is taken literally because it
  consists of letters, digits and \<open>-\<close>. \<open>time\<close> is the number it puts beside every sum.
\<close>

definition ends_in :: "string \<Rightarrow> string \<Rightarrow> bool" where
  "ends_in ns name \<longleftrightarrow> (\<exists>a c. name = a @ c # ns)"

definition regexp_literal :: "string \<Rightarrow> bool" where
  "regexp_literal ns \<longleftrightarrow> (\<forall>c \<in> set ns. is_alnum c \<or> c = CHR ''-'')"

definition sums_for :: "MetricOptions \<Rightarrow> string set \<Rightarrow> string \<Rightarrow> (string \<times> nat) list \<Rightarrow> bool" where
  "sums_for m codes ns rs \<longleftrightarrow> (\<forall>lbl. map snd (filter (\<lambda>r. fst r = lbl) rs) = (if ends_in ns lbl then sum_by_name m codes lbl else []))"

definition prometheus_answers :: "string \<Rightarrow> MetricOptions \<Rightarrow> string set \<Rightarrow> string \<Rightarrow> 'w client \<Rightarrow> 'w \<Rightarrow> bool" where
  "prometheus_answers host m codes time client w \<longleftrightarrow>
     json_number time \<and> list_all is_number_char time \<and> ParseFloat64 time \<noteq> None \<and>
     (\<forall>req ns. Method req = ''GET'' \<longrightarrow> UHost (URL req) = host \<longrightarrow> Path (URL req) = ''/api/v1/query'' \<longrightarrow> regexp_literal ns \<longrightarrow>
        values_Get (url_Query (RawQuery (URL req))) ''query'' = Some (''sum(gateway_function_invocation_total{function_name=~''
          @ [CHR 0x22] @ ''.*.'' @ ns @ [CHR 0x22] @ ''}) by (function_name)'') \<longrightarrow>
        (\<exists>rs h. sums_for m codes ns rs
           \<and> client req w = (Val (Some \<lparr>StatusCode = 200, RespHeader = h, RespBody = Some (json_print (vector_json time rs), None)\<rparr>, None), w)))"

lemma Fetch_text:
  assumes "prometheus_answers (remove_empty_port (PHost p @ '':'' @ Itoa (PPort p))) m codes time (PClient p) v"
    and "plain_target (PHost p @ '':'' @ Itoa (PPort p)) [] []" "regexp_literal ns"
    and "\<And>rs l n. sums_for m codes ns rs \<Longrightarrow> (l, n) \<in> set rs \<Longrightarrow> valid_utf8 l"
  obtains rs where "sums_for m codes ns rs"
    "Fetch (json_list_codec dt t0 msg marshal) p (QueryEscape (invocations_query ns)) v = (Val (Some (vector_of rs), None), v)"
proof -
  let ?h = "PHost p @ '':'' @ Itoa (PPort p)" and ?q = "''query='' @ QueryEscape (invocations_query ns)"
  have "char_of (34 :: nat) = CHR 0x22" by code_simp
  then have query: "invocations_query ns = ''sum(gateway_function_invocation_total{function_name=~''
      @ [CHR 0x22] @ ''.*.'' @ ns @ [CHR 0x22] @ ''}) by (function_name)''" by (simp add: invocations_query_def)
  have t: "plain_target ?h ''/api/v1/query'' ?q"
    using assms(2) QueryEscape_no_ctl by (auto simp: plain_target_def is_ctl_def)
  have n: "?q \<noteq> []" "CHR ''%'' \<notin> set ''/api/v1/query''" by simp_all
  obtain req where req: "http_NewRequest ''GET'' (''http://'' @ ?h @ ''/api/v1/query'' @ ''?'' @ ?q) None = Some req" "Method req = ''GET''"
    "UHost (URL req) = remove_empty_port ?h" "Path (URL req) = ''/api/v1/query''" "RawQuery (URL req) = ?q"
    by (rule NewRequest_plain [OF t n disjI1 [OF refl], of None]) blast
  let ?req = "req\<lparr>Header := header_Set ''User-Agent'' (''openfaas-gateway/'' @ PAgent p @ '' (Prometheus query)'') (Header req)\<rparr>"
  have "QueryEscape ''query'' = ''query''" by (simp add: query_plain_def is_alnum_def)
  then have "?q = join_with ''&'' (map encode_pair [(''query'', invocations_query ns)])" by (simp add: encode_pair_def)
  then have "values_Get (url_Query ?q) ''query'' = Some (invocations_query ns)"
    using url_Query_pairs [of "[(''query'', invocations_query ns)]"] by (simp add: values_Get_def del: append.simps)
  with req(2-5) have r: "Method ?req = ''GET''" "UHost (URL ?req) = remove_empty_port ?h" "Path (URL ?req) = ''/api/v1/query''"
    "values_Get (url_Query (RawQuery (URL ?req))) ''query'' = Some (invocations_query ns)" by simp_all
  have "\<exists>rs h. sums_for m codes ns rs \<and> PClient p r v = (Val (Some \<lparr>StatusCode = 200, RespHeader = h,
      RespBody = Some (json_print (vector_json time rs), None)\<rparr>, None), v)"
    if "Method r = ''GET''" "UHost (URL r) = remove_empty_port ?h" "Path (URL r) = ''/api/v1/query''"
      "values_Get (url_Query (RawQuery (URL r))) ''query'' = Some (invocations_query ns)" for r
    using assms(1,3) that unfolding query prometheus_answers_def by blast
  from this [OF r] obtain rs h where rs: "sums_for m codes ns rs"
    "PClient p ?req v = (Val (Some \<lparr>StatusCode = 200, RespHeader = h, RespBody = Some (json_print (vector_json time rs), None)\<rparr>, None), v)"
    by blast
  have time: "json_number time" "list_all is_number_char time" "ParseFloat64 time \<noteq> None"
    using assms(1) by (simp_all add: prometheus_answers_def)
  have raw: "''http://'' @ PHost p @ '':'' @ Itoa (PPort p) @ ''/api/v1/query?query='' @ QueryEscape (invocations_query ns)
      = ''http://'' @ ?h @ ''/api/v1/query'' @ ''?'' @ ?q" by simp
  have "\<forall>(l, n) \<in> set rs. valid_utf8 l" using assms(4) [OF rs(1)] by blast
  then have "Fetch (json_list_codec dt t0 msg marshal) p (QueryEscape (invocations_query ns)) v = (Val (Some (vector_of rs), None), v)"
    using unmarshal_vector_text [OF time] unfolding Fetch_def raw Let_def req(1)
    by (simp add: bindp_run retp_run rs(2) json_list_codec_def or_message_def del: json_print.simps append.simps)
  with rs(1) show thesis by (rule that)
qed

text \<open>Every sum is that of some calls.\<close>

lemma sums_called:
  assumes "sums_for (metrics (finished_calls dns cs g)) codes ns rs" "metrics g = BuildMetricsOptions"
    and "finite codes" "\<forall>(u, st, d) \<in> set cs. Itoa st \<in> codes" "(l, n) \<in> set rs"
  shows "n \<le> length cs" "\<exists>(u, st, d) \<in> set cs. metric_name dns u = l"
proof -
  let ?sum = "\<Sum>c \<in> codes. GatewayFunctionInvocation (metrics (finished_calls dns cs g)) (l, c)"
  let ?calls = "filter (\<lambda>(u, st, d). metric_name dns u = l) cs"
  have "n \<in> set (map snd (filter (\<lambda>r. fst r = l) rs))" using assms(5) by force
  also have "map snd (filter (\<lambda>r. fst r = l) rs) = (if ends_in ns l then sum_by_name (metrics (finished_calls dns cs g)) codes l else [])"
    using assms(1) by (simp add: sums_for_def)
  finally have "n = ?sum" "n \<noteq> 0" by (auto simp: sum_by_name_def Let_def split: if_splits)
  moreover have "?sum = length ?calls"
    using sum_finished [OF assms(3,4), of dns g l] assms(2) by (simp add: BuildMetricsOptions_def)
  ultimately have n: "n = length ?calls" "n \<noteq> 0" by simp_all
  then show "n \<le> length cs" by simp
  from n obtain c where "c \<in> set ?calls" by (cases ?calls) auto
  then show "\<exists>(u, st, d) \<in> set cs. metric_name dns u = l" by auto
qed

lemma listed_sums:
  assumes "cd = json_list_codec dt t0 msg marshal" "sums_for (metrics (finished_calls dns cs g)) codes ns rs" "metrics g = BuildMetricsOptions"
    and "finite codes" "\<forall>(u, st, d) \<in> set cs. Itoa st \<in> codes" "length cs < 2 ^ 53"
    and "LNamespace f \<noteq> [] \<or> dns \<noteq> []" "CHR ''.'' \<notin> set (LNamespace f)" "CHR ''.'' \<notin> set dns"
  shows "counted cd (vector_of rs) (f\<lparr>LInvocationCount := Finite 0\<rparr>) = f\<lparr>LInvocationCount :=
      Finite (of_nat (if ends_in ns (LName f @ ''.'' @ LNamespace f) then calls_of dns cs (LName f, LNamespace f) else 0))\<rparr>"
proof -
  let ?label = "LName f @ ''.'' @ LNamespace f"
  let ?ns = "if ends_in ns ?label then sum_by_name (metrics (finished_calls dns cs g)) codes ?label else []"
  have "\<forall>(l, n) \<in> set rs. n < 2 ^ 53" using sums_called(1) [OF assms(2-5)] assms(6) by (auto intro: le_less_trans)
  from vector_counts [OF this, of dt t0 msg marshal ?label]
  have c: "counts_of cd (vector_of rs) ?label = map (\<lambda>n. Finite (of_nat n)) ?ns"
    using assms(2) unfolding sums_for_def assms(1) by (simp only:)
  have "sum_list (sum_by_name (metrics (finished_calls dns cs g)) codes ?label) = calls_of dns cs (LName f, LNamespace f)"
    using counted_calls [OF assms(3-5,7-9), of "LName f"] by (auto simp: sum_by_name_def Let_def)
  then have s: "sum_list ?ns = (if ends_in ns ?label then calls_of dns cs (LName f, LNamespace f) else 0)" by simp
  have "calls_of dns cs (LName f, LNamespace f) < 2 ^ 53"
    unfolding calls_of_def by (rule le_less_trans [OF length_filter_le assms(6)])
  then have "foldl float_add (Finite 0) (counts_of cd (vector_of rs) ?label) = Finite (of_nat (sum_list ?ns))"
    using foldl_float_nat [of 0 ?ns] unfolding c s by simp
  then show ?thesis unfolding s by (simp add: counted_def)
qed

text \<open>
  C9: the invocation counts in the list of functions, end to end. The gateway counted the calls \<open>cs\<close>, Prometheus
  scraped its counter, and the provider's list is the JSON of the functions \<open>f0 # fs0\<close>. The gateway asks Prometheus for the
  functions whose name ends in the namespace of the first one. So every function of the answer has the
  number of finished calls that name it, if its name with its namespace ends in that namespace, after at least one
  other character; every other function has 0, however often it was called. Nothing else of the list changes before it is
  printed. There is a namespace, the function's or the default one, none holds a dot, and that of the first function
  consists of letters, digits and \<open>-\<close>.
\<close>

theorem listed_counts_from_text:
  assumes "cd = json_list_codec dt t0 msg marshal" "metrics g = BuildMetricsOptions"
    and "finite codes" "\<forall>(u, st, d) \<in> set cs. Itoa st \<in> codes \<and> valid_utf8 (metric_name dns u)" "length cs < 2 ^ 53"
    and "plain_target (PHost p @ '':'' @ Itoa (PPort p)) [] []"
    and "prometheus_answers (remove_empty_port (PHost p @ '':'' @ Itoa (PPort p))) (metrics (finished_calls dns cs g)) codes time (PClient p) (hworld t)"
    and "handler r \<lparr>rw = new_writer, hworld = hworld s\<rparr> = (Val (), t)" "recorder_Code (rw t) = 200"
    and "rw_body (rw t) = served_text (f0 # fs0)" "\<forall>f \<in> set (f0 # fs0). served_ok dt f"
    and "\<forall>f \<in> set (f0 # fs0). (SNamespace f \<noteq> [] \<or> dns \<noteq> []) \<and> CHR ''.'' \<notin> set (SNamespace f)" "CHR ''.'' \<notin> set dns"
    and "regexp_literal (SNamespace f0)"
  shows "\<exists>fs gs. unmarshal_functions cd (rw_body (rw t)) = Inr (Some fs)
    \<and> AddMetricsHandler cd handler (Fetch cd p) r s =
        (case marshal (Some gs) of Inl _ \<Rightarrow> http_Error ''Error writing response after adding metrics'' 500
          | Inr out \<Rightarrow> reply_json out) (s\<lparr>hworld := hworld t\<rparr>)
    \<and> list_all2 (\<lambda>x y. y = x\<lparr>LInvocationCount := LInvocationCount y\<rparr>) fs gs
    \<and> list_all2 (\<lambda>f y. LName y = SName f \<and> LNamespace y = SNamespace f \<and> LReplicas y = SReplicas f
        \<and> LInvocationCount y = Finite (of_nat (if ends_in (SNamespace f0) (SName f @ ''.'' @ SNamespace f)
            then calls_of dns cs (SName f, SNamespace f) else 0))) (f0 # fs0) gs"
proof -
  note cd = assms(1)
  obtain ys where "unmarshalled (decode_pointer [] (decode_slice (empty_status t0) (decode_status dt))) None (served_text (f0 # fs0)) = Some (Some ys)"
    and ys: "list_all2 read_as (f0 # fs0) ys" by (rule unmarshal_served_list [OF assms(11)])
  then have un: "unmarshal_functions cd (rw_body (rw t)) = Inr (Some ys)"
    by (simp add: assms(10) cd json_list_codec_def or_message_def)
  obtain x xs where x: "ys = x # xs" "LNamespace x = SNamespace f0" using ys by (auto simp: list_all2_Cons1 read_as_def)
  have codes: "\<forall>(u, st, d) \<in> set cs. Itoa st \<in> codes" using assms(4) by auto
  have valid: "valid_utf8 l" if "sums_for (metrics (finished_calls dns cs g)) codes (SNamespace f0) rs" "(l, n) \<in> set rs" for rs l n
    using sums_called(2) [OF that(1) assms(2,3) codes that(2)] assms(4) by auto
  obtain rs where rs: "sums_for (metrics (finished_calls dns cs g)) codes (SNamespace f0) rs"
    "Fetch (json_list_codec dt t0 msg marshal) p (QueryEscape (invocations_query (SNamespace f0))) (hworld t) = (Val (Some (vector_of rs), None), hworld t)"
    by (rule Fetch_text [OF assms(7,6,14) valid])
  let ?gs = "map (counted cd (vector_of rs)) (reset_counts ys)"
  have two: "two_values (vector_of rs)" by (auto simp: two_values_def vector_of_def)
  have "AddMetricsHandler cd handler (Fetch cd p) r s =
      (case marshal (Some ?gs) of Inl _ \<Rightarrow> http_Error ''Error writing response after adding metrics'' 500
        | Inr out \<Rightarrow> reply_json out) (s\<lparr>hworld := hworld t\<rparr>)"
    using assms(9) rs(2) un mixIn_counted [OF two, of cd "reset_counts ys"] x
    unfolding AddMetricsHandler_def recorder_run [of handler r s t, OF assms(8)]
    by (simp add: Let_def reset_counts_def bindp_run on_hworld_run retp_run cd [symmetric])
      (simp add: cd json_list_codec_def)
  moreover have count: "counted cd (vector_of rs) (y\<lparr>LInvocationCount := Finite 0\<rparr>) = y\<lparr>LInvocationCount := Finite (of_nat
      (if ends_in (SNamespace f0) (LName y @ ''.'' @ LNamespace y) then calls_of dns cs (LName y, LNamespace y) else 0))\<rparr>"
    if "f \<in> set (f0 # fs0)" "read_as f y" for f y
  proof (rule listed_sums [OF cd rs(1) assms(2,3) codes assms(5) _ _ assms(13)])
    have "LNamespace y = SNamespace f" using that(2) by (simp add: read_as_def)
    then show "LNamespace y \<noteq> [] \<or> dns \<noteq> []" "CHR ''.'' \<notin> set (LNamespace y)" using assms(12) that(1) by metis+
  qed
  have "list_all2 (\<lambda>f y. LName y = SName f \<and> LNamespace y = SNamespace f \<and> LReplicas y = SReplicas f
        \<and> LInvocationCount y = Finite (of_nat (if ends_in (SNamespace f0) (SName f @ ''.'' @ SNamespace f)
            then calls_of dns cs (SName f, SNamespace f) else 0))) (f0 # fs0) ?gs"
    unfolding reset_counts_def map_map list_all2_map2
    by (rule list.rel_mono_strong [OF ys]) (use count in \<open>simp add: read_as_def\<close>)
  moreover have "list_all2 (\<lambda>x y. y = x\<lparr>LInvocationCount := LInvocationCount y\<rparr>) ys ?gs"
    unfolding reset_counts_def map_map list_all2_map2 by (rule list_all2_refl) (simp add: counted_def)
  ultimately show ?thesis using un by blast
qed

section \<open>The exporter\<close>

lemma unmarshal_strings_text:
  assumes "\<forall>n \<in> set ns. valid_utf8 n"
  shows "unmarshal_strings (json_watch_codec dt t0 msg marshal basic) (json_print (JArr (map JStr ns))) = (ns, None)"
proof -
  let ?v = "JArr (map JStr ns)"
  have "printable ?v" using assms by (simp add: list_all_iff)
  moreover have "depth ?v \<le> maxNestingDepth"
  proof -
    have "foldr (\<lambda>v d. max (depth v) d) (map JStr ns) 0 \<le> 0" by (subst foldr_max_le) auto
    then show ?thesis by (simp add: maxNestingDepth_def)
  qed
  ultimately have "json_parse (json_print ?v) = Some ?v" by (rule json_parse_print)
  moreover have "decode_elements [] decode_string [] (map JStr ns) = (ns, False)"
    by (rule elements_decoded) (simp add: decode_string_def)
  ultimately show ?thesis
    by (simp add: json_watch_codec_def Unmarshal_def decode_slice_def del: json_print.simps)
qed

lemma exporter_requests:
  assumes "u = \<lparr>Scheme = ''http'', UHost = h, Path = ''/'', RawPath = [], RawQuery = []\<rparr>" "plain_target h [] []" "h \<noteq> []"
  shows "\<exists>req. authorized_get cd e (namespaces_url u) = Val req \<and> Method req = ''GET''
      \<and> UHost (URL req) = remove_empty_port h \<and> Path (URL req) = ''/system/namespaces''"
    and "\<exists>req. authorized_get cd e (functions_url u n) = Val req \<and> Method req = ''GET''
      \<and> UHost (URL req) = remove_empty_port h \<and> Path (URL req) = ''/system/functions''
      \<and> values_Get (url_Query (RawQuery (URL req))) ''namespace'' = (if n = [] then None else Some n)"
proof -
  have j: "path_Join [''/'', ''system/namespaces''] = ''/system/namespaces''" "path_Join [''/'', ''/system/functions''] = ''/system/functions''"
    and p: "plain_path ''/system/namespaces''" "plain_path ''/system/functions''" by code_simp+
  have "namespaces_url u = \<lparr>Scheme = ''http'', UHost = h, Path = ''/system/namespaces'', RawPath = [], RawQuery = []\<rparr>"
    by (simp add: assms(1) namespaces_url_def j)
  with url_reparse [OF p(1) assms(2,3)]
  have "http_NewRequest ''GET'' (url_String (namespaces_url u)) None = Some \<lparr>Method = ''GET'', URL = (namespaces_url u)\<lparr>UHost := remove_empty_port h\<rparr>,
      Header = (\<lambda>_. None), RHost = remove_empty_port h, RemoteAddr = [], Body = None, RVars = (\<lambda>_. None)\<rparr>"
    and "Path (namespaces_url u) = ''/system/namespaces''"
    by (simp_all add: http_NewRequest_def is_token_char_def is_alnum_def)
  then show "\<exists>req. authorized_get cd e (namespaces_url u) = Val req \<and> Method req = ''GET''
      \<and> UHost (URL req) = remove_empty_port h \<and> Path (URL req) = ''/system/namespaces''"
    by (auto simp: authorized_get_def SetBasicAuth_def split: option.split)
  have "url_Query [] = []" by code_simp
  then have q: "values_Get (url_Query (RawQuery (functions_url u n))) ''namespace'' = (if n = [] then None else Some n)"
    using read_back_Set [of "''namespace''" n "[]" "''namespace''"]
    by (simp add: assms(1) functions_url_def Let_def) (simp add: values_Get_def)
  have "Path (functions_url u n) = ''/system/functions''" by (simp add: assms(1) functions_url_def Let_def j)
  with q functions_get [of u n] assms p(2) j(2)
  show "\<exists>req. authorized_get cd e (functions_url u n) = Val req \<and> Method req = ''GET''
      \<and> UHost (URL req) = remove_empty_port h \<and> Path (URL req) = ''/system/functions''
      \<and> values_Get (url_Query (RawQuery (URL req))) ''namespace'' = (if n = [] then None else Some n)"
    by (auto simp: authorized_get_def SetBasicAuth_def split: option.split)
qed

lemma served_text_nonempty: "served_text fs \<noteq> []"
  by (cases fs) (simp_all add: served_text_def)

text \<open>What is read of the list of a namespace: nothing of a text that is not JSON.\<close>

lemma getFunctions_text:
  assumes "cd = json_watch_codec dt t0 msg marshal basic" "lists_functions dt (remove_empty_port h) ns functions client w"
    and "u = \<lparr>Scheme = ''http'', UHost = h, Path = ''/'', RawPath = [], RawQuery = []\<rparr>" "plain_target h [] []" "h \<noteq> []"
  shows "\<exists>R. getFunctions cd client e u n w = (Val R, w)
    \<and> (case functions n of None \<Rightarrow> \<exists>m. R = Inl m | Some fs \<Rightarrow> \<exists>ys. R = Inr ys \<and> list_all2 read_as fs ys)"
proof -
  obtain req where req: "authorized_get cd e (functions_url u n) = Val req" "Method req = ''GET''"
    "UHost (URL req) = remove_empty_port h" "Path (URL req) = ''/system/functions''"
    "values_Get (url_Query (RawQuery (URL req))) ''namespace'' = (if n = [] then None else Some n)"
    using exporter_requests(2) [OF assms(3-5)] by blast
  then obtain hd c b where sent: "client req w = (Val (Some \<lparr>StatusCode = c, RespHeader = hd, RespBody = Some (b, None)\<rparr>, None), w)"
    and b: "case functions n of None \<Rightarrow> json_parse b = None | Some fs \<Rightarrow> b = served_text fs \<and> (\<forall>f \<in> set fs. served_ok dt f)"
    using assms(2) unfolding lists_functions_def by blast
  show ?thesis
  proof (cases "functions n")
    case None
    with b have "unmarshal_functions (functions_codec cd) b = Inl (msg b)"
      by (simp add: assms(1) json_watch_codec_def json_list_codec_def or_message_def unmarshalled_def Unmarshal_def)
    with None req(1) sent show ?thesis by (simp add: getFunctions_def sent_to_def bindp_run retp_run)
  next
    case (Some fs)
    with b have b': "b = served_text fs" "\<forall>f \<in> set fs. served_ok dt f" by simp_all
    obtain ys where ys: "unmarshalled (decode_pointer [] (decode_slice (empty_status t0) (decode_status dt))) None (served_text fs) = Some (Some ys)"
      "list_all2 read_as fs ys" by (rule unmarshal_served_list [OF b'(2)])
    then have "unmarshal_functions (functions_codec cd) b = Inr (Some ys)"
      by (simp add: assms(1) b'(1) json_watch_codec_def json_list_codec_def or_message_def)
    with Some req(1) sent ys(2) served_text_nonempty [of fs] show ?thesis
      by (simp add: getFunctions_def sent_to_def bindp_run retp_run b'(1))
  qed
qed

lemma getNamespaces_text:
  assumes "cd = json_watch_codec dt t0 msg marshal basic" "lists_functions dt (remove_empty_port h) ns functions client w"
    and "u = \<lparr>Scheme = ''http'', UHost = h, Path = ''/'', RawPath = [], RawQuery = []\<rparr>" "plain_target h [] []" "h \<noteq> []"
    and "\<forall>n \<in> set ns. valid_utf8 n"
  shows "getNamespaces cd client e u w = (Val (ns, None), w)"
proof -
  obtain req where req: "authorized_get cd e (namespaces_url u) = Val req" "Method req = ''GET''"
    "UHost (URL req) = remove_empty_port h" "Path (URL req) = ''/system/namespaces''"
    using exporter_requests(1) [OF assms(3-5)] by blast
  then obtain hd where sent: "client req w
      = (Val (Some \<lparr>StatusCode = 200, RespHeader = hd, RespBody = Some (json_print (JArr (map JStr ns)), None)\<rparr>, None), w)"
    using assms(2) unfolding lists_functions_def by blast
  have "json_print (JArr (map JStr ns)) \<noteq> []" by (cases ns) simp_all
  with req(1) sent unmarshal_strings_text [OF assms(6), of dt t0 msg marshal basic] show ?thesis
    unfolding assms(1) by (simp add: getNamespaces_def sent_to_def bindp_run retp_run del: json_print.simps)
qed

text \<open>The label and the count of a function in the provider's text.\<close>

definition shown :: "served \<Rightarrow> string \<times> rat" where
  "shown f = (if SNamespace f = [] then SName f else SName f @ ''.'' @ SNamespace f, float64 (of_nat (unat (SReplicas f))))"

lemma shown_read: "list_all2 read_as fs ys \<Longrightarrow> map (\<lambda>y. (service_label y, float64 (of_nat (unat (LReplicas y))))) ys = map shown fs"
  by (induction rule: list_all2_induct) (auto simp: read_as_def shown_def service_label_def)

text \<open>
  C27: the replica counts on the metrics page, end to end. The provider, at the root of its host, answers with JSON texts: the
  list of its namespaces, and for each of them a list of functions with the documented keys, or a text that
  is not JSON. After one tick of the watcher a scrape shows exactly the functions of the readable lists, each under its name and
  namespace with the \<open>replicas\<close> of its text (0 where they are left out), and nothing else; of functions that share a label it
  shows the last. A namespace whose text cannot be read only misses its own functions. Without namespaces the list is
  that of the exporter's own namespace, which has to be readable.
\<close>

theorem watched_replicas_from_text:
  assumes "cd = json_watch_codec dt t0 msg marshal basic" "lists_functions dt (remove_empty_port h) ns functions client w"
    and "u = \<lparr>Scheme = ''http'', UHost = h, Path = ''/'', RawPath = [], RawQuery = []\<rparr>" "plain_target h [] []" "h \<noteq> []"
    and "\<forall>n \<in> set ns. valid_utf8 n" "ns = [] \<Longrightarrow> functions (ExporterNamespace e) \<noteq> None"
  shows "\<exists>e'. watcher_tick cd client u e w = (Val e', w)
    \<and> (\<forall>m. ServiceReplicasGauge (snd (Collect e' m)) = map_of (rev (map shown (concat
        (map (\<lambda>n. case functions n of None \<Rightarrow> [] | Some fs \<Rightarrow> fs) (if ns = [] then [ExporterNamespace e] else ns))))))"
proof -
  have "\<exists>R. \<forall>n. getFunctions cd client e u n w = (Val (R n), w)
      \<and> (case functions n of None \<Rightarrow> \<exists>m. R n = Inl m | Some fs \<Rightarrow> \<exists>ys. R n = Inr ys \<and> list_all2 read_as fs ys)"
    using getFunctions_text [OF assms(1-5)] by (intro choice) blast
  then obtain R where R: "\<And>n. getFunctions cd client e u n w = (Val (R n), w)"
    "\<And>n. case functions n of None \<Rightarrow> \<exists>m. R n = Inl m | Some fs \<Rightarrow> \<exists>ys. R n = Inr ys \<and> list_all2 read_as fs ys" by blast
  let ?fs = "\<lambda>n. case functions n of None \<Rightarrow> [] | Some fs \<Rightarrow> fs" and ?ys = "\<lambda>n. case R n of Inl _ \<Rightarrow> [] | Inr ys \<Rightarrow> ys"
  let ?names = "if ns = [] then [ExporterNamespace e] else ns"
  have one: "map (\<lambda>y. (service_label y, float64 (of_nat (unat (LReplicas y))))) (?ys n) = map shown (?fs n)" for n
  proof (cases "functions n")
    case (Some fs)
    with R(2) [of n] obtain ys where "R n = Inr ys" "list_all2 read_as fs ys" by auto
    with Some shown_read show ?thesis by (simp only: option.case sum.case)
  qed (use R(2) [of n] in auto)
  have "watcher_tick cd client u e w = (Val (e\<lparr>services := concat (map ?ys ?names)\<rparr>), w)"
    using watcher_tick_lists [OF getNamespaces_text [OF assms(1-6)] R(1)] assms(7) R(2) [of "ExporterNamespace e"]
    by (auto split: option.splits)
  moreover have "map (\<lambda>y. (service_label y, float64 (of_nat (unat (LReplicas y))))) (concat (map ?ys ?names)) = map shown (concat (map ?fs ?names))"
    unfolding map_concat map_map comp_def one ..
  then have "ServiceReplicasGauge (snd (Collect (e\<lparr>services := concat (map ?ys ?names)\<rparr>) m)) = map_of (rev (map shown (concat (map ?fs ?names))))" for m
    by (simp add: Collect_def go_simps set_gauges_map del: map_concat rev_map)
  ultimately show ?thesis by blast
qed

section \<open>Witnesses\<close>

lemma scale_endpoint_limits_text_witness:
  "\<exists>b' q'. MakeHorizontalScalingHandler unmarshal_scale_request marshal_scale_request demo_upstream
      ((demo_scale_request ''POST'')\<lparr>Body := Some (marshal_scale_request \<lparr>ServiceName = ''f'', ReqReplicas = 200, ReqNamespace = ''n''\<rparr>, None)\<rparr>)
    = demo_upstream ((demo_scale_request ''POST'')\<lparr>Body := Some (b', None)\<rparr>)
    \<and> unmarshal_scale_request b' = Some q' \<and> ServiceName q' = ''f'' \<and> unat (ReqReplicas q') = 5"
proof -
  let ?q = "\<lparr>ServiceName = ''f'', ReqReplicas = 200, ReqNamespace = ''n''\<rparr>"
  have "unmarshal_scale_request (marshal_scale_request ?q) = Some ?q" by (rule unmarshal_marshal_scale_request) simp_all
  with scale_endpoint_limits_text [where nxt = demo_upstream and b = "marshal_scale_request ?q" and q = ?q
      and r = "(demo_scale_request ''POST'')\<lparr>Body := Some (marshal_scale_request ?q, None)\<rparr>"]
  show ?thesis by (fastforce simp: demo_scale_request_def)
qed

definition no_time :: "unit decoder" where
  "no_time old v = ((), False)"

text \<open>A provider at \<open>/\<close> that keeps the counts of its functions by name and namespace.\<close>

definition served_count :: "string \<Rightarrow> string \<Rightarrow> uint64 \<Rightarrow> served" where
  "served_count fn ns n = \<lparr>SName = fn, SNamespace = ns, SReplicas = n, SAvailable = 1, SOthers = [(''image'', JStr ''i'')]\<rparr>"

definition counting_client :: "(string \<times> string \<Rightarrow> uint64) client" where
  "counting_client req w =
     (case values_Get (url_Query (RawQuery (URL req))) ''namespace'' of
        None \<Rightarrow> (Val (None, Some ''no namespace''), w)
      | Some ns \<Rightarrow>
          if Method req = ''GET'' then
            (let fn = drop (length ''/system/function/'') (Path (URL req))
             in (Val (Some \<lparr>StatusCode = 200, RespHeader = (\<lambda>_. None),
                   RespBody = Some (json_print (served_json (served_count fn ns (w (fn, ns)))), None)\<rparr>, None), w))
          else
            (let fn = drop (length ''/system/scale-function/'') (Path (URL req))
             in case Body req of
                  Some (b, None) \<Rightarrow> (case unmarshal_scale_request b of
                      Some q \<Rightarrow> (Val (Some \<lparr>StatusCode = 202, RespHeader = (\<lambda>_. None), RespBody = None\<rparr>, None), w((fn, ns) := ReqReplicas q))
                    | None \<Rightarrow> (Val (None, Some ''bad request''), w))
                | _ \<Rightarrow> (Val (None, Some ''bad request''), w)))"

lemma served_count_ok: "valid_utf8 fn \<Longrightarrow> valid_utf8 ns \<Longrightarrow> served_ok no_time (served_count fn ns n) \<and> unlabelled (served_count fn ns n)"
proof -
  assume "valid_utf8 fn" "valid_utf8 ns"
  moreover have "folded ''image'' = ''IMAGE''" by code_simp
  ultimately show ?thesis
    by (simp add: served_ok_def unlabelled_def served_count_def maxNestingDepth_def decode_status_def decode_struct_def find_field_def
        in_rest_def in_field_def decode_string_def del: folded.simps)
qed

lemma counting_keeps:
  assumes "\<forall>(fn, ns) \<in> fs. valid_utf8 fn \<and> valid_utf8 ns"
  shows "keeps_functions no_time host ''/'' fs id counting_client"
proof -
  have "(Method req = ''GET'' \<and> Path (URL req) = ''/'' @ ''system/function/'' @ fn \<longrightarrow>
         (\<exists>h f. counting_client req w = (Val (Some \<lparr>StatusCode = 200, RespHeader = h, RespBody = Some (json_print (served_json f), None)\<rparr>, None), w)
           \<and> served_ok no_time f \<and> unlabelled f \<and> SName f = fn \<and> SNamespace f = ns \<and> SReplicas f = id w (fn, ns)))
     \<and> (\<forall>n. Method req = ''POST'' \<and> Path (URL req) = ''/'' @ ''system/scale-function/'' @ fn
           \<and> Body req = Some (json_print (JObj [(''serviceName'', JStr fn), (''replicas'', JNum (nat_digits (unat n)))]), None) \<longrightarrow>
         (\<exists>w' h b. counting_client req w = (Val (Some \<lparr>StatusCode = 202, RespHeader = h, RespBody = b\<rparr>, None), w') \<and> id w' = (id w)((fn, ns) := n)))"
    if "(fn, ns) \<in> fs" "values_Get (url_Query (RawQuery (URL req))) ''namespace'' = Some ns" for fn ns req w
  proof (intro conjI allI impI)
    have v: "valid_utf8 fn" "valid_utf8 ns" using assms that(1) by auto
    assume "Method req = ''GET'' \<and> Path (URL req) = ''/'' @ ''system/function/'' @ fn"
    then have "counting_client req w = (Val (Some \<lparr>StatusCode = 200, RespHeader = (\<lambda>_. None),
        RespBody = Some (json_print (served_json (served_count fn ns (w (fn, ns)))), None)\<rparr>, None), w)"
      by (simp add: counting_client_def that(2) del: json_print.simps)
    moreover have "SName (served_count fn ns n) = fn" "SNamespace (served_count fn ns n) = ns" "SReplicas (served_count fn ns n) = n" for n
      by (simp_all add: served_count_def)
    ultimately show "\<exists>h f. counting_client req w = (Val (Some \<lparr>StatusCode = 200, RespHeader = h, RespBody = Some (json_print (served_json f), None)\<rparr>, None), w)
           \<and> served_ok no_time f \<and> unlabelled f \<and> SName f = fn \<and> SNamespace f = ns \<and> SReplicas f = id w (fn, ns)"
      using served_count_ok [OF v, of "w (fn, ns)"] by (metis id_apply)
  next
    fix n
    let ?q = "\<lparr>ServiceName = fn, ReqReplicas = n, ReqNamespace = []\<rparr>"
    assume r: "Method req = ''POST'' \<and> Path (URL req) = ''/'' @ ''system/scale-function/'' @ fn
           \<and> Body req = Some (json_print (JObj [(''serviceName'', JStr fn), (''replicas'', JNum (nat_digits (unat n)))]), None)"
    have "json_print (JObj [(''serviceName'', JStr fn), (''replicas'', JNum (nat_digits (unat n)))]) = marshal_scale_request ?q"
      by (simp add: marshal_scale_request_def scale_request_json_def del: json_print.simps)
    moreover have "unmarshal_scale_request (marshal_scale_request ?q) = Some ?q"
      using assms that(1) by (intro unmarshal_marshal_scale_request) auto
    ultimately show "\<exists>w' h b. counting_client req w = (Val (Some \<lparr>StatusCode = 202, RespHeader = h, RespBody = b\<rparr>, None), w') \<and> id w' = (id w)((fn, ns) := n)"
      using r by (simp add: counting_client_def that(2) del: json_print.simps)
  qed
  then show ?thesis unfolding keeps_functions_def by (simp del: json_print.simps append.simps) blast
qed

text \<open>
  A provider with two namespaces that can be read, and one that cannot; a gateway that counted two calls of a function in the
  first one and one in the other; and the Prometheus that scraped it.
\<close>

definition demo_functions :: "string \<Rightarrow> served list option" where
  "demo_functions n = (if n = ''fn'' then Some [served_count ''f'' ''fn'' 3] else if n = ''ops'' then Some [served_count ''g'' ''ops'' 4] else None)"

lemma demo_functions_ok: "\<forall>f \<in> set [served_count ''f'' ''fn'' 3, served_count ''g'' ''ops'' 4]. served_ok no_time f"
  using served_count_ok by simp

definition listing :: "unit handler" where
  "listing r = on_rw (Write (served_text [served_count ''f'' ''fn'' 3, served_count ''g'' ''ops'' 4]))"

definition counted_demo :: "finished list" where
  "counted_demo = [(''/function/f'', 200, 1), (''/function/f.fn/x'', 500, 2), (''/function/g.ops'', 200, 1)]"

definition scraped_demo :: "(string \<times> nat) list" where
  "scraped_demo = [(''f.fn'', 2), (''g.ops'', 1)]"

definition demo_time :: string where
  "demo_time = nat_digits 1700000000"

definition asked_namespace :: "string \<Rightarrow> string" where
  "asked_namespace q = (let a = length ''sum(gateway_function_invocation_total{function_name=~'' + 4
     in take (length q - a - (1 + length ''}) by (function_name)'')) (drop a q))"

definition demo_prometheus :: "unit PrometheusQuery" where
  "demo_prometheus = NewPrometheusQuery ''p'' 80
     (\<lambda>r w. case values_Get (url_Query (RawQuery (URL r))) ''query'' of
        None \<Rightarrow> (Val (None, Some ''no query''), w)
      | Some q \<Rightarrow> (let ns = asked_namespace q in (Val (Some \<lparr>StatusCode = 200, RespHeader = (\<lambda>_. None), RespBody = Some (json_print (vector_json demo_time
          (filter (\<lambda>r. length ns < length (fst r) \<and> drop (length (fst r) - length ns) (fst r) = ns) scraped_demo)), None)\<rparr>, None), w))) ''1''"

lemma ends_in_drop: "ends_in ns l \<longleftrightarrow> length ns < length l \<and> drop (length l - length ns) l = ns"
proof
  assume r: "length ns < length l \<and> drop (length l - length ns) l = ns"
  let ?p = "take (length l - length ns) l"
  have "?p \<noteq> []" using r by auto
  then have "l = butlast ?p @ last ?p # ns" using r append_take_drop_id [of "length l - length ns" l]
    by (metis append.assoc append_Cons append_Nil append_butlast_last_id)
  then show "ends_in ns l" unfolding ends_in_def by blast
qed (auto simp: ends_in_def)

lemma demo_sums: "sums_for (metrics (finished_calls ''fn'' counted_demo demo_counter_world)) {Itoa 200, Itoa 500} ns
    (filter (\<lambda>r. length ns < length (fst r) \<and> drop (length (fst r) - length ns) (fst r) = ns) scraped_demo)"
proof -
  let ?m = "metrics (finished_calls ''fn'' counted_demo demo_counter_world)"
  have names: "metric_name ''fn'' ''/function/f'' = ''f.fn''" "metric_name ''fn'' ''/function/f.fn/x'' = ''f.fn''"
    "metric_name ''fn'' ''/function/g.ops'' = ''g.ops''" by code_simp+
  have "(\<Sum>c \<in> {Itoa 200, Itoa 500}. GatewayFunctionInvocation ?m (lbl, c)) = (if lbl = ''f.fn'' then 2 else if lbl = ''g.ops'' then 1 else 0)" for lbl
    using sum_finished [of "{Itoa 200, Itoa 500}" counted_demo "''fn''" demo_counter_world lbl] names
    by (simp add: counted_demo_def demo_counter_world_def BuildMetricsOptions_def)
  then have s: "sum_by_name ?m {Itoa 200, Itoa 500} lbl = map snd (filter (\<lambda>r. fst r = lbl) scraped_demo)" for lbl
    by (auto simp: sum_by_name_def scraped_demo_def)
  have "filter (\<lambda>r. fst r = lbl) (filter (\<lambda>r. ends_in ns (fst r)) rs) = (if ends_in ns lbl then filter (\<lambda>r. fst r = lbl) rs else [])" for lbl and rs :: "(string \<times> nat) list"
    by (auto intro: filter_cong simp: filter_empty_conv)
  then show ?thesis by (simp add: sums_for_def s ends_in_drop [symmetric])
qed

lemma asked_namespace_query: "asked_namespace (''sum(gateway_function_invocation_total{function_name=~''
    @ [CHR 0x22] @ ''.*.'' @ ns @ [CHR 0x22] @ ''}) by (function_name)'') = ns"
  by (simp add: asked_namespace_def Let_def)

lemma demo_prometheus_answers: "prometheus_answers host (metrics (finished_calls ''fn'' counted_demo demo_counter_world)) {Itoa 200, Itoa 500}
    demo_time (PClient demo_prometheus) ()"
proof -
  have time: "json_number demo_time" "list_all is_number_char demo_time" "ParseFloat64 demo_time \<noteq> None"
    using json_number_digits ParseFloat_digits [of 1700000000] by (simp_all add: demo_time_def)
  have "PClient demo_prometheus req () = (Val (Some \<lparr>StatusCode = 200, RespHeader = (\<lambda>_. None), RespBody = Some (json_print (vector_json demo_time
          (filter (\<lambda>r. length ns < length (fst r) \<and> drop (length (fst r) - length ns) (fst r) = ns) scraped_demo)), None)\<rparr>, None), ())"
    if "values_Get (url_Query (RawQuery (URL req))) ''query'' = Some (''sum(gateway_function_invocation_total{function_name=~''
          @ [CHR 0x22] @ ''.*.'' @ ns @ [CHR 0x22] @ ''}) by (function_name)'')" for req ns
    unfolding demo_prometheus_def NewPrometheusQuery_def PrometheusQuery.select_convs that option.case asked_namespace_query Let_def ..
  with time demo_sums show ?thesis unfolding prometheus_answers_def by blast
qed

definition print_counts :: "unit FunctionRest listed list option \<Rightarrow> string + string" where
  "print_counts fs = Inr (concat (map (\<lambda>g. LName g @ (if LInvocationCount g = Finite 2 then ''2'' else if LInvocationCount g = Finite 0 then ''0'' else []))
     (case fs of None \<Rightarrow> [] | Some gs \<Rightarrow> gs)))"

lemma listed_counts_from_text_witness:
  "rw_body (rw (snd (AddMetricsHandler (json_list_codec no_time () (\<lambda>b. ''bad'') print_counts) listing
      (Fetch (json_list_codec no_time () (\<lambda>b. ''bad'') print_counts) demo_prometheus) (demo_scale_request ''GET'')
      \<lparr>rw = new_writer, hworld = ()\<rparr>))) = ''f2g0''"
proof -
  let ?cd = "json_list_codec no_time () (\<lambda>b. ''bad'') print_counts" and ?s = "\<lparr>rw = new_writer, hworld = ()\<rparr>"
  let ?f = "served_count ''f'' ''fn'' 3" and ?g = "served_count ''g'' ''ops'' 4"
  obtain t where t: "listing (demo_scale_request ''GET'') \<lparr>rw = new_writer, hworld = hworld ?s\<rparr> = (Val (), t)" "recorder_Code (rw t) = 200"
    "rw_body (rw t) = served_text [?f, ?g]"
    by (simp add: listing_def on_rw_run Write_run new_writer_def recorder_Code_def)
  have "Itoa 80 = ''80''" "plain_target ''p:80'' [] []" by code_simp+
  then have url: "plain_target (PHost demo_prometheus @ '':'' @ Itoa (PPort demo_prometheus)) [] []"
    by (simp add: demo_prometheus_def NewPrometheusQuery_def)
  have names: "metric_name ''fn'' ''/function/f'' = ''f.fn''" "metric_name ''fn'' ''/function/f.fn/x'' = ''f.fn''"
    "metric_name ''fn'' ''/function/g.ops'' = ''g.ops''" by code_simp+
  have calls: "\<forall>(u, st, d) \<in> set counted_demo. Itoa st \<in> {Itoa 200, Itoa 500} \<and> valid_utf8 (metric_name ''fn'' u)" "length counted_demo < 2 ^ 53"
    by (auto simp: counted_demo_def names)
  have spaces: "\<forall>f \<in> set [?f, ?g]. (SNamespace f \<noteq> [] \<or> ''fn'' \<noteq> []) \<and> CHR ''.'' \<notin> set (SNamespace f)" "CHR ''.'' \<notin> set ''fn''"
    by (simp_all add: served_count_def)
  have literal: "regexp_literal (SNamespace ?f)" by (simp add: regexp_literal_def served_count_def is_alnum_def)
  have g: "metrics demo_counter_world = BuildMetricsOptions" "finite {Itoa 200, Itoa 500}" by (simp_all add: demo_counter_world_def)
  obtain gs where gs: "AddMetricsHandler ?cd listing (Fetch ?cd demo_prometheus) (demo_scale_request ''GET'') ?s =
      (case print_counts (Some gs) of Inl _ \<Rightarrow> http_Error ''Error writing response after adding metrics'' 500
        | Inr out \<Rightarrow> reply_json out) (?s\<lparr>hworld := hworld t\<rparr>)"
    "list_all2 (\<lambda>f y. LName y = SName f \<and> LNamespace y = SNamespace f \<and> LReplicas y = SReplicas f
        \<and> LInvocationCount y = Finite (of_nat (if ends_in (SNamespace ?f) (SName f @ ''.'' @ SNamespace f)
            then calls_of ''fn'' counted_demo (SName f, SNamespace f) else 0))) [?f, ?g] gs"
    using listed_counts_from_text [where cd = ?cd and dt = no_time and ?t0.0 = "()" and msg = "\<lambda>b. ''bad''" and marshal = print_counts
        and dns = "''fn''" and cs = counted_demo and g = demo_counter_world and codes = "{Itoa 200, Itoa 500}"
        and handler = listing and r = "demo_scale_request ''GET''" and s = ?s and t = t and ?f0.0 = ?f and ?fs0.0 = "[?g]"
        and p = demo_prometheus and time = demo_time,
        OF refl g calls url _ t demo_functions_ok spaces literal] demo_prometheus_answers by auto
  have "calls_of ''fn'' counted_demo (''f'', ''fn'') = 2" by code_simp
  moreover have "ends_in ''fn'' ''f.fn''" "\<not> ends_in ''fn'' ''g.ops''" by (simp_all add: ends_in_drop)
  ultimately have "print_counts (Some gs) = Inr ''f2g0''" using gs(2) by (auto simp: list_all2_Cons1 print_counts_def served_count_def)
  with gs(1) show ?thesis by (simp add: reply_json_def go_simps new_writer_def)
qed

definition text_codec :: "unit FunctionRest watch_codec" where
  "text_codec = json_watch_codec no_time () (\<lambda>b. ''bad'') print_counts (\<lambda>u p. ''Basic'')"

definition text_exporter :: "unit FunctionRest Exporter" where
  "text_exporter = NewExporter None ''openfaas-fn''"

definition text_provider :: url where
  "text_provider = \<lparr>Scheme = ''http'', UHost = ''p:8080'', Path = ''/'', RawPath = [], RawQuery = []\<rparr>"

definition text_client :: "unit client" where
  "text_client req w = (Val (Some \<lparr>StatusCode = 200, RespHeader = (\<lambda>_. None), RespBody = Some
     (if Path (URL req) = ''/system/namespaces'' then json_print (JArr (map JStr [''fn'', ''bad'', ''ops'']))
      else (case demo_functions (case values_Get (url_Query (RawQuery (URL req))) ''namespace'' of None \<Rightarrow> [] | Some n \<Rightarrow> n) of
          None \<Rightarrow> ''not json'' | Some fs \<Rightarrow> served_text fs), None)\<rparr>, None), w)"

lemma text_client_lists: "lists_functions no_time host [''fn'', ''bad'', ''ops''] demo_functions text_client w"
proof -
  have bad: "json_parse ''not json'' = None" by code_simp
  have ok: "case demo_functions n of None \<Rightarrow> json_parse (case demo_functions n of None \<Rightarrow> ''not json'' | Some fs \<Rightarrow> served_text fs) = None
      | Some fs \<Rightarrow> (case demo_functions n of None \<Rightarrow> ''not json'' | Some fs \<Rightarrow> served_text fs) = served_text fs \<and> (\<forall>f \<in> set fs. served_ok no_time f)" for n
    using demo_functions_ok bad by (auto simp: demo_functions_def)
  show ?thesis
    unfolding lists_functions_def
  proof (intro allI impI conjI)
    fix req :: request and n
    assume "Path (URL req) = ''/system/functions'' \<and> values_Get (url_Query (RawQuery (URL req))) ''namespace'' = (if n = [] then None else Some n)"
    then have "text_client req w = (Val (Some \<lparr>StatusCode = 200, RespHeader = (\<lambda>_. None),
        RespBody = Some (case demo_functions n of None \<Rightarrow> ''not json'' | Some fs \<Rightarrow> served_text fs, None)\<rparr>, None), w)"
      by (auto simp: text_client_def)
    with ok [of n] show "\<exists>h c b. text_client req w = (Val (Some \<lparr>StatusCode = c, RespHeader = h, RespBody = Some (b, None)\<rparr>, None), w)
        \<and> (case demo_functions n of None \<Rightarrow> json_parse b = None | Some fs \<Rightarrow> b = served_text fs \<and> (\<forall>f \<in> set fs. served_ok no_time f))" by blast
  qed (simp add: text_client_def del: json_print.simps)
qed

lemma watched_replicas_from_text_witness:
  "\<exists>e'. watcher_tick text_codec text_client text_provider text_exporter () = (Val e', ())
    \<and> ServiceReplicasGauge (snd (Collect e' BuildMetricsOptions)) = [''f.fn'' \<mapsto> float64 3, ''g.ops'' \<mapsto> float64 4]"
proof -
  let ?ns = "[''fn'', ''bad'', ''ops'']"
  have h: "plain_target ''p:8080'' [] []" "''p:8080'' \<noteq> []" by code_simp+
  have "\<forall>n \<in> set ?ns. valid_utf8 n" "?ns = [] \<Longrightarrow> demo_functions (ExporterNamespace text_exporter) \<noteq> None" by simp_all
  from watched_replicas_from_text [OF text_codec_def text_client_lists text_provider_def h this, of "()"]
  obtain e' where tick: "watcher_tick text_codec text_client text_provider text_exporter () = (Val e', ())"
    and g: "ServiceReplicasGauge (snd (Collect e' BuildMetricsOptions)) = map_of (rev (map shown (concat
        (map (\<lambda>n. case demo_functions n of None \<Rightarrow> [] | Some fs \<Rightarrow> fs) ?ns))))" by auto
  have "map shown (concat (map (\<lambda>n. case demo_functions n of None \<Rightarrow> [] | Some fs \<Rightarrow> fs) ?ns)) = [(''f.fn'', float64 3), (''g.ops'', float64 4)]"
    by (simp add: demo_functions_def shown_def served_count_def)
  with g have "ServiceReplicasGauge (snd (Collect e' BuildMetricsOptions)) = map_of (rev [(''f.fn'', float64 3), (''g.ops'', float64 4)])" by (simp only:)
  also have "\<dots> = [''f.fn'' \<mapsto> float64 3, ''g.ops'' \<mapsto> float64 4]" by simp
  finally have "ServiceReplicasGauge (snd (Collect e' BuildMetricsOptions)) = [''f.fn'' \<mapsto> float64 3, ''g.ops'' \<mapsto> float64 4]" .
  with tick show ?thesis by blast
qed

end
