(* ===== verification/GatewayFlows.thy ===== *)
theory GatewayFlows
  imports Gateway JsonFlows
begin

text \<open>
  Management requests through the whole gateway, from the environment it was started with to the provider:
  the router, the guard, the handler, and the JSON texts on both sides.
\<close>

section \<open>Routes\<close>

text \<open>A request with the credentials that the gateway was configured with, whatever they are.\<close>

definition authorized :: "('w, 'x, 'p) deps \<Rightarrow> environment \<Rightarrow> request \<Rightarrow> bool" where
  "authorized d env r \<longleftrightarrow> (\<forall>creds. env ''basic_auth'' = ''true'' \<longrightarrow>
     d_credentials d (non_empty (env ''secret_mount_path'') ''/run/secrets/'') = Inr creds \<longrightarrow>
     request_BasicAuth r = Some (User creds, Password creds))"

lemma find_alert_route:
  "find_route (function_routes f @ map (\<lambda>(t, ms, h). (t, ms, g h)) (system_routes hs ui healthz home)) ''POST'' ''/system/alert''
    = Dispatch (g (Alert hs)) []"
  by (simp add: function_routes_def system_routes_def HasPrefix_def)

lemma find_scale_route:
  assumes "name \<noteq> []" "\<forall>c \<in> set name. name_char c"
  shows "find_route (function_routes f @ map (\<lambda>(t, ms, h). (t, ms, g h)) (system_routes hs ui healthz home)) ''POST'' (''/system/scale-function/'' @ name)
    = Dispatch (g (ScaleFunction hs)) [(''name'', name)]"
proof -
  have "match_pieces [Lit ''/system/scale-function/'', Name ''name''] (''/system/scale-function/'' @ name) = Some [(''name'', name)]"
    using match_name(1) [OF assms, of "[]" "''/system/scale-function/''" "''name''"] by simp
  then show ?thesis by (simp add: function_routes_def system_routes_def HasPrefix_def)
qed

lemma started_gateway:
  assumes "start d env = Inr gateway" "authorized d env r"
  obtains c queue where "Read env = Inr (s_config c)" "FunctionsProviderURL (s_config c) = Some (s_provider c)"
    "gateway = Router_ServeHTTP (gateway_routes d c queue)"
    "\<forall>creds. s_credentials c = Some creds \<longrightarrow> request_BasicAuth r = Some (User creds, Password creds)"
proof -
  obtain config provider cs logs queue where cfg: "Read env = Inr config" "FunctionsProviderURL config = Some provider"
    and cs: "UseBasicAuth config \<Longrightarrow> \<exists>c. cs = Some c \<and> d_credentials d (SecretMountPath config) = Inr c"
      "\<not> UseBasicAuth config \<Longrightarrow> cs = None"
    and g: "gateway = Router_ServeHTTP (gateway_routes d
      \<lparr>s_config = config, s_provider = provider, s_logs = logs, s_credentials = cs\<rparr> queue)"
    using start_Inr [OF assms(1)] by metis
  let ?c = "\<lparr>s_config = config, s_provider = provider, s_logs = logs, s_credentials = cs\<rparr>"
  have "UseBasicAuth config \<longleftrightarrow> env ''basic_auth'' = ''true''"
    "SecretMountPath config = non_empty (env ''secret_mount_path'') ''/run/secrets/''"
    using cfg(1) by (auto simp: Read_def Let_def ok_or_Inr parseBoolValue_def)
  with cs assms(2) have "request_BasicAuth r = Some (User creds, Password creds)" if "s_credentials ?c = Some creds" for creds
    using that by (cases "UseBasicAuth config") (auto simp: authorized_def)
  with that [of ?c queue] cfg g show thesis by simp
qed

text \<open>Past the router and the guard, a management request reaches its handler.\<close>

lemma handler_reached:
  assumes "\<forall>creds. s_credentials c = Some creds \<longrightarrow> request_BasicAuth r = Some (User creds, Password creds)"
    and "cleanPath (Path (URL r)) = Path (URL r)" "Method r = ''POST''"
  shows "Path (URL r) = ''/system/alert'' \<Longrightarrow> Router_ServeHTTP (gateway_routes d c queue) r
      = lift_handler (Alert (build_handlers d c queue)) (r\<lparr>RVars := Map.empty\<rparr>)"
    and "Path (URL r) = ''/system/scale-function/'' @ name \<Longrightarrow> name \<noteq> [] \<Longrightarrow> \<forall>c \<in> set name. name_char c \<Longrightarrow>
      Router_ServeHTTP (gateway_routes d c queue) r
      = lift_handler (ScaleFunction (build_handlers d c queue)) (r\<lparr>RVars := [''name'' \<mapsto> name]\<rparr>)"
proof -
  let ?hs = "case s_credentials c of None \<Rightarrow> build_handlers d c queue | Some creds \<Rightarrow> protect creds (build_handlers d c queue)"
  have a: "Alert ?hs (r\<lparr>RVars := v\<rparr>) = Alert (build_handlers d c queue) (r\<lparr>RVars := v\<rparr>)"
    and f: "ScaleFunction ?hs (r\<lparr>RVars := v\<rparr>) = ScaleFunction (build_handlers d c queue) (r\<lparr>RVars := v\<rparr>)" for v
    using assms(1) by (simp_all add: protect_def auth_gate split: option.split)
  show "Path (URL r) = ''/system/alert'' \<Longrightarrow> Router_ServeHTTP (gateway_routes d c queue) r
      = lift_handler (Alert (build_handlers d c queue)) (r\<lparr>RVars := Map.empty\<rparr>)"
    using assms(2,3) a [of Map.empty]
    by (simp add: Router_ServeHTTP_def Let_def gateway_routes_def find_alert_route lift_handler_def)
  show "Path (URL r) = ''/system/scale-function/'' @ name \<Longrightarrow> name \<noteq> [] \<Longrightarrow> \<forall>c \<in> set name. name_char c \<Longrightarrow>
      Router_ServeHTTP (gateway_routes d c queue) r
      = lift_handler (ScaleFunction (build_handlers d c queue)) (r\<lparr>RVars := [''name'' \<mapsto> name]\<rparr>)"
  proof -
    assume p: "Path (URL r) = ''/system/scale-function/'' @ name" and n: "name \<noteq> []" "\<forall>c \<in> set name. name_char c"
    have "find_route (gateway_routes d c queue) (Method r) (Path (URL r)) = Dispatch (lift_handler (ScaleFunction ?hs)) [(''name'', name)]"
      unfolding gateway_routes_def Let_def p assms(3) by (rule find_scale_route [OF n])
    with assms(2) f [of "[''name'' \<mapsto> name]"] show ?thesis by (simp add: Router_ServeHTTP_def Let_def lift_handler_def fun_eq_iff)
  qed
qed

section \<open>Scale requests\<close>

text \<open>
  C28: a management client changes a replica count. Through the whole gateway, an authorized POST of any JSON scale
  request to \<open>/system/scale-function/name\<close> is forwarded to the provider with its method, URL and header, and with a
  body that reads back as the request for the same function and namespace with the count brought
  between 1 and 5.
\<close>

theorem scale_request_through_gateway:
  assumes "start d env = Inr gateway" "d_unscale d = unmarshal_scale_request" "d_scale d = marshal_scale_request"
    and "authorized d env r" "Method r = ''POST''" "Path (URL r) = ''/system/scale-function/'' @ name"
    and "name \<noteq> []" "\<forall>c \<in> set name. name_char c" "cleanPath (Path (URL r)) = Path (URL r)"
    and "Body r = Some (b, None)" "unmarshal_scale_request b = Some q"
  shows "\<exists>c b' q'. Read env = Inr (s_config c) \<and> FunctionsProviderURL (s_config c) = Some (s_provider c)
    \<and> gateway r = lift_handler (forwarder d c [LoggingNotifier_Notify] (auth_injector c))
        (r\<lparr>RVars := [''name'' \<mapsto> name], Body := Some (b', None)\<rparr>)
    \<and> unmarshal_scale_request b' = Some q' \<and> ServiceName q' = ServiceName q \<and> ReqNamespace q' = ReqNamespace q
    \<and> unat (ReqReplicas q') = max 1 (min 5 (unat (ReqReplicas q)))"
proof -
  obtain c queue where c: "Read env = Inr (s_config c)" "FunctionsProviderURL (s_config c) = Some (s_provider c)"
    and g: "gateway = Router_ServeHTTP (gateway_routes d c queue)"
    and auth: "\<forall>creds. s_credentials c = Some creds \<longrightarrow> request_BasicAuth r = Some (User creds, Password creds)"
    by (rule started_gateway [OF assms(1,4)])
  let ?r = "r\<lparr>RVars := [''name'' \<mapsto> name]\<rparr>" and ?forward = "forwarder d c [LoggingNotifier_Notify] (auth_injector c)"
  have "Method ?r = ''POST''" "Body ?r = Some (b, None)" using assms(5,10) by simp_all
  from scale_endpoint_limits_text [OF this assms(11), of ?forward] obtain b' q' where
    b': "MakeHorizontalScalingHandler unmarshal_scale_request marshal_scale_request ?forward ?r = ?forward (?r\<lparr>Body := Some (b', None)\<rparr>)"
    and q': "unmarshal_scale_request b' = Some q'" "ServiceName q' = ServiceName q" "ReqNamespace q' = ReqNamespace q"
      "unat (ReqReplicas q') = max 1 (min 5 (unat (ReqReplicas q)))" by blast
  have "gateway r = lift_handler (ScaleFunction (build_handlers d c queue)) ?r"
    unfolding g using auth assms(5-9) by (intro handler_reached(2))
  also have "\<dots> = lift_handler ?forward (?r\<lparr>Body := Some (b', None)\<rparr>)"
    unfolding lift_handler_def build_handlers_def Let_def HandlerSet.select_convs assms(2,3) b' ..
  finally show ?thesis using c q' by (intro exI [of _ c] exI [of _ b'] exI [of _ q']) simp
qed

section \<open>Alerts\<close>

text \<open>One request to the gateway: the status of the answer and the world after it.\<close>

definition posted :: "'w gworld sstate handler \<Rightarrow> request \<Rightarrow> 'w gworld sstate \<Rightarrow> int \<times> 'w gworld sstate" where
  "posted gateway r w = (case gateway r \<lparr>rw = new_writer, hworld = w\<rparr> of (v, s) \<Rightarrow> (final_status (rw s), hworld s))"

text \<open>A wrapper without notifiers leaves the status and the world of the handler, after one look at the clock.\<close>

lemma wrapped_quietly:
  assumes "\<And>s. rw_sent (rw s) = None \<Longrightarrow> P (hworld s) \<Longrightarrow> \<exists>t. h r s = (Val (), t) \<and> final_status (rw t) = 200 \<and> Q (hworld s) (hworld t)"
    and "P (snd (Now env w))"
  shows "\<exists>t. MakeNotifierWrapper env h [] r \<lparr>rw = new_writer, hworld = w\<rparr> = (Val (), t) \<and> final_status (rw t) = 200
    \<and> Q (snd (Now env w)) (hworld t)"
proof -
  obtain start v where v: "Now env w = (start, v)" by fastforce
  let ?s = "\<lparr>rw = new_writer, hworld = v\<rparr>"
  obtain t where t: "h r ?s = (Val (), t)" "final_status (rw t) = 200" "Q v (hworld t)"
    using assms(1) [of ?s] assms(2) v by (auto simp: new_writer_def)
  have events: "new_writer\<lparr>rw_events := []\<rparr> = new_writer" "rw_events new_writer = []" by (simp_all add: new_writer_def)
  let ?t = "t\<lparr>rw := (rw t)\<lparr>rw_events := passed_on 0 (rw_events (rw t))\<rparr>\<rparr>"
  have "MakeNotifierWrapper env h [] r \<lparr>rw = new_writer, hworld = w\<rparr> = (Val (), ?t)"
    by (simp add: MakeNotifierWrapper_def bindp_run on_hworld_run time_Now_def v intercepted_def events t(1) Let_def retp_run)
  moreover have "final_status (rw ?t) = final_status (rw t)" by (simp add: final_status_def)
  ultimately show ?thesis using t(2,3) v by (intro exI [of _ ?t]) simp
qed

lemma alert_posted:
  assumes "start d env = Inr gateway" "d_alert d = unmarshal_alert" "d_codec d = json_codec dt t0 msg basic"
    and "authorized d env r" "Method r = ''POST''" "Path (URL r) = ''/system/alert''"
    and "Body r = Some (json_print (alert_json a), None)" "Alerts a = [i]"
    and "valid_utf8 (Receiver a)" "valid_utf8 (AlertStatus a)" "valid_alert i"
    and "Read env = Inr cfg" "FunctionsProviderURL cfg = Some provider" "provider_at provider host base"
    and "keeps_functions dt (remove_empty_port host) base fs rep (d_query_client d)" "\<And>w. rep (snd (Now (d_env d) w)) = rep w"
    and "(fn, ns) \<in> fs" "plain_name fn" "plain_name ns" "fn \<noteq> []" "GetNamespace (ConfigNamespace cfg) (FunctionName (Labels i)) = (fn, ns)"
    and "unat (rep (sworld w) (fn, ns)) < 2 ^ 64 - 5"
  shows "\<exists>w'. posted gateway r w = (200, w') \<and> rep (sworld w') = (rep (sworld w))((fn, ns) :=
      of_nat (if Status i = ''firing'' then min 5 (unat (rep (sworld w) (fn, ns)) + 1) else 1))"
proof -
  obtain c queue where c: "Read env = Inr (s_config c)" "FunctionsProviderURL (s_config c) = Some (s_provider c)"
    and g: "gateway = Router_ServeHTTP (gateway_routes d c queue)"
    and auth: "\<forall>creds. s_credentials c = Some creds \<longrightarrow> request_BasicAuth r = Some (User creds, Password creds)"
    by (rule started_gateway [OF assms(1,4)])
  have cfg: "s_config c = cfg" "s_provider c = provider" using c assms(12,13) by auto
  let ?x = "NewExternalServiceQuery provider (d_query_client d) (service_auth c)" and ?r = "r\<lparr>RVars := Map.empty\<rparr>"
  let ?h = "MakeAlertHandler unmarshal_alert (external_query (json_codec dt t0 msg basic) ?x) (ConfigNamespace cfg)"
  have "cleanPath ''/system/alert'' = ''/system/alert''" by code_simp
  then have "gateway r = lift_handler (Alert (build_handlers d c queue)) ?r"
    unfolding g using auth assms(5,6) by (intro handler_reached(1)) simp_all
  also have "\<dots> = lift_handler (MakeNotifierWrapper (d_env d) ?h []) ?r"
    by (simp add: build_handlers_def Let_def external_service_query_def assms(2,3) cfg)
  finally have gw: "gateway r = lift_handler (MakeNotifierWrapper (d_env d) ?h []) ?r" .
  have keeps: "keeps_functions dt (remove_empty_port host) base fs rep (ProxyClient ?x)" "provider_at (EURL ?x) host base"
    using assms(14,15) by (simp_all add: NewExternalServiceQuery_def)
  have body: "Body ?r = Some (json_print (alert_json a), None)" using assms(7) by simp
  let ?Q = "\<lambda>v v'. rep v' = (rep v)((fn, ns) := of_nat (if Status i = ''firing'' then min 5 (unat (rep v (fn, ns)) + 1) else 1))"
  have handled: "\<exists>t. ?h ?r s = (Val (), t) \<and> final_status (rw t) = 200 \<and> ?Q (hworld s) (hworld t)"
    if "rw_sent (rw s) = None" "unat (rep (hworld s) (fn, ns)) < 2 ^ 64 - 5" for s
    by (rule alert_text_handled [OF body assms(8-11) keeps assms(17-19,21,20) that(2,1)])
  have "unat (rep (snd (Now (d_env d) (sworld w))) (fn, ns)) < 2 ^ 64 - 5" using assms(16,22) by simp
  from wrapped_quietly [where h = ?h and r = ?r and env = "d_env d" and w = "sworld w"
      and P = "\<lambda>v. unat (rep v (fn, ns)) < 2 ^ 64 - 5" and Q = ?Q, OF handled this]
  obtain t where t: "MakeNotifierWrapper (d_env d) ?h [] ?r \<lparr>rw = new_writer, hworld = sworld w\<rparr> = (Val (), t)"
    "final_status (rw t) = 200" "?Q (sworld w) (hworld t)" unfolding assms(16) by blast
  then show ?thesis by (simp add: posted_def gw lift_handler_def)
qed

text \<open>
  C10: from the text of an alert to the provider's counts, through the whole gateway. An Alertmanager with the credentials
  posts the JSON of a firing alert again and again, for a function without labels whose name and
  namespace consist of letters, digits and \<open>-_.~\<close>, the namespace being in the alert or the default one. Each
  time it is answered 200, and the count of that function, which the gateway reads at the function's own path of the
  provider and writes as JSON to its own scale path, goes up by one until it is 5, while the counts of all other functions
  stay as they are. The provider is at a plain \<open>http\<close> host and path, and the gateway's clock does not change its counts.
\<close>

theorem firing_alert_text_converges:
  assumes "start d env = Inr gateway" "d_alert d = unmarshal_alert" "d_codec d = json_codec dt t0 msg basic"
    and "authorized d env r" "Method r = ''POST''" "Path (URL r) = ''/system/alert''"
    and "Body r = Some (json_print (alert_json a), None)" "Alerts a = [i]" "Status i = ''firing''"
    and "valid_utf8 (Receiver a)" "valid_utf8 (AlertStatus a)" "valid_utf8 (AlertName (Labels i))"
    and "Read env = Inr cfg" "FunctionsProviderURL cfg = Some provider" "provider_at provider host base"
    and "keeps_functions dt (remove_empty_port host) base fs rep (d_query_client d)" "\<And>w. rep (snd (Now (d_env d) w)) = rep w"
    and "(fn, ns) \<in> fs" "plain_name fn" "plain_name ns" "fn \<noteq> []"
    and "FunctionName (Labels i) = fn @ ''.'' @ ns \<and> CHR ''.'' \<notin> set ns
      \<or> FunctionName (Labels i) = fn \<and> CHR ''.'' \<notin> set fn \<and> ns = ConfigNamespace cfg"
    and "unat (rep (sworld w) (fn, ns)) \<le> 5"
  shows "rep (sworld (((snd \<circ> posted gateway r) ^^ n) w))
      = (rep (sworld w))((fn, ns) := of_nat (min 5 (unat (rep (sworld w) (fn, ns)) + n)))
    \<and> fst (posted gateway r (((snd \<circ> posted gateway r) ^^ n) w)) = 200"
proof -
  have dot: "valid_utf8 (CHR ''.'' # ns)" using plain_name_valid [OF assms(20)] by simp
  have "valid_utf8 (FunctionName (Labels i))"
    using assms(22) plain_name_valid [OF assms(19)] valid_utf8_append [OF plain_name_valid [OF assms(19)] dot] by auto
  then have valid: "valid_alert i" using assms(9,12) by (simp add: valid_alert_def)
  have name: "GetNamespace (ConfigNamespace cfg) (FunctionName (Labels i)) = (fn, ns)"
    using assms(22) by (auto simp: GetNamespace_correct)
  let ?c = "unat (rep (sworld w) (fn, ns))"
  have small: "unat (of_nat (min 5 k) :: uint64) = min 5 k" for k :: nat by (simp add: unat_of_nat take_bit_nat_eq_self)
  have once: "fst (posted gateway r v) = 200
      \<and> rep (sworld (snd (posted gateway r v))) = (rep (sworld v))((fn, ns) := of_nat (min 5 (unat (rep (sworld v) (fn, ns)) + 1)))"
    if "unat (rep (sworld v) (fn, ns)) \<le> 5" for v
  proof -
    have "unat (rep (sworld v) (fn, ns)) < 2 ^ 64 - 5" using that by simp
    from alert_posted [OF assms(1-8,10,11) valid assms(13-21) name this] assms(9) show ?thesis by auto
  qed
  have run: "rep (sworld (((snd \<circ> posted gateway r) ^^ n) w)) = (rep (sworld w))((fn, ns) := of_nat (min 5 (?c + n)))" for n
  proof (induction n)
    case 0
    have "of_nat (min 5 ?c) = rep (sworld w) (fn, ns)" using assms(23) by (simp add: min_absorb2)
    then show ?case by (simp add: fun_upd_idem)
  next
    case (Suc n)
    let ?v = "((snd \<circ> posted gateway r) ^^ n) w"
    have v: "unat (rep (sworld ?v) (fn, ns)) = min 5 (?c + n)" unfolding Suc.IH fun_upd_same by (rule small)
    have step: "min 5 (min 5 (?c + n) + 1) = min 5 (?c + Suc n)" by simp
    have "unat (rep (sworld ?v) (fn, ns)) \<le> 5" unfolding v by simp
    from once [OF this, THEN conjunct2] have "rep (sworld (snd (posted gateway r ?v)))
      = (rep (sworld w))((fn, ns) := of_nat (min 5 (?c + Suc n)))" by (simp only: Suc.IH fun_upd_same small step fun_upd_upd)
    moreover have "((snd \<circ> posted gateway r) ^^ Suc n) w = snd (posted gateway r ?v)" by simp
    ultimately show ?case by (simp only:)
  qed
  have "unat (rep (sworld (((snd \<circ> posted gateway r) ^^ n) w)) (fn, ns)) \<le> 5"
    unfolding run fun_upd_same small by simp
  with once run show ?thesis by blast
qed

section \<open>Witnesses\<close>

text \<open>A gateway with basic auth in front of a provider whose world is the counts of its functions.\<close>

definition count_client :: "(string \<times> string \<Rightarrow> uint64) gworld client" where
  "count_client req = on_net (counting_client req)"

definition json_deps :: "(string \<times> string \<Rightarrow> uint64, unit, string) deps" where
  "json_deps = \<lparr>d_env = \<lparr>Now = (\<lambda>w. (0, w)), Sleep = (\<lambda>d w. w)\<rparr>, d_version = ''1.0'', d_transport = (\<lambda>_. refusing),
     d_default = refusing, d_deadline = (\<lambda>_. refusing), d_query_client = count_client, d_prometheus = refusing,
     d_outgoing = Header, d_uuid = retp ''id'', d_connect = (\<lambda>_ _ _ _. Inl ''no queue''), d_assets = (\<lambda>r. retp ()),
     d_codec = json_codec no_time () (\<lambda>b. ''bad'') basic_value, d_list = demo_list_codec, d_info = demo_info,
     d_alert = unmarshal_alert, d_unscale = unmarshal_scale_request, d_scale = marshal_scale_request,
     d_credentials = (\<lambda>p. if p = ''/run/secrets/'' then Inr demo_credentials else Inl ''no such file'')\<rparr>"

definition json_request :: "string \<Rightarrow> string \<Rightarrow> request" where
  "json_request path b = \<lparr>Method = ''POST'', URL = \<lparr>Scheme = [], UHost = [], Path = path, RawPath = [], RawQuery = []\<rparr>,
     Header = [''Authorization'' \<mapsto> [basic_value (User demo_credentials) (Password demo_credentials)]],
     RHost = ''gw'', RemoteAddr = ''1.2.3.4:5'', Body = Some (b, None), RVars = (\<lambda>_. None)\<rparr>"

lemma json_start: obtains gateway where "start json_deps demo_gateway_env = Inr gateway"
proof -
  have "\<exists>gateway. start json_deps demo_gateway_env = Inr gateway"
    unfolding start_iff using demo_Read by (auto simp: json_deps_def)
  then show thesis using that by blast
qed

lemma json_authorized: "authorized json_deps demo_gateway_env (json_request path b)"
proof -
  have "Header (json_request path b) ''Authorization'' = Some [basic_value (User demo_credentials) (Password demo_credentials)]"
    by (simp add: json_request_def)
  from request_BasicAuth_value [OF this] have "request_BasicAuth (json_request path b) = Some (User demo_credentials, Password demo_credentials)"
    by (simp add: demo_credentials_def cut_at_def)
  then show ?thesis
    by (simp add: authorized_def demo_gateway_env_def Config.demo_env_def non_empty_def json_deps_def)
qed

lemma scale_request_through_gateway_witness:
  "\<exists>gateway c b' q'. start json_deps demo_gateway_env = Inr gateway
    \<and> gateway (json_request ''/system/scale-function/f'' (marshal_scale_request \<lparr>ServiceName = ''f'', ReqReplicas = 200, ReqNamespace = ''n''\<rparr>))
      = lift_handler (forwarder json_deps c [LoggingNotifier_Notify] (auth_injector c))
        ((json_request ''/system/scale-function/f'' [])\<lparr>RVars := [''name'' \<mapsto> ''f''], Body := Some (b', None)\<rparr>)
    \<and> unmarshal_scale_request b' = Some q' \<and> ServiceName q' = ''f'' \<and> unat (ReqReplicas q') = 5"
proof -
  let ?q = "\<lparr>ServiceName = ''f'', ReqReplicas = 200, ReqNamespace = ''n''\<rparr>"
  let ?r = "json_request ''/system/scale-function/f'' (marshal_scale_request ?q)"
  obtain gateway where g: "start json_deps demo_gateway_env = Inr gateway" by (rule json_start)
  have q: "unmarshal_scale_request (marshal_scale_request ?q) = Some ?q" by (rule unmarshal_marshal_scale_request) simp_all
  have p: "Method ?r = ''POST''" "Path (URL ?r) = ''/system/scale-function/'' @ ''f''" "Body ?r = Some (marshal_scale_request ?q, None)"
    by (simp_all add: json_request_def)
  have n: "''f'' \<noteq> []" "\<forall>c \<in> set ''f''. name_char c" "cleanPath ''/system/scale-function/f'' = ''/system/scale-function/f''" by code_simp+
  have clean: "cleanPath (Path (URL ?r)) = Path (URL ?r)" using n(3) p(2) by simp
  have codecs: "d_unscale json_deps = unmarshal_scale_request" "d_scale json_deps = marshal_scale_request" by (simp_all add: json_deps_def)
  from scale_request_through_gateway [OF g codecs json_authorized p(1,2) n(1,2) clean p(3) q]
  obtain c b' q' where w: "gateway ?r = lift_handler (forwarder json_deps c [LoggingNotifier_Notify] (auth_injector c))
      (?r\<lparr>RVars := [''name'' \<mapsto> ''f''], Body := Some (b', None)\<rparr>)"
    "unmarshal_scale_request b' = Some q'" "ServiceName q' = ''f''" "unat (ReqReplicas q') = 5" by auto
  have "?r\<lparr>RVars := v, Body := w\<rparr> = (json_request ''/system/scale-function/f'' [])\<lparr>RVars := v, Body := w\<rparr>" for v w
    by (simp add: json_request_def)
  with w(1) have "gateway ?r = lift_handler (forwarder json_deps c [LoggingNotifier_Notify] (auth_injector c))
      ((json_request ''/system/scale-function/f'' [])\<lparr>RVars := [''name'' \<mapsto> ''f''], Body := Some (b', None)\<rparr>)" by (simp only:)
  with g w(2-4) show ?thesis by blast
qed

definition fired :: PrometheusAlert where
  "fired = \<lparr>AlertStatus = ''firing'', Receiver = ''r'', Alerts = [demo_alert]\<rparr>"

lemma count_client_keeps:
  assumes "\<forall>(fn, ns) \<in> fs. valid_utf8 fn \<and> valid_utf8 ns"
  shows "keeps_functions no_time host ''/'' fs net count_client"
proof -
  note k = counting_keeps [OF assms, of host, unfolded keeps_functions_def id_apply]
  have run: "count_client req w = (case counting_client req (net w) of (v, x) \<Rightarrow> (v, w\<lparr>net := x\<rparr>))" for req w
    by (simp add: count_client_def on_net_run)
  show ?thesis
    unfolding keeps_functions_def
  proof (intro ballI, unfold split_paired_all split_conv, intro allI impI conjI)
    fix fn ns and req :: request and w :: "(string \<times> string \<Rightarrow> uint64) gworld"
    assume a: "(fn, ns) \<in> fs" "UHost (URL req) = host" "values_Get (url_Query (RawQuery (URL req))) ''namespace'' = Some ns"
      "Method req = ''GET'' \<and> Path (URL req) = ''/'' @ ''system/function/'' @ fn"
    with k obtain h f where "counting_client req (net w)
        = (Val (Some \<lparr>StatusCode = 200, RespHeader = h, RespBody = Some (json_print (served_json f), None)\<rparr>, None), net w)"
      "served_ok no_time f" "unlabelled f" "SName f = fn" "SNamespace f = ns" "SReplicas f = net w (fn, ns)" by blast
    then show "\<exists>h f. count_client req w = (Val (Some \<lparr>StatusCode = 200, RespHeader = h, RespBody = Some (json_print (served_json f), None)\<rparr>, None), w)
        \<and> served_ok no_time f \<and> unlabelled f \<and> SName f = fn \<and> SNamespace f = ns \<and> SReplicas f = net w (fn, ns)"
      by (intro exI [of _ h] exI [of _ f]) (simp add: run del: json_print.simps)
  next
    fix fn ns and req :: request and w :: "(string \<times> string \<Rightarrow> uint64) gworld" and n :: uint64
    assume a: "(fn, ns) \<in> fs" "UHost (URL req) = host" "values_Get (url_Query (RawQuery (URL req))) ''namespace'' = Some ns"
      "Method req = ''POST'' \<and> Path (URL req) = ''/'' @ ''system/scale-function/'' @ fn
        \<and> Body req = Some (json_print (JObj [(''serviceName'', JStr fn), (''replicas'', JNum (nat_digits (unat n)))]), None)"
    with k obtain x h b where "counting_client req (net w) = (Val (Some \<lparr>StatusCode = 202, RespHeader = h, RespBody = b\<rparr>, None), x)"
      "x = (net w)((fn, ns) := n)" by blast
    then show "\<exists>w' h b. count_client req w = (Val (Some \<lparr>StatusCode = 202, RespHeader = h, RespBody = b\<rparr>, None), w')
        \<and> net w' = (net w)((fn, ns) := n)"
      by (simp add: run)
  qed
qed

definition count_world :: "(string \<times> string \<Rightarrow> uint64) gworld sstate" where
  "count_world = \<lparr>fcache = NewFunctionCache 250, calls = [], sworld = \<lparr>metrics = BuildMetricsOptions, loglines = [],
     net = (\<lambda>_. 2)((''f'', ''ns'') := 1)\<rparr>\<rparr>"

lemma firing_alert_text_converges_witness:
  "\<exists>gateway. start json_deps demo_gateway_env = Inr gateway
    \<and> net (sworld (((snd \<circ> posted gateway (json_request ''/system/alert'' (json_print (alert_json fired)))) ^^ 3) count_world))
      = (\<lambda>_. 2)((''f'', ''ns'') := 4)"
proof -
  obtain gateway where g: "start json_deps demo_gateway_env = Inr gateway" by (rule json_start)
  let ?provider = "\<lparr>Scheme = ''http'', UHost = ''p:8080'', Path = ''/'', RawPath = [], RawQuery = []\<rparr>"
  obtain cfg where cfg: "Read demo_gateway_env = Inr cfg" using demo_Read by blast
  have provider: "FunctionsProviderURL cfg = Some ?provider" "ConfigNamespace cfg = []"
    using cfg demo_env_ok(2) unfolding Read_def Let_def read_int_cases read_url_cases
    by (auto simp: demo_gateway_env_def Config.demo_env_def split: if_splits)
  have "plain_path ''/''" "plain_target ''p:8080'' [] []" by code_simp+
  then have at: "provider_at ?provider ''p:8080'' ''/''" by (simp add: provider_at_def)
  let ?fs = "{(''f'', ''ns''), (''g'', ''ns'')}"
  have keeps: "keeps_functions no_time (remove_empty_port ''p:8080'') ''/'' ?fs net (d_query_client json_deps)"
    by (simp add: json_deps_def, rule count_client_keeps) simp
  have names: "(''f'', ''ns'') \<in> ?fs" "plain_name ''f''" "plain_name ''ns''" "''f'' \<noteq> []"
    by (simp_all add: plain_name_def query_plain_def is_alnum_def)
  have codecs: "d_alert json_deps = unmarshal_alert" "d_codec json_deps = json_codec no_time () (\<lambda>b. ''bad'') basic_value"
    and clock: "\<And>w. net (snd (Now (d_env json_deps) w)) = net w"
    by (simp_all add: json_deps_def)
  let ?r = "json_request ''/system/alert'' (json_print (alert_json fired))"
  have r: "Method ?r = ''POST''" "Path (URL ?r) = ''/system/alert''" "Body ?r = Some (json_print (alert_json fired), None)"
    by (simp_all add: json_request_def)
  have a: "Alerts fired = [demo_alert]" "Status demo_alert = ''firing''" "valid_utf8 (Receiver fired)" "valid_utf8 (AlertStatus fired)"
    "valid_utf8 (AlertName (Labels demo_alert))"
    and n: "FunctionName (Labels demo_alert) = ''f'' @ ''.'' @ ''ns'' \<and> CHR ''.'' \<notin> set ''ns''
      \<or> FunctionName (Labels demo_alert) = ''f'' \<and> CHR ''.'' \<notin> set ''f'' \<and> ''ns'' = ConfigNamespace cfg"
    by (simp_all add: fired_def demo_alert_def)
  have "unat (net (sworld count_world) (''f'', ''ns'')) \<le> 5" by (simp add: count_world_def)
  from firing_alert_text_converges [OF g codecs json_authorized r a cfg provider(1) at keeps clock names n this, of 3] g
  show ?thesis by (auto simp: count_world_def)
qed

end
