(* ===== verification/Goroutine.thy ===== *)
theory Goroutine
  imports FunctionScaler
begin

text \<open>
  The code of a goroutine of package \<open>scaling\<close> as data, so that goroutines can be interleaved: a
  tree of the operations on shared things (the clock, the cache, \<open>singleflight.Group.Do\<close>), each
  with what the goroutine does with the outcome. \<open>Scale\<close> and \<open>CachedFunctionQuery.Get\<close> are written
  once more in this form, with the \<open>interface{}\<close> values of the single flight and the type
  assertions on them; run by one goroutine alone they are the programs of theories FunctionScaler
  and FunctionQuery.
\<close>

section \<open>Code\<close>

text \<open>The functions that are passed to \<open>Do\<close>, by what they ask of the provider.\<close>

datatype op =
    Query string string
  | Resize string string uint64

text \<open>What \<open>Do\<close> returns: an \<open>interface{}\<close> that is nil or a response, and an error.\<close>

type_synonym flown = "ServiceQueryResponse option \<times> goerror"

datatype 'r code =
    Return 'r
  | Throw string
  | GetTime "instant \<Rightarrow> 'r code"
  | SleepFor duration "'r code"
  | CacheGet string string "ServiceQueryResponse \<times> bool \<Rightarrow> 'r code"
  | CacheSet string string ServiceQueryResponse "'r code"
  | Flight string op "flown \<Rightarrow> 'r code"

primrec bindc :: "'a code \<Rightarrow> ('a \<Rightarrow> 'r code) \<Rightarrow> 'r code" where
  "bindc (Return x) k = k x"
| "bindc (Throw m) k = Throw m"
| "bindc (GetTime c) k = GetTime (\<lambda>t. bindc (c t) k)"
| "bindc (SleepFor d c) k = SleepFor d (bindc c k)"
| "bindc (CacheGet fn ns c) k = CacheGet fn ns (\<lambda>x. bindc (c x) k)"
| "bindc (CacheSet fn ns q c) k = CacheSet fn ns q (bindc c k)"
| "bindc (Flight key p c) k = Flight key p (\<lambda>x. bindc (c x) k)"

text \<open>The type assertion \<open>x.(ServiceQueryResponse)\<close>.\<close>

definition asserted :: "ServiceQueryResponse option \<Rightarrow> (ServiceQueryResponse \<Rightarrow> 'r code) \<Rightarrow> 'r code" where
  "asserted x k = (case x of None \<Rightarrow> Throw ''interface conversion: interface {} is nil''
     | Some q \<Rightarrow> k q)"

text \<open>Running the function that was passed to \<open>Do\<close>.\<close>

fun exec_op :: "'s ServiceQuery \<Rightarrow> op \<Rightarrow> ('s, flown) prog" where
  "exec_op Q (Query fn ns) = bindp (GetReplicas Q fn ns) (\<lambda>(q, err). retp (Some q, err))"
| "exec_op Q (Resize fn ns n) =
     bindp (SetReplicas Q fn ns n) (\<lambda>err. retp (None, case err of None \<Rightarrow> None
       | Some e \<Rightarrow> Some (''unable to scale function ['' @ fn @ ''], err: '' @ e)))"

text \<open>A goroutine that runs alone.\<close>

record 's runtime =
  clock :: "'s Env"
  cacher :: "'s FunctionCacher"
  provider :: "'s ServiceQuery"

primrec run_code :: "'s runtime \<Rightarrow> 'r code \<Rightarrow> ('s, 'r) prog" where
  "run_code rt (Return x) = retp x"
| "run_code rt (Throw m) = panicp m"
| "run_code rt (GetTime c) = bindp (time_Now (clock rt)) (\<lambda>t. run_code rt (c t))"
| "run_code rt (SleepFor d c) = bindp (time_Sleep (clock rt) d) (\<lambda>_. run_code rt c)"
| "run_code rt (CacheGet fn ns c) = bindp (CGet (cacher rt) fn ns) (\<lambda>x. run_code rt (c x))"
| "run_code rt (CacheSet fn ns q c) = bindp (CSet (cacher rt) fn ns q) (\<lambda>_. run_code rt c)"
| "run_code rt (Flight key p c) = bindp (exec_op (provider rt) p) (\<lambda>x. run_code rt (c x))"

lemma run_bindc: "run_code rt (bindc c k) = bindp (run_code rt c) (\<lambda>x. run_code rt (k x))"
  by (induction c) (simp_all add: bindp_assoc, simp add: fun_eq_iff bindp_run panicp_run)

section \<open>Retry\<close>

fun retry_code :: "(int \<Rightarrow> goerror code) \<Rightarrow> duration \<Rightarrow> int \<Rightarrow> nat \<Rightarrow> goerror \<Rightarrow> goerror code" where
  "retry_code r interval i 0 err = Return err"
| "retry_code r interval i (Suc n) err =
     bindc (r i) (\<lambda>res.
       case res of
         Some e \<Rightarrow> SleepFor interval (retry_code r interval (i + 1) n (Some e))
       | None \<Rightarrow> Return None)"

definition Retry_code :: "(int \<Rightarrow> goerror code) \<Rightarrow> int \<Rightarrow> duration \<Rightarrow> goerror code" where
  "Retry_code r attempts interval = retry_code r interval 0 (nat attempts) None"

lemma run_retry_code:
  assumes "\<And>i. run_code rt (r i) = p i"
  shows "run_code rt (retry_code r interval i n err) = retry_loop (clock rt) p interval i n err"
  by (induction n arbitrary: i err)
    (auto simp: run_bindc assms fun_eq_iff bindp_run split: go.split option.split prod.split)

section \<open>Scaling from zero\<close>

definition result_code :: "instant \<Rightarrow> goerror \<Rightarrow> bool \<Rightarrow> bool \<Rightarrow> FunctionScaleResult code" where
  "result_code start err available found =
     GetTime (\<lambda>t. Return \<lparr>Available = available, Error = err, Found = found, Duration = t - start\<rparr>)"

definition attempt_code :: "string \<Rightarrow> string \<Rightarrow> uint64 \<Rightarrow> int \<Rightarrow> goerror code" where
  "attempt_code functionName namespace minReplicas attempt =
     Flight (getKey functionName namespace) (Query functionName namespace) (\<lambda>(res, err).
       case err of
         Some e \<Rightarrow> Return (Some e)
       | None \<Rightarrow>
           asserted res (\<lambda>queryResponse.
             CacheSet functionName namespace queryResponse
               (if Replicas queryResponse > 0 then Return None
                else
                  Flight (setKey functionName namespace) (Resize functionName namespace minReplicas)
                    (\<lambda>(_, err). case err of Some e \<Rightarrow> Return (Some e) | None \<Rightarrow> Return None))))"

fun poll_code :: "'s ScalingConfig \<Rightarrow> string \<Rightarrow> string \<Rightarrow> instant \<Rightarrow> nat \<Rightarrow> FunctionScaleResult code" where
  "poll_code cfg functionName namespace start 0 = result_code start None True True"
| "poll_code cfg functionName namespace start (Suc n) =
     Flight (getKey functionName namespace) (Query functionName namespace) (\<lambda>(res, err).
       asserted res (\<lambda>queryResponse.
         (case err of
            Some e \<Rightarrow> GetTime (\<lambda>t. Return \<lparr>Available = False, Error = Some e, Found = True, Duration = t - start\<rparr>)
          | None \<Rightarrow> CacheSet functionName namespace queryResponse (GetTime (\<lambda>t.
              if AvailableReplicas queryResponse > 0
              then Return \<lparr>Available = True, Error = None, Found = True, Duration = t - start\<rparr>
              else SleepFor (FunctionPollInterval cfg) (poll_code cfg functionName namespace start n))))))"

definition wait_code :: "'s ScalingConfig \<Rightarrow> string \<Rightarrow> string \<Rightarrow> instant \<Rightarrow> ServiceQueryResponse
    \<Rightarrow> FunctionScaleResult code" where
  "wait_code cfg functionName namespace start queryResponse =
     bindc (if Replicas queryResponse = 0
            then Retry_code (attempt_code functionName namespace (min_replicas_of queryResponse))
                   (go_int (SetScaleRetries cfg)) (FunctionPollInterval cfg)
            else Return None) (\<lambda>scaleResult.
       case scaleResult of
         Some e \<Rightarrow> result_code start (Some e) False True
       | None \<Rightarrow> poll_code cfg functionName namespace start (nat (go_int (MaxPollCount cfg))))"

definition Scale_code :: "'s ScalingConfig \<Rightarrow> string \<Rightarrow> string \<Rightarrow> FunctionScaleResult code" where
  "Scale_code cfg functionName namespace =
     GetTime (\<lambda>start.
     CacheGet functionName namespace (\<lambda>(cachedResponse, hit).
       if hit \<and> AvailableReplicas cachedResponse > 0 then result_code start None True True
       else
         Flight (getKey functionName namespace) (Query functionName namespace) (\<lambda>(res, err).
           case (err, res) of
             (Some e, _) \<Rightarrow> result_code start (Some e) False False
           | (None, None) \<Rightarrow> result_code start (Some ''empty response from server'') False False
           | (None, Some queryResponse) \<Rightarrow>
               if AvailableReplicas queryResponse > 0 then result_code start None True True
               else CacheSet functionName namespace queryResponse
                      (wait_code cfg functionName namespace start queryResponse))))"

section \<open>Queries through the cache\<close>

definition Get_code :: "string \<Rightarrow> string \<Rightarrow> (ServiceQueryResponse \<times> goerror) code" where
  "Get_code fn ns =
     CacheGet fn ns (\<lambda>(query, hit).
       if \<not> hit then
         Flight (getKey fn ns) (Query fn ns) (\<lambda>(queryResponse, err).
           let reread = CacheGet fn ns (\<lambda>(query, hit).
                 if \<not> hit
                 then Return (empty_response, Some (''error with cache key: '' @ fn @ ''.'' @ ns))
                 else Return (query, None))
           in case err of
                Some e \<Rightarrow> Return (empty_response, Some e)
              | None \<Rightarrow> (case queryResponse of None \<Rightarrow> reread | Some q \<Rightarrow> CacheSet fn ns q reread))
       else Return (query, None))"

section \<open>Alone, the code is the sequential program\<close>

lemmas code_run = bindp_assoc bindp_run retp_run time_Since_def fun_eq_iff

lemma run_result_code: "run_code rt (result_code start err a f) = scale_result (clock rt) start err a f"
  by (simp add: result_code_def scale_result_def time_Since_def bindp_assoc)

lemma run_attempt_code:
  assumes "cacher rt = ScalerCache f" "provider rt = ConfigServiceQuery (Config f)"
  shows "run_code rt (attempt_code fn ns mn i) = scale_attempt f fn ns mn i"
  using assms
  by (auto simp: attempt_code_def scale_attempt_def asserted_def code_run split: go.split option.split prod.split)

lemma run_poll_code:
  assumes "cacher rt = ScalerCache f" "provider rt = ConfigServiceQuery (Config f)"
  shows "run_code rt (poll_code (Config f) fn ns start n) = poll_loop (clock rt) f fn ns start n"
  by (induction n)
    (use assms in \<open>auto simp: run_result_code asserted_def code_run split: go.split option.split prod.split\<close>)

lemma run_wait_code:
  assumes "cacher rt = ScalerCache f" "provider rt = ConfigServiceQuery (Config f)"
  shows "run_code rt (wait_code (Config f) fn ns start q) = scale_and_wait (clock rt) f fn ns start q"
  using run_retry_code [where r = "attempt_code fn ns (min_replicas_of q)", OF run_attempt_code [OF assms]]
  by (auto simp: wait_code_def scale_and_wait_def run_bindc Retry_code_def Retry_def run_result_code
      run_poll_code [OF assms] code_run split: go.split option.split prod.split)

theorem Scale_code_alone:
  "run_code \<lparr>clock = env, cacher = ScalerCache f, provider = ConfigServiceQuery (Config f)\<rparr>
     (Scale_code (Config f) fn ns) = Scale env f fn ns"
  by (auto simp: Scale_code_def Scale_def run_result_code run_wait_code code_run
      split: go.split option.split prod.split)

theorem Get_code_alone:
  "run_code \<lparr>clock = env, cacher = cache c, provider = serviceQuery c\<rparr> (Get_code fn ns)
     = CachedFunctionQuery_Get c fn ns"
  by (auto simp: Get_code_def CachedFunctionQuery_Get_def code_run split: go.split option.split prod.split)

section \<open>What a goroutine asks for, whatever others do\<close>

text \<open>
  \<open>asks_rightly fn ns c learnt\<close>: on every path of the code \<open>c\<close>, with any values for the clock, the cache and the
  calls that are shared with others, the goroutine only asks for its own function under the keys of that
  function, and it asks for replicas only when the last thing it learnt, \<open>learnt\<close>, is an answer that none
  are wanted, and then for at least one.
\<close>

primrec asks_rightly :: "string \<Rightarrow> string \<Rightarrow> 'r code \<Rightarrow> ServiceQueryResponse option \<Rightarrow> bool" where
  "asks_rightly fn ns (Return x) learnt \<longleftrightarrow> True"
| "asks_rightly fn ns (Throw m) learnt \<longleftrightarrow> True"
| "asks_rightly fn ns (GetTime c) learnt \<longleftrightarrow> (\<forall>t. asks_rightly fn ns (c t) learnt)"
| "asks_rightly fn ns (SleepFor d c) learnt \<longleftrightarrow> asks_rightly fn ns c None"
| "asks_rightly fn ns (CacheGet f n c) learnt \<longleftrightarrow> f = fn \<and> n = ns \<and> (\<forall>x. asks_rightly fn ns (c x) None)"
| "asks_rightly fn ns (CacheSet f n q c) learnt \<longleftrightarrow> f = fn \<and> n = ns \<and> learnt = Some q \<and> asks_rightly fn ns c learnt"
| "asks_rightly fn ns (Flight key p c) learnt \<longleftrightarrow>
     (case p of
        Query f n \<Rightarrow> key = getKey fn ns \<and> f = fn \<and> n = ns
          \<and> (\<forall>x. asks_rightly fn ns (c x) (if snd x = None then fst x else None))
      | Resize f n k \<Rightarrow> key = setKey fn ns \<and> f = fn \<and> n = ns \<and> k > 0
          \<and> (\<exists>q. learnt = Some q \<and> Replicas q = 0) \<and> (\<forall>x. asks_rightly fn ns (c x) None))"

lemma asks_bindc:
  assumes "asks_rightly fn ns c learnt" "\<And>r learnt. asks_rightly fn ns (k r) learnt"
  shows "asks_rightly fn ns (bindc c k) learnt"
  using assms(1)
proof (induction c arbitrary: learnt)
  case (Flight key p c)
  have "asks_rightly fn ns (bindc (c x) k) l" if "asks_rightly fn ns (c x) l" for x l
    using Flight.IH [OF rangeI that] .
  with Flight.prems show ?case by (cases p) (simp_all del: split_paired_All)
qed (auto simp: assms(2))

lemma asks_result: "asks_rightly fn ns (result_code start err a f) learnt"
  by (simp add: result_code_def)

lemma asks_attempt: "n > 0 \<Longrightarrow> asks_rightly fn ns (attempt_code fn ns n i) learnt"
  by (auto simp: attempt_code_def asserted_def word_gt_0 split: option.splits)

lemma asks_retry:
  assumes "\<And>i learnt. asks_rightly fn ns (r i) learnt"
  shows "asks_rightly fn ns (retry_code r interval i n err) learnt"
  by (induction n arbitrary: i err learnt) (auto intro!: asks_bindc assms split: option.split)

lemma asks_poll: "asks_rightly fn ns (poll_code cfg fn ns start n) learnt"
  by (induction n arbitrary: learnt) (auto simp: asks_result asserted_def split: option.splits)

text \<open>
  C2: whatever other requests do, a request, be it to scale or to query a function, asks only for this function, and
  for replicas only directly after its own query was answered that none are wanted, and then for at least
  one; what it stores in the cache is what it was last answered.
\<close>

theorem code_asks_rightly:
  "asks_rightly fn ns (Scale_code cfg fn ns) None \<and> asks_rightly fn ns (Get_code fn ns) None"
proof -
  have mn: "min_replicas_of q > 0" for q by (simp add: min_replicas_of_def)
  have "asks_rightly fn ns (wait_code cfg fn ns start q) learnt" for start q learnt
    unfolding wait_code_def Retry_code_def
    by (rule asks_bindc) (auto intro!: asks_retry asks_attempt [OF mn] simp: asks_result asks_poll split: option.split)
  then have "asks_rightly fn ns (Scale_code cfg fn ns) None"
    by (auto simp: Scale_code_def asks_result split: option.splits)
  moreover have "asks_rightly fn ns (Get_code fn ns) None"
    by (auto simp: Get_code_def Let_def split: option.splits)
  ultimately show ?thesis by blast
qed

end
