(* ===== verification/Flights.thy ===== *)
theory Flights
  imports Goroutine
begin

text \<open>
  Package \<open>golang.org/x/sync/singleflight\<close> as it is vendored, and goroutines that share one group,
  one cache and one provider. A critical section of the group's mutex is one step, and so is the
  call of the function that was passed to \<open>Do\<close>, whose effect takes place at one instant; any other
  goroutine may run in between. \<open>runtime.Goexit\<close>, \<open>DoChan\<close> and \<open>Forget\<close> are not used by the gateway.
\<close>

section \<open>State\<close>

text \<open>
  A \<open>call\<close> object: \<open>pending\<close> is the wait group (one until \<open>Done\<close>), \<open>outcome\<close> the fields \<open>val\<close> and
  \<open>err\<close>, unset before the function returned, with a panic for a \<open>panicError\<close>. \<open>fkey\<close> is a history
  variable: the key the object was made for.
\<close>

record flight =
  pending :: bool
  outcome :: "flown go option"
  dups :: nat
  fkey :: string

text \<open>
  Where a goroutine stands: in its own code, in \<open>doCall\<close> before and after the function ran, waiting
  for the call of another goroutine, or at its end.
\<close>

datatype 'r thread =
    Running "'r code"
  | Leading string nat op "flown \<Rightarrow> 'r code"
  | Finishing string nat "flown \<Rightarrow> 'r code"
  | Waiting string nat "flown \<Rightarrow> 'r code"
  | Returned "'r go"

text \<open>\<open>jobs\<close> is a history variable: the function and namespace a goroutine was started for.\<close>

record ('s, 'r) system =
  shared :: 's
  inflight :: "string \<Rightarrow> nat option"
  flights :: "nat \<Rightarrow> flight option"
  fresh :: nat
  threads :: "nat \<Rightarrow> 'r thread option"
  jobs :: "nat \<Rightarrow> (string \<times> string) option"

definition new_system :: "'s \<Rightarrow> ('s, 'r) system" where
  "new_system s = \<lparr>shared = s, inflight = Map.empty, flights = Map.empty, fresh = 0,
     threads = Map.empty, jobs = Map.empty\<rparr>"

section \<open>Steps\<close>

abbreviation moved :: "nat \<Rightarrow> 'r thread \<Rightarrow> ('s, 'r) system \<Rightarrow> ('s, 'r) system" where
  "moved t th s \<equiv> s\<lparr>threads := (threads s)(t \<mapsto> th)\<rparr>"

text \<open>A goroutine goes on with a value; a panic ends it.\<close>

definition settled :: "'a go \<Rightarrow> ('a \<Rightarrow> 'r code) \<Rightarrow> 'r thread" where
  "settled v k = (case v of Val x \<Rightarrow> Running (k x) | Panic m \<Rightarrow> Returned (Panic m))"

fun local_step :: "'s runtime \<Rightarrow> 'r code \<Rightarrow> 's \<Rightarrow> 'r thread \<times> 's" where
  "local_step rt (Return x) s = (Returned (Val x), s)"
| "local_step rt (Throw m) s = (Returned (Panic m), s)"
| "local_step rt (GetTime k) s = (case time_Now (clock rt) s of (v, s') \<Rightarrow> (settled v k, s'))"
| "local_step rt (SleepFor d c) s = (case time_Sleep (clock rt) d s of (v, s') \<Rightarrow> (settled v (\<lambda>_. c), s'))"
| "local_step rt (CacheGet fn ns k) s = (case CGet (cacher rt) fn ns s of (v, s') \<Rightarrow> (settled v k, s'))"
| "local_step rt (CacheSet fn ns q c) s = (case CSet (cacher rt) fn ns q s of (v, s') \<Rightarrow> (settled v (\<lambda>_. c), s'))"
| "local_step rt (Flight key p k) s = (Running (Flight key p k), s)"

fun is_flight :: "'r code \<Rightarrow> bool" where
  "is_flight (Flight key p k) = True"
| "is_flight _ = False"

text \<open>\<open>Do\<close> up to its \<open>Unlock\<close>: join the call in flight for the key, or make one.\<close>

definition enter_do :: "nat \<Rightarrow> string \<Rightarrow> op \<Rightarrow> (flown \<Rightarrow> 'r code) \<Rightarrow> ('s, 'r) system \<Rightarrow> ('s, 'r) system" where
  "enter_do t key p k s =
     (case inflight s key of
        Some c \<Rightarrow> moved t (Waiting key c k) (s\<lparr>flights := (flights s)(c := map_option (\<lambda>f. f\<lparr>dups := dups f + 1\<rparr>) (flights s c))\<rparr>)
      | None \<Rightarrow> moved t (Leading key (fresh s) p k)
          (s\<lparr>flights := (flights s)(fresh s \<mapsto> \<lparr>pending = True, outcome = None, dups = 0, fkey = key\<rparr>),
            inflight := (inflight s)(key \<mapsto> fresh s), fresh := fresh s + 1\<rparr>))"

text \<open>\<open>c.val, c.err = fn()\<close>.\<close>

definition call_fn :: "'s runtime \<Rightarrow> nat \<Rightarrow> string \<Rightarrow> nat \<Rightarrow> op \<Rightarrow> (flown \<Rightarrow> 'r code) \<Rightarrow> ('s, 'r) system \<Rightarrow> ('s, 'r) system" where
  "call_fn rt t key c p k s =
     (case exec_op (provider rt) p (shared s) of
        (v, s') \<Rightarrow> moved t (Finishing key c k) (s\<lparr>shared := s',
          flights := (flights s)(c := map_option (\<lambda>f. f\<lparr>outcome := Some v\<rparr>) (flights s c))\<rparr>))"

text \<open>The deferred function of \<open>doCall\<close>; the caller then returns the fields of the call, or panics.\<close>

definition finish_call :: "nat \<Rightarrow> string \<Rightarrow> nat \<Rightarrow> (flown \<Rightarrow> 'r code) \<Rightarrow> ('s, 'r) system \<Rightarrow> ('s, 'r) system option" where
  "finish_call t key c k s =
     (case flights s c of
        None \<Rightarrow> None
      | Some f \<Rightarrow> (case outcome f of
          None \<Rightarrow> None
        | Some v \<Rightarrow> Some (moved t (settled v k) (s\<lparr>flights := (flights s)(c \<mapsto> f\<lparr>pending := False\<rparr>),
            inflight := (if inflight s key = Some c then (inflight s)(key := None) else inflight s)\<rparr>))))"

text \<open>\<open>c.wg.Wait()\<close> and what follows it.\<close>

definition wake_up :: "nat \<Rightarrow> nat \<Rightarrow> (flown \<Rightarrow> 'r code) \<Rightarrow> ('s, 'r) system \<Rightarrow> ('s, 'r) system option" where
  "wake_up t c k s =
     (case flights s c of
        None \<Rightarrow> None
      | Some f \<Rightarrow> if pending f then None
          else (case outcome f of None \<Rightarrow> None | Some v \<Rightarrow> Some (moved t (settled v k) s)))"

fun thread_step :: "'s runtime \<Rightarrow> nat \<Rightarrow> 'r thread \<Rightarrow> ('s, 'r) system \<Rightarrow> ('s, 'r) system option" where
  "thread_step rt t (Running (Flight key p k)) s = Some (enter_do t key p k s)"
| "thread_step rt t (Running c) s =
     (case local_step rt c (shared s) of (th, s') \<Rightarrow> Some (moved t th (s\<lparr>shared := s'\<rparr>)))"
| "thread_step rt t (Leading key c p k) s = Some (call_fn rt t key c p k s)"
| "thread_step rt t (Finishing key c k) s = finish_call t key c k s"
| "thread_step rt t (Waiting key c k) s = wake_up t c k s"
| "thread_step rt t (Returned v) s = None"

text \<open>One step of goroutine \<open>t\<close>; \<open>None\<close> when it cannot move.\<close>

definition step_of :: "'s runtime \<Rightarrow> nat \<Rightarrow> ('s, 'r) system \<Rightarrow> ('s, 'r) system option" where
  "step_of rt t s = (case threads s t of None \<Rightarrow> None | Some th \<Rightarrow> thread_step rt t th s)"

text \<open>A schedule, the goroutines in the order in which they move.\<close>

fun run_schedule :: "'s runtime \<Rightarrow> nat list \<Rightarrow> ('s, 'r) system \<Rightarrow> ('s, 'r) system option" where
  "run_schedule rt [] s = Some s"
| "run_schedule rt (t # ts) s = (case step_of rt t s of None \<Rightarrow> None | Some s' \<Rightarrow> run_schedule rt ts s')"

text \<open>A request arrives: a new goroutine.\<close>

definition arrive :: "(string \<Rightarrow> string \<Rightarrow> 'r code) \<Rightarrow> nat \<Rightarrow> string \<Rightarrow> string \<Rightarrow> ('s, 'r) system \<Rightarrow> ('s, 'r) system" where
  "arrive code_of t fn ns s = (moved t (Running (code_of fn ns)) s)\<lparr>jobs := (jobs s)(t \<mapsto> (fn, ns))\<rparr>"

text \<open>
  The states of a system of goroutines that all run \<open>code_of\<close>, for any function and namespace.
  Namespaces hold no dot, as \<open>GetNamespace\<close> makes them.
\<close>

inductive reached :: "'s runtime \<Rightarrow> (string \<Rightarrow> string \<Rightarrow> 'r code) \<Rightarrow> 's \<Rightarrow> ('s, 'r) system \<Rightarrow> bool"
  for rt code_of s0 where
  start: "reached rt code_of s0 (new_system s0)"
| request: "reached rt code_of s0 s \<Longrightarrow> threads s t = None \<Longrightarrow> CHR ''.'' \<notin> set ns \<Longrightarrow>
    reached rt code_of s0 (arrive code_of t fn ns s)"
| move: "reached rt code_of s0 s \<Longrightarrow> step_of rt t s = Some s' \<Longrightarrow> reached rt code_of s0 s'"

section \<open>The kinds of step\<close>

lemma thread_step_local:
  "\<not> is_flight c \<Longrightarrow> thread_step rt t (Running c) s =
     (case local_step rt c (shared s) of (th, s') \<Rightarrow> Some (moved t th (s\<lparr>shared := s'\<rparr>)))"
  by (cases c) auto

lemma step_cases [consumes 1, case_names local_move join lead call_move finish_move wake]:
  assumes "step_of rt t s = Some s'"
  obtains
    c th w where "threads s t = Some (Running c)" "\<not> is_flight c" "local_step rt c (shared s) = (th, w)"
      "s' = moved t th (s\<lparr>shared := w\<rparr>)"
  | key p k c where "threads s t = Some (Running (Flight key p k))" "inflight s key = Some c"
      "s' = moved t (Waiting key c k) (s\<lparr>flights := (flights s)(c := map_option (\<lambda>f. f\<lparr>dups := dups f + 1\<rparr>) (flights s c))\<rparr>)"
  | key p k where "threads s t = Some (Running (Flight key p k))" "inflight s key = None"
      "s' = moved t (Leading key (fresh s) p k)
          (s\<lparr>flights := (flights s)(fresh s \<mapsto> \<lparr>pending = True, outcome = None, dups = 0, fkey = key\<rparr>),
            inflight := (inflight s)(key \<mapsto> fresh s), fresh := fresh s + 1\<rparr>)"
  | key c p k v w where "threads s t = Some (Leading key c p k)" "exec_op (provider rt) p (shared s) = (v, w)"
      "s' = moved t (Finishing key c k) (s\<lparr>shared := w,
          flights := (flights s)(c := map_option (\<lambda>f. f\<lparr>outcome := Some v\<rparr>) (flights s c))\<rparr>)"
  | key c k f v where "threads s t = Some (Finishing key c k)" "flights s c = Some f" "outcome f = Some v"
      "s' = moved t (settled v k) (s\<lparr>flights := (flights s)(c \<mapsto> f\<lparr>pending := False\<rparr>),
            inflight := (if inflight s key = Some c then (inflight s)(key := None) else inflight s)\<rparr>)"
  | key c k f v where "threads s t = Some (Waiting key c k)" "flights s c = Some f" "\<not> pending f" "outcome f = Some v"
      "s' = moved t (settled v k) s"
proof -
  from assms obtain th where t: "threads s t = Some th" "thread_step rt t th s = Some s'"
    by (auto simp: step_of_def split: option.splits)
  show ?thesis
  proof (cases th)
    case (Running c)
    show ?thesis
    proof (cases "is_flight c")
      case True
      then obtain key p k where c: "c = Flight key p k" by (cases c) auto
      show ?thesis
      proof (cases "inflight s key")
        case None
        show ?thesis by (rule that(3) [of key p k]) (use t Running c None in \<open>simp_all add: enter_do_def\<close>)
      next
        case (Some d)
        show ?thesis by (rule that(2) [of key p k d]) (use t Running c Some in \<open>simp_all add: enter_do_def\<close>)
      qed
    next
      case False
      obtain th' w where "local_step rt c (shared s) = (th', w)" by fastforce
      with t Running False that(1) [of c th' w] show ?thesis by (simp add: thread_step_local)
    qed
  next
    case (Leading key c p k)
    obtain v w where "exec_op (provider rt) p (shared s) = (v, w)" by fastforce
    with t Leading that(4) [of key c p k v w] show ?thesis by (simp add: call_fn_def)
  next
    case (Finishing key c k)
    with t that(5) [of key c k] show ?thesis
      by (auto simp: finish_call_def split: option.splits)
  next
    case (Waiting key c k)
    with t that(6) [of key c k] show ?thesis
      by (auto simp: wake_up_def split: option.splits if_splits)
  next
    case (Returned v)
    with t show ?thesis by simp
  qed
qed

end
