(* ===== verification/FlightInv.thy ===== *)
theory FlightInv
  imports Flights
begin

text \<open>
  Invariants of the single flight that hold whatever code the goroutines run: at most one of them
  executes the function for a key, waiters wait for a call that is in flight or done, and somebody
  can always move. A bound on the length of the code bounds every schedule.
\<close>

section \<open>The calls in flight\<close>

fun leads :: "'r thread \<Rightarrow> (string \<times> nat) option" where
  "leads (Leading key c p k) = Some (key, c)"
| "leads (Finishing key c k) = Some (key, c)"
| "leads _ = None"

fun waits :: "'r thread \<Rightarrow> (string \<times> nat) option" where
  "waits (Waiting key c k) = Some (key, c)"
| "waits _ = None"

fun before_fn :: "'r thread \<Rightarrow> bool" where
  "before_fn (Leading key c p k) = True"
| "before_fn _ = False"

definition leads_of :: "(nat \<Rightarrow> 'r thread option) \<Rightarrow> nat \<Rightarrow> (string \<times> nat) option" where
  "leads_of m t = (case m t of None \<Rightarrow> None | Some th \<Rightarrow> leads th)"

definition waits_of :: "(nat \<Rightarrow> 'r thread option) \<Rightarrow> nat \<Rightarrow> (string \<times> nat) option" where
  "waits_of m t = (case m t of None \<Rightarrow> None | Some th \<Rightarrow> waits th)"

definition calls_of :: "(nat \<Rightarrow> 'r thread option) \<Rightarrow> nat \<Rightarrow> bool" where
  "calls_of m t = (case m t of None \<Rightarrow> False | Some th \<Rightarrow> before_fn th)"

abbreviation "leading s \<equiv> leads_of (threads s)"
abbreviation "waiting s \<equiv> waits_of (threads s)"
abbreviation "calling s \<equiv> calls_of (threads s)"

text \<open>A goroutine in \<open>doCall\<close> owns the map entry of its key, with a pending call.\<close>

definition inv_lead :: "('s, 'r) system \<Rightarrow> bool" where
  "inv_lead s \<longleftrightarrow> (\<forall>t key c. leading s t = Some (key, c) \<longrightarrow>
     inflight s key = Some c \<and> (\<exists>f. flights s c = Some f \<and> fkey f = key \<and> pending f
       \<and> (outcome f = None \<longleftrightarrow> calling s t)))"

definition inv_owner :: "('s, 'r) system \<Rightarrow> bool" where
  "inv_owner s \<longleftrightarrow> (\<forall>key c. inflight s key = Some c \<longrightarrow> (\<exists>t. leading s t = Some (key, c)))"

definition inv_one :: "('s, 'r) system \<Rightarrow> bool" where
  "inv_one s \<longleftrightarrow> (\<forall>t t' key c c'. leading s t = Some (key, c) \<longrightarrow> leading s t' = Some (key, c') \<longrightarrow> t = t')"

definition inv_wait :: "('s, 'r) system \<Rightarrow> bool" where
  "inv_wait s \<longleftrightarrow> (\<forall>t key c. waiting s t = Some (key, c) \<longrightarrow>
     (\<exists>f. flights s c = Some f \<and> fkey f = key \<and> (pending f \<longrightarrow> inflight s key = Some c) \<and> (\<not> pending f \<longrightarrow> outcome f \<noteq> None)))"

definition inv_fresh :: "('s, 'r) system \<Rightarrow> bool" where
  "inv_fresh s \<longleftrightarrow> (\<forall>c. flights s c \<noteq> None \<longrightarrow> c < fresh s)"

definition flights_ok :: "('s, 'r) system \<Rightarrow> bool" where
  "flights_ok s \<longleftrightarrow> inv_lead s \<and> inv_owner s \<and> inv_one s \<and> inv_wait s \<and> inv_fresh s"

lemma settled_idle [simp]: "leads (settled v k) = None" "waits (settled v k) = None" "\<not> before_fn (settled v k)"
  by (simp_all add: settled_def split: go.split)

lemma local_step_idle:
  "local_step rt c s = (th, w) \<Longrightarrow> \<not> is_flight c \<Longrightarrow> leads th = None \<and> waits th = None \<and> \<not> before_fn th"
  by (cases c) (auto split: prod.splits)

lemma moved_sel [simp]:
  "leads_of (m(t \<mapsto> th)) = (leads_of m)(t := leads th)"
  "waits_of (m(t \<mapsto> th)) = (waits_of m)(t := waits th)"
  "calls_of (m(t \<mapsto> th)) = (calls_of m)(t := before_fn th)"
  by (auto simp: leads_of_def waits_of_def calls_of_def fun_eq_iff)

lemmas flights_defs = inv_lead_def inv_owner_def inv_one_def inv_wait_def inv_fresh_def

lemma flights_ok_new: "flights_ok (new_system s)"
  by (simp add: flights_ok_def flights_defs new_system_def leads_of_def waits_of_def)

lemma at_thread: "threads s t = Some th \<Longrightarrow> leading s t = leads th \<and> waiting s t = waits th \<and> calling s t = before_fn th"
  by (simp add: leads_of_def waits_of_def calls_of_def)

lemma at_free: "threads s t = None \<Longrightarrow> leading s t = None \<and> waiting s t = None \<and> \<not> calling s t"
  by (simp add: leads_of_def waits_of_def calls_of_def)

lemma idle_upd: "threads s t = None \<Longrightarrow> (leading s)(t := None) = leading s"
  "threads s t = None \<Longrightarrow> (waiting s)(t := None) = waiting s" "threads s t = None \<Longrightarrow> (calling s)(t := False) = calling s"
  by (auto simp: fun_eq_iff at_free)

lemma arrive_ok: "flights_ok s \<Longrightarrow> threads s t = None \<Longrightarrow> flights_ok (arrive code_of t fn ns s)"
  by (auto simp: flights_ok_def flights_defs arrive_def idle_upd)

lemma step_inv_fresh:
  assumes "step_of rt t s = Some s'" "inv_fresh s"
  shows "inv_fresh s'"
  using assms by (cases rule: step_cases) (auto simp: inv_fresh_def less_Suc_eq split: if_splits)

lemma leaders_differ:
  assumes "inv_lead s" "inv_one s" "leading s t = Some (key, c)" "leading s t1 = Some (key1, c1)" "t1 \<noteq> t"
  shows "key1 \<noteq> key \<and> c1 \<noteq> c"
  using assms unfolding inv_lead_def inv_one_def by (metis option.inject)

lemma step_inv_lead:
  assumes "step_of rt t s = Some s'" "flights_ok s"
  shows "inv_lead s'"
proof -
  have i: "inv_lead s" "inv_one s" "inv_fresh s" using assms(2) by (simp_all add: flights_ok_def)
  from assms(1) show ?thesis
  proof (cases rule: step_cases)
    case (local_move c th w)
    then show ?thesis using i(1) local_step_idle [of rt c "shared s" th w]
      by (auto simp: inv_lead_def split: if_splits)
  next
    case (join key p k c)
    show ?thesis unfolding inv_lead_def
    proof (intro allI impI)
      fix t1 key1 c1
      assume "leading s' t1 = Some (key1, c1)"
      with join have t1: "leading s t1 = Some (key1, c1)" "t1 \<noteq> t" by (auto split: if_splits)
      with i(1) obtain f where "inflight s key1 = Some c1" "flights s c1 = Some f" "fkey f = key1" "pending f"
        "outcome f = None \<longleftrightarrow> calling s t1" unfolding inv_lead_def by metis
      with join t1 show "inflight s' key1 = Some c1 \<and> (\<exists>f. flights s' c1 = Some f \<and> fkey f = key1 \<and> pending f
          \<and> (outcome f = None \<longleftrightarrow> calling s' t1))" by auto
    qed
  next
    case (lead key p k)
    show ?thesis unfolding inv_lead_def
    proof (intro allI impI)
      fix t1 key1 c1
      assume a: "leading s' t1 = Some (key1, c1)"
      show "inflight s' key1 = Some c1 \<and> (\<exists>f. flights s' c1 = Some f \<and> fkey f = key1 \<and> pending f
          \<and> (outcome f = None \<longleftrightarrow> calling s' t1))"
      proof (cases "t1 = t")
        case True
        with a lead show ?thesis by simp
      next
        case False
        with a lead have "leading s t1 = Some (key1, c1)" by simp
        with i(1) obtain f where f: "inflight s key1 = Some c1" "flights s c1 = Some f" "fkey f = key1" "pending f"
          "outcome f = None \<longleftrightarrow> calling s t1" unfolding inv_lead_def by metis
        then have "c1 \<noteq> fresh s" using i(3) unfolding inv_fresh_def by blast
        with f lead False show ?thesis by auto
      qed
    qed
  next
    case (call_move key c p k v w)
    have lt: "leading s t = Some (key, c)" using at_thread [OF call_move(1)] by simp
    show ?thesis unfolding inv_lead_def
    proof (intro allI impI)
      fix t1 key1 c1
      assume a: "leading s' t1 = Some (key1, c1)"
      with call_move lt have l1: "leading s t1 = Some (key1, c1)" by (auto split: if_splits)
      with i(1) obtain f where f: "inflight s key1 = Some c1" "flights s c1 = Some f" "fkey f = key1" "pending f"
        "outcome f = None \<longleftrightarrow> calling s t1" unfolding inv_lead_def by metis
      show "inflight s' key1 = Some c1 \<and> (\<exists>f. flights s' c1 = Some f \<and> fkey f = key1 \<and> pending f
          \<and> (outcome f = None \<longleftrightarrow> calling s' t1))"
      proof (cases "t1 = t")
        case True
        with l1 lt f call_move show ?thesis by auto
      next
        case False
        with leaders_differ [OF i(1,2) lt l1] f call_move show ?thesis by auto
      qed
    qed
  next
    case (finish_move key c k f v)
    have lt: "leading s t = Some (key, c)" using at_thread [OF finish_move(1)] by simp
    show ?thesis unfolding inv_lead_def
    proof (intro allI impI)
      fix t1 key1 c1
      assume "leading s' t1 = Some (key1, c1)"
      with finish_move have l1: "leading s t1 = Some (key1, c1)" "t1 \<noteq> t" by (auto split: if_splits)
      with i(1) obtain f where f: "inflight s key1 = Some c1" "flights s c1 = Some f" "fkey f = key1" "pending f"
        "outcome f = None \<longleftrightarrow> calling s t1" unfolding inv_lead_def by metis
      with leaders_differ [OF i(1,2) lt l1] finish_move l1 show "inflight s' key1 = Some c1
          \<and> (\<exists>f. flights s' c1 = Some f \<and> fkey f = key1 \<and> pending f \<and> (outcome f = None \<longleftrightarrow> calling s' t1))"
        by auto
    qed
  next
  case (wake key c k f v)
    then show ?thesis using i by (auto simp: inv_lead_def split: if_splits)
  qed
qed

lemma step_inv_owner:
  assumes "step_of rt t s = Some s'" "flights_ok s"
  shows "inv_owner s'"
proof -
  have i: "inv_lead s" "inv_one s" "inv_owner s" using assms(2) by (simp_all add: flights_ok_def)
  have other: "\<exists>t. ((leading s)(t0 := None)) t = Some (key, c)"
    if "inflight s key = Some c" "leading s t0 = None" for key c t0
    using i(3) that unfolding inv_owner_def by (metis fun_upd_other option.distinct(1))
  from assms(1) show ?thesis
  proof (cases rule: step_cases)
    case (local_move c th w)
    then show ?thesis using other [of _ _ t] local_step_idle [of rt c "shared s" th w]
      by (auto simp: inv_owner_def at_thread)
  next
    case (join key p k c)
    then show ?thesis using other [of _ _ t] by (auto simp: inv_owner_def at_thread)
  next
    case (lead key p k)
    have "\<exists>t1. ((leading s)(t := Some (key, fresh s))) t1 = Some (key1, c1)"
      if "inflight s key1 = Some c1" for key1 c1
      using i(3) that lead at_thread [OF lead(1)] unfolding inv_owner_def
      by (metis fun_upd_other leads.simps(3) option.distinct(1))
    then show ?thesis using lead by (auto simp: inv_owner_def)
  next
    case (call_move key c p k v w)
    have "((leading s)(t := leads (Finishing key c k))) = leading s"
      using at_thread [OF call_move(1)] by auto
    then show ?thesis using i call_move by (simp add: inv_owner_def)
  next
    case (finish_move key c k f v)
    have c: "inflight s key = Some c" using i(1) at_thread [OF finish_move(1)] unfolding inv_lead_def by auto
    have "\<exists>t1. ((leading s)(t := None)) t1 = Some (key1, c1)"
      if "inflight s key1 = Some c1" "key1 \<noteq> key" for key1 c1
      using i(3) that at_thread [OF finish_move(1)] unfolding inv_owner_def
      by (metis fun_upd_other leads.simps(2) option.inject prod.inject)
    then show ?thesis using finish_move c by (simp add: inv_owner_def)
  next
    case (wake key c k f v)
    then show ?thesis using other [of _ _ t] by (auto simp: inv_owner_def at_thread)
  qed
qed

lemma step_inv_one:
  assumes "step_of rt t s = Some s'" "flights_ok s"
  shows "inv_one s'"
proof -
  have i: "inv_lead s" "inv_one s" using assms(2) by (simp_all add: flights_ok_def)
  from assms(1) show ?thesis
  proof (cases rule: step_cases)
    case (local_move c th w)
    then show ?thesis using i(2) local_step_idle [of rt c "shared s" th w]
      by (auto simp: inv_one_def)
  next
    case (lead key p k)
    have "leading s t1 \<noteq> Some (key, c1)" for t1 c1
      using i(1) lead(2) unfolding inv_lead_def by fastforce
    then show ?thesis using i(2) lead by (auto simp: inv_one_def)
  next
    case (call_move key c p k v w)
    have "((leading s)(t := leads (Finishing key c k))) = leading s"
      using at_thread [OF call_move(1)] by auto
    then show ?thesis using i call_move by (simp add: inv_one_def)
  qed (use i(2) in \<open>auto simp: inv_one_def\<close>)
qed

lemma step_inv_wait:
  assumes "step_of rt t s = Some s'" "flights_ok s"
  shows "inv_wait s'"
proof -
  have i: "inv_lead s" "inv_wait s" "inv_fresh s" "inv_owner s" using assms(2) by (simp_all add: flights_ok_def)
  from assms(1) show ?thesis
  proof (cases rule: step_cases)
    case (local_move c th w)
    then show ?thesis using i(2) local_step_idle [of rt c "shared s" th w]
      by (auto simp: inv_wait_def)
  next
    case (join key p k c)
    from i(1,4) join(2) obtain f where "flights s c = Some f" "fkey f = key" "pending f"
      unfolding inv_owner_def inv_lead_def by blast
    then show ?thesis using i(2) join by (fastforce simp: inv_wait_def)
  next
    case (lead key p k)
    have "c \<noteq> fresh s \<and> (pending f \<longrightarrow> key1 \<noteq> key)" if "waiting s t1 = Some (key1, c)" "flights s c = Some f" for t1 key1 c f
      using i(2,3) lead(2) that unfolding inv_wait_def inv_fresh_def by fastforce
    then show ?thesis using i(2) lead by (fastforce simp: inv_wait_def)
  next
    case (call_move key c p k v w)
    then show ?thesis using i(2) by (fastforce simp: inv_wait_def)
  next
    case (finish_move key c k f v)
    have "fkey f = key" "inflight s key = Some c"
      using i(1) at_thread [OF finish_move(1)] finish_move(2) unfolding inv_lead_def by fastforce+
    then show ?thesis using i(2) finish_move by (fastforce simp: inv_wait_def)
  next
    case (wake key c k f v)
    then show ?thesis using i(2) by (auto simp: inv_wait_def)
  qed
qed

lemma step_flights_ok: "step_of rt t s = Some s' \<Longrightarrow> flights_ok s \<Longrightarrow> flights_ok s'"
  using step_inv_lead step_inv_owner step_inv_one step_inv_wait step_inv_fresh
  unfolding flights_ok_def by blast

lemma reached_flights_ok: "reached rt code_of s0 s \<Longrightarrow> flights_ok s"
  by (induction rule: reached.induct) (auto intro: flights_ok_new arrive_ok step_flights_ok)

section \<open>Progress\<close>

fun is_returned :: "'r thread \<Rightarrow> bool" where
  "is_returned (Returned v) = True"
| "is_returned _ = False"

lemma leader_moves:
  assumes "inv_lead s" "leading s t = Some (key, c)"
  shows "step_of rt t s \<noteq> None"
proof -
  obtain th where th: "threads s t = Some th" "leads th = Some (key, c)"
    using assms(2) by (auto simp: leads_of_def split: option.splits)
  show ?thesis
  proof (cases th)
    case (Finishing key' c' k)
    with th have "flights s c \<noteq> None \<and> outcome (the (flights s c)) \<noteq> None" "c' = c"
      using assms at_thread [OF th(1)] unfolding inv_lead_def by fastforce+
    with th Finishing show ?thesis by (auto simp: step_of_def finish_call_def)
  qed (use th in \<open>auto simp: step_of_def\<close>)
qed

text \<open>As long as a goroutine has not returned, some goroutine can move: there is no deadlock.\<close>

lemma no_deadlock:
  assumes "flights_ok s" "threads s t = Some th" "\<not> is_returned th"
  shows "\<exists>t'. step_of rt t' s \<noteq> None"
proof -
  have i: "inv_lead s" "inv_owner s" "inv_wait s" using assms(1) by (simp_all add: flights_ok_def)
  show ?thesis
  proof (cases th)
    case (Running c)
    with assms(2) have "step_of rt t s \<noteq> None"
      by (cases c) (auto simp: step_of_def split: prod.splits)
    then show ?thesis by blast
  next
    case (Waiting key c k)
    with assms(2) have w: "waiting s t = Some (key, c)" by (simp add: at_thread)
    then obtain f where f: "flights s c = Some f" "pending f \<longrightarrow> inflight s key = Some c" "\<not> pending f \<longrightarrow> outcome f \<noteq> None"
      using i(3) unfolding inv_wait_def by blast
    show ?thesis
    proof (cases "pending f")
      case True
      with f i(2) obtain t' where "leading s t' = Some (key, c)" unfolding inv_owner_def by blast
      with leader_moves [OF i(1)] show ?thesis by blast
    next
      case False
      with f assms(2) Waiting have "step_of rt t s \<noteq> None" by (auto simp: step_of_def wake_up_def)
      then show ?thesis by blast
    qed
  next
    case (Returned v)
    with assms show ?thesis by simp
  next
    case (Leading key c p k)
    with assms(2) have "leading s t = Some (key, c)" by (simp add: at_thread)
    with leader_moves [OF i(1)] show ?thesis by blast
  next
    case (Finishing key c k)
    with assms(2) have "leading s t = Some (key, c)" by (simp add: at_thread)
    with leader_moves [OF i(1)] show ?thesis by blast
  qed
qed

section \<open>Termination\<close>

text \<open>\<open>within c n\<close>: a goroutine that runs \<open>c\<close> returns after at most \<open>n\<close> of its own steps.\<close>

primrec within :: "'r code \<Rightarrow> nat \<Rightarrow> bool" where
  "within (Return r) n = (1 \<le> n)"
| "within (Throw m) n = (1 \<le> n)"
| "within (GetTime c) n = (1 \<le> n \<and> (\<forall>t. within (c t) (n - 1)))"
| "within (SleepFor d c) n = (1 \<le> n \<and> within c (n - 1))"
| "within (CacheGet f n' c) n = (1 \<le> n \<and> (\<forall>x. within (c x) (n - 1)))"
| "within (CacheSet f n' q c) n = (1 \<le> n \<and> within c (n - 1))"
| "within (Flight key p c) n = (3 \<le> n \<and> (\<forall>x. within (c x) (n - 3)))"

fun thread_within :: "'r thread \<Rightarrow> nat \<Rightarrow> bool" where
  "thread_within (Running c) n = within c n"
| "thread_within (Leading key c p k) n = (2 \<le> n \<and> (\<forall>x. within (k x) (n - 2)))"
| "thread_within (Finishing key c k) n = (1 \<le> n \<and> (\<forall>x. within (k x) (n - 1)))"
| "thread_within (Waiting key c k) n = (1 \<le> n \<and> (\<forall>x. within (k x) (n - 1)))"
| "thread_within (Returned v) n = True"

lemma within_mono: "within c n \<Longrightarrow> n \<le> m \<Longrightarrow> within c m"
proof (induction c arbitrary: n m)
  case (GetTime c)
  have "within (c t) (m - 1)" for t
    using GetTime.IH [of "c t" "n - 1" "m - 1"] GetTime.prems by (simp add: diff_le_mono)
  with GetTime.prems show ?case by simp
next
  case (CacheGet f n' c)
  have "within (c x) (m - 1)" for x
    using CacheGet.IH [of "c x" "n - 1" "m - 1"] CacheGet.prems by (simp add: diff_le_mono del: split_paired_All)
  with CacheGet.prems show ?case by (simp del: split_paired_All)
next
  case (Flight key p c)
  have "within (c x) (m - 3)" for x
    using Flight.IH [of "c x" "n - 3" "m - 3"] Flight.prems by (simp add: diff_le_mono del: split_paired_All)
  with Flight.prems show ?case by (simp del: split_paired_All)
qed (auto intro: diff_le_mono)

lemma within_all_mono: "\<forall>x. within (k x) n \<Longrightarrow> n \<le> m \<Longrightarrow> \<forall>x. within (k x) m"
  using within_mono by blast

lemma thread_within_mono: "thread_within th n \<Longrightarrow> n \<le> m \<Longrightarrow> thread_within th m"
  by (cases th) (auto intro: within_mono simp del: split_paired_All elim: within_all_mono [rule_format] diff_le_mono)

lemma settled_within: "(\<And>x. within (k x) n) \<Longrightarrow> thread_within (settled v k) n"
  by (simp add: settled_def split: go.split)

lemma local_within:
  "within c n \<Longrightarrow> \<not> is_flight c \<Longrightarrow> local_step rt c s = (th, w) \<Longrightarrow> 0 < n \<and> thread_within th (n - 1)"
  by (cases c) (auto intro: settled_within split: prod.splits)

lemma enter_within:
  assumes "thread_within (Running (Flight key p k)) n"
  shows "0 < n" "thread_within (Waiting key c k) (n - 1)" "thread_within (Leading key c p k) (n - 1)"
proof -
  have n: "3 \<le> n" and k: "\<forall>x. within (k x) (n - 3)" using assms by simp_all
  then show "0 < n" by simp
  show "thread_within (Waiting key c k) (n - 1)" using n within_all_mono [OF k, of "n - 1 - 1"] by simp
  show "thread_within (Leading key c p k) (n - 1)" using n within_all_mono [OF k, of "n - 1 - 2"] by simp
qed

lemma step_within:
  assumes "step_of rt t s = Some s'"
  shows "\<exists>th th'. threads s t = Some th \<and> threads s' = (threads s)(t \<mapsto> th')
    \<and> (\<forall>n. thread_within th n \<longrightarrow> 0 < n \<and> thread_within th' (n - 1))"
  using assms
proof (cases rule: step_cases)
  case (local_move c th w)
  then show ?thesis using local_within [of c _ rt "shared s" th w] by auto
next
  case (join key p k c)
  show ?thesis using enter_within(1) [of key p k] enter_within(2) [of key p k _ c] join
    by (intro exI [of _ "Running (Flight key p k)"] exI [of _ "Waiting key c k"]) simp
next
  case (lead key p k)
  show ?thesis using enter_within(1) [of key p k] enter_within(3) [of key p k _ "fresh s"] lead
    by (intro exI [of _ "Running (Flight key p k)"] exI [of _ "Leading key (fresh s) p k"]) simp
next
  case (call_move key c p k v w)
  have "thread_within (Leading key c p k) n \<Longrightarrow> thread_within (Finishing key c k) (n - 1)" for n
    by (simp add: numeral_2_eq_2) linarith
  then show ?thesis using call_move
    by (intro exI [of _ "Leading key c p k"] exI [of _ "Finishing key c k"]) simp
next
  case (finish_move key c k f v)
  have "thread_within (Finishing key c k) n \<Longrightarrow> 0 < n \<and> thread_within (settled v k) (n - 1)" for n
    using settled_within [of k "n - 1" v] by (simp del: split_paired_All)
  then show ?thesis using finish_move
    by (intro exI [of _ "Finishing key c k"] exI [of _ "settled v k"]) simp
next
  case (wake key c k f v)
  have "thread_within (Waiting key c k) n \<Longrightarrow> 0 < n \<and> thread_within (settled v k) (n - 1)" for n
    using settled_within [of k "n - 1" v] by (simp del: split_paired_All)
  then show ?thesis using wake
    by (intro exI [of _ "Waiting key c k"] exI [of _ "settled v k"]) simp
qed

lemma step_within_cases:
  assumes "step_of rt t s = Some s'"
  obtains th th' where "threads s t = Some th" "threads s' = (threads s)(t \<mapsto> th')" "dom (threads s') = dom (threads s)"
    "\<And>n. thread_within th n \<Longrightarrow> 0 < n \<and> thread_within th' (n - 1)"
proof -
  from step_within [OF assms] obtain th th' where th: "threads s t = Some th" "threads s' = (threads s)(t \<mapsto> th')"
    "\<forall>n. thread_within th n \<longrightarrow> 0 < n \<and> thread_within th' (n - 1)" by blast
  then have "dom (threads s') = dom (threads s)" by auto
  with th that show ?thesis by blast
qed

lemma schedule_count:
  assumes "run_schedule rt ts s = Some s'" "threads s t = Some th" "thread_within th n"
  shows "count_list ts t \<le> n"
  using assms
proof (induction ts arbitrary: s th n)
  case (Cons t1 ts)
  then obtain s1 where s1: "step_of rt t1 s = Some s1" "run_schedule rt ts s1 = Some s'"
    by (auto split: option.splits)
  obtain th1 th2 where th: "threads s t1 = Some th1" "threads s1 = (threads s)(t1 \<mapsto> th2)"
    "\<And>n. thread_within th1 n \<Longrightarrow> 0 < n \<and> thread_within th2 (n - 1)"
    by (rule step_within_cases [OF s1(1)]) blast
  show ?case
  proof (cases "t1 = t")
    case True
    with th Cons.prems have "0 < n" "thread_within th2 (n - 1)" by (metis option.inject)+
    with Cons.IH [OF s1(2), of th2 "n - 1"] th(2) True show ?thesis by simp
  next
    case False
    with Cons.IH [OF s1(2), of th n] th(2) Cons.prems show ?thesis by simp
  qed
qed simp

lemma schedule_threads: "run_schedule rt ts s = Some s' \<Longrightarrow> set ts \<subseteq> dom (threads s) \<and> dom (threads s') = dom (threads s)"
proof (induction ts arbitrary: s)
  case (Cons t ts)
  then obtain s1 where s1: "step_of rt t s = Some s1" "run_schedule rt ts s1 = Some s'"
    by (auto split: option.splits)
  from step_within_cases [OF s1(1)] obtain th where "threads s t = Some th" "dom (threads s1) = dom (threads s)" by metis
  with Cons.IH [OF s1(2)] show ?case by auto
qed simp

lemma length_count: "finite D \<Longrightarrow> set ts \<subseteq> D \<Longrightarrow> (\<And>t. t \<in> D \<Longrightarrow> count_list ts t \<le> b) \<Longrightarrow> length ts \<le> card D * b"
proof -
  assume D: "finite D" "set ts \<subseteq> D" "\<And>t. t \<in> D \<Longrightarrow> count_list ts t \<le> b"
  have "length ts = (\<Sum>t\<in>D. count_list ts t)"
    using sum_count_set [OF D(2,1)] by simp
  also have "\<dots> \<le> card D * b" using sum_bounded_above [of D "count_list ts" b] D(3) by simp
  finally show ?thesis .
qed

lemma reached_within:
  assumes "reached rt code_of s0 s" "\<And>fn ns. within (code_of fn ns) b" "threads s t = Some th"
  shows "thread_within th b"
  using assms(1,3)
proof (induction arbitrary: t th rule: reached.induct)
  case start
  then show ?case by (simp add: new_system_def)
next
  case (request s t' ns fn)
  then show ?case using assms(2) by (auto simp: arrive_def split: if_splits)
next
  case (move s t' s')
  obtain th1 th2 where th: "threads s t' = Some th1" "threads s' = (threads s)(t' \<mapsto> th2)"
    "\<And>n. thread_within th1 n \<Longrightarrow> 0 < n \<and> thread_within th2 (n - 1)"
    by (rule step_within_cases [OF move.hyps(2)]) blast
  have "thread_within th2 (b - 1) \<Longrightarrow> thread_within th2 b"
    by (erule thread_within_mono) simp
  with th(3) [OF move.IH [OF th(1)]] show ?case using th(2) move.IH move.prems
    by (cases "t = t'") simp_all
qed

lemma reached_finite: "reached rt code_of s0 s \<Longrightarrow> finite (dom (threads s))"
proof (induction rule: reached.induct)
  case (move s t s')
  from step_within_cases [OF move.hyps(2)] have "dom (threads s') = dom (threads s)" by metis
  with move.IH show ?case by simp
next
  case (request s t ns fn)
  have "dom (threads (arrive code_of t fn ns s)) = insert t (dom (threads s))" by (auto simp: arrive_def)
  with request.IH show ?case by simp
qed (simp add: new_system_def)

lemma schedule_reached: "reached rt code_of s0 s \<Longrightarrow> run_schedule rt ts s = Some s' \<Longrightarrow> reached rt code_of s0 s'"
  by (induction ts arbitrary: s) (auto intro: reached.move split: option.splits)

text \<open>
  Without new requests every schedule is at most as long as the goroutines times the length of their
  code, and when no goroutine can move any more all have returned.
\<close>

lemma schedules_end:
  assumes "reached rt code_of s0 s" "\<And>fn ns. within (code_of fn ns) b" "run_schedule rt ts s = Some s'"
  shows "length ts \<le> card (dom (threads s)) * b"
    and "(\<forall>t. step_of rt t s' = None) \<Longrightarrow> threads s' t = Some th \<Longrightarrow> is_returned th"
proof -
  show "length ts \<le> card (dom (threads s)) * b"
    using length_count [OF reached_finite [OF assms(1)]] schedule_threads [OF assms(3)]
      schedule_count [OF assms(3)] reached_within [OF assms(1,2)] by blast
  show "(\<forall>t. step_of rt t s' = None) \<Longrightarrow> threads s' t = Some th \<Longrightarrow> is_returned th"
    using no_deadlock [OF reached_flights_ok [OF schedule_reached [OF assms(1,3)]]] by (metis option.simps(3))
qed

end
