(* ===== verification/Interleaving.thy ===== *)
theory Interleaving
  imports FlightInv
begin

text \<open>
  Invariants of goroutines that share a cache, a group of calls in flight and a provider. What a
  goroutine's code may rely on and what it has to guarantee is stated over the tree of its code
  (\<open>safe\<close>), relative to a set of provider calls that can only grow; a locale turns code that is safe
  into facts about every reachable state.
\<close>

section \<open>What the calls made so far tell\<close>

definition op_for :: "string \<Rightarrow> string \<Rightarrow> op \<Rightarrow> bool" where
  "op_for fn ns p = (case p of Query f n \<Rightarrow> f = fn \<and> n = ns | Resize f n _ \<Rightarrow> f = fn \<and> n = ns)"

definition op_key :: "op \<Rightarrow> string" where
  "op_key p = (case p of Query f n \<Rightarrow> getKey f n | Resize f n _ \<Rightarrow> setKey f n)"

definition is_query :: "op \<Rightarrow> bool" where
  "is_query p = (case p of Query _ _ \<Rightarrow> True | Resize _ _ _ \<Rightarrow> False)"

text \<open>The provider answered \<open>q\<close> for the function, without an error.\<close>

definition answered :: "call set \<Rightarrow> string \<Rightarrow> string \<Rightarrow> ServiceQueryResponse \<Rightarrow> bool" where
  "answered A fn ns q \<longleftrightarrow> GetCall fn ns (Val (q, None)) \<in> A"

definition set_error :: "string \<Rightarrow> goerror \<Rightarrow> goerror" where
  "set_error fn err = (case err of None \<Rightarrow> None
     | Some e \<Rightarrow> Some (''unable to scale function ['' @ fn @ ''], err: '' @ e))"

definition panic_seen :: "string \<Rightarrow> string \<Rightarrow> call set \<Rightarrow> string \<Rightarrow> bool" where
  "panic_seen fn ns A m \<longleftrightarrow> GetCall fn ns (Panic m) \<in> A \<or> (\<exists>n. SetCall fn ns n (Panic m) \<in> A)"

text \<open>An outcome of a single flight that stems from a provider call for the function.\<close>

definition flown_from :: "string \<Rightarrow> string \<Rightarrow> bool \<Rightarrow> call set \<Rightarrow> flown \<Rightarrow> bool" where
  "flown_from fn ns get A x \<longleftrightarrow>
     (if get then \<exists>q e. x = (Some q, e) \<and> GetCall fn ns (Val (q, e)) \<in> A
      else \<exists>n e. x = (None, set_error fn e) \<and> SetCall fn ns n (Val e) \<in> A)"

definition outcome_from :: "string \<Rightarrow> string \<Rightarrow> bool \<Rightarrow> call set \<Rightarrow> flown go \<Rightarrow> bool" where
  "outcome_from fn ns get A v = (case v of Val x \<Rightarrow> flown_from fn ns get A x | Panic m \<Rightarrow> panic_seen fn ns A m)"

text \<open>A resize is justified by an answer that no replica is wanted.\<close>

definition justified :: "string \<Rightarrow> string \<Rightarrow> call set \<Rightarrow> op \<Rightarrow> bool" where
  "justified fn ns A p = (case p of Query _ _ \<Rightarrow> True
     | Resize _ _ n \<Rightarrow> n > 0 \<and> (\<exists>q. answered A fn ns q \<and> Replicas q = 0))"

lemma from_mono:
  "A \<subseteq> B \<Longrightarrow> answered A fn ns q \<Longrightarrow> answered B fn ns q"
  "A \<subseteq> B \<Longrightarrow> panic_seen fn ns A m \<Longrightarrow> panic_seen fn ns B m"
  "A \<subseteq> B \<Longrightarrow> outcome_from fn ns get A v \<Longrightarrow> outcome_from fn ns get B v"
  "A \<subseteq> B \<Longrightarrow> justified fn ns A p \<Longrightarrow> justified fn ns B p"
  by (auto simp: answered_def panic_seen_def outcome_from_def flown_from_def justified_def
      split: go.splits op.splits if_splits)

lemma op_key_eq:
  assumes "op_for fn ns p" "op_for fn' ns' p'" "op_key p = op_key p'"
    "CHR ''.'' \<notin> set ns" "CHR ''.'' \<notin> set ns'"
  shows "fn = fn' \<and> ns = ns' \<and> is_query p = is_query p'"
  using assms(1-3) last_split_unique [OF assms(4,5), of fn fn']
  by (auto simp: op_for_def op_key_def getKey_def setKey_def is_query_def split: op.splits)

section \<open>Safe code\<close>

text \<open>
  \<open>safe fn ns ok A c\<close>: code \<open>c\<close>, run with the calls \<open>A\<close> made and more to come, touches the entry and the
  keys of its function only, stores only what the provider answered, requests replicas only after
  the provider answered that none is wanted, never fails a type assertion, and returns a result
  that is \<open>ok\<close>, provided that a cache hit is an answer of the provider for that function.
\<close>

primrec safe :: "string \<Rightarrow> string \<Rightarrow> ('r \<Rightarrow> call set \<Rightarrow> bool) \<Rightarrow> call set \<Rightarrow> 'r code \<Rightarrow> bool" where
  "safe fn ns ok A (Return r) = ok r A"
| "safe fn ns ok A (Throw m) = False"
| "safe fn ns ok A (GetTime c) = (\<forall>B t. A \<subseteq> B \<longrightarrow> safe fn ns ok B (c t))"
| "safe fn ns ok A (SleepFor d c) = (\<forall>B. A \<subseteq> B \<longrightarrow> safe fn ns ok B c)"
| "safe fn ns ok A (CacheGet f n c) = (f = fn \<and> n = ns \<and>
     (\<forall>B q h. A \<subseteq> B \<longrightarrow> (h \<longrightarrow> answered B fn ns q) \<longrightarrow> safe fn ns ok B (c (q, h))))"
| "safe fn ns ok A (CacheSet f n q c) = (f = fn \<and> n = ns \<and> answered A fn ns q \<and> (\<forall>B. A \<subseteq> B \<longrightarrow> safe fn ns ok B c))"
| "safe fn ns ok A (Flight key p c) = (key = op_key p \<and> op_for fn ns p \<and> justified fn ns A p \<and>
     (\<forall>B x. A \<subseteq> B \<longrightarrow> flown_from fn ns (is_query p) B x \<longrightarrow> safe fn ns ok B (c x)))"

definition continues :: "string \<Rightarrow> string \<Rightarrow> ('r \<Rightarrow> call set \<Rightarrow> bool) \<Rightarrow> bool \<Rightarrow> call set \<Rightarrow> (flown \<Rightarrow> 'r code) \<Rightarrow> bool" where
  "continues fn ns ok get A k \<longleftrightarrow> (\<forall>B x. A \<subseteq> B \<longrightarrow> flown_from fn ns get B x \<longrightarrow> safe fn ns ok B (k x))"

text \<open>In a call, a goroutine is safe when its key is that of its function and the rest of its code is.\<close>

definition in_call :: "string \<Rightarrow> string \<Rightarrow> ('r \<Rightarrow> call set \<Rightarrow> bool) \<Rightarrow> call set \<Rightarrow> string \<Rightarrow> (flown \<Rightarrow> 'r code) \<Rightarrow> bool" where
  "in_call fn ns ok A key k \<longleftrightarrow> (\<exists>p. key = op_key p \<and> op_for fn ns p \<and> continues fn ns ok (is_query p) A k)"

fun thread_safe :: "string \<Rightarrow> string \<Rightarrow> ('r \<Rightarrow> call set \<Rightarrow> bool) \<Rightarrow> call set \<Rightarrow> 'r thread \<Rightarrow> bool" where
  "thread_safe fn ns ok A (Running c) = safe fn ns ok A c"
| "thread_safe fn ns ok A (Leading key c p k) = (key = op_key p \<and> op_for fn ns p \<and> justified fn ns A p
     \<and> continues fn ns ok (is_query p) A k)"
| "thread_safe fn ns ok A (Finishing key c k) = in_call fn ns ok A key k"
| "thread_safe fn ns ok A (Waiting key c k) = in_call fn ns ok A key k"
| "thread_safe fn ns ok A (Returned (Val r)) = ok r A"
| "thread_safe fn ns ok A (Returned (Panic m)) = panic_seen fn ns A m"

lemma safe_mono:
  assumes "\<And>r A B. ok r A \<Longrightarrow> A \<subseteq> B \<Longrightarrow> ok r B"
    and c: "safe fn ns ok A c" and sub: "A \<subseteq> B"
  shows "safe fn ns ok B c"
proof -
  have up: "B \<subseteq> X \<Longrightarrow> A \<subseteq> X" for X using sub by blast
  show ?thesis
    using c assms(1) [OF _ sub] from_mono(1,4) [OF sub] up by (cases c) simp_all
qed

lemma continues_mono: "continues fn ns ok get A k \<Longrightarrow> A \<subseteq> B \<Longrightarrow> continues fn ns ok get B k"
  unfolding continues_def by (blast intro: order_trans)

lemma thread_safe_mono:
  assumes "\<And>r A B. ok r A \<Longrightarrow> A \<subseteq> B \<Longrightarrow> ok r B" "A \<subseteq> B"
  shows "thread_safe fn ns ok A th \<Longrightarrow> thread_safe fn ns ok B th"
  using assms(2) safe_mono [where ok = ok, OF assms(1)] assms(1) [of _ A B]
  by (induction fn ns ok A th rule: thread_safe.induct)
    (auto simp: in_call_def intro: continues_mono from_mono)

section \<open>The calls of all goroutines\<close>

text \<open>Every request for replicas comes after an answer that none is wanted.\<close>

definition resizes_justified :: "call list \<Rightarrow> bool" where
  "resizes_justified cs \<longleftrightarrow> (\<forall>i fn ns n e. i < length cs \<longrightarrow> cs ! i = SetCall fn ns n e \<longrightarrow>
     justified fn ns (set (take i cs)) (Resize fn ns n))"

lemma resizes_justified_snoc:
  "resizes_justified (cs @ [x]) \<longleftrightarrow> resizes_justified cs \<and>
     (\<forall>fn ns n e. x = SetCall fn ns n e \<longrightarrow> justified fn ns (set cs) (Resize fn ns n))"
  unfolding resizes_justified_def by (auto simp: nth_append less_Suc_eq)

text \<open>What is known of the outcome that a call object holds, and of the stored entries.\<close>

definition outcomes_from :: "call set \<Rightarrow> (nat \<Rightarrow> flight option) \<Rightarrow> bool" where
  "outcomes_from A fl \<longleftrightarrow> (\<forall>c f v. fl c = Some f \<longrightarrow> outcome f = Some v \<longrightarrow>
     (\<exists>fn ns p. CHR ''.'' \<notin> set ns \<and> op_for fn ns p \<and> fkey f = op_key p \<and> outcome_from fn ns (is_query p) A v))"

definition entries_from :: "call set \<Rightarrow> (string \<Rightarrow> ServiceQueryResponse option) \<Rightarrow> bool" where
  "entries_from A m \<longleftrightarrow> (\<forall>k q. m k = Some q \<longrightarrow>
     (\<exists>fn ns. CHR ''.'' \<notin> set ns \<and> k = cache_key fn ns \<and> answered A fn ns q))"

definition threads_from :: "(string \<Rightarrow> string \<Rightarrow> 'r \<Rightarrow> call set \<Rightarrow> bool) \<Rightarrow> call set \<Rightarrow> (nat \<Rightarrow> 'r thread option)
    \<Rightarrow> (nat \<Rightarrow> (string \<times> string) option) \<Rightarrow> bool" where
  "threads_from ok A m j \<longleftrightarrow> (\<forall>t th. m t = Some th \<longrightarrow>
     (\<exists>fn ns. j t = Some (fn, ns) \<and> CHR ''.'' \<notin> set ns \<and> thread_safe fn ns (ok fn ns) A th))"

lemma outcomes_mono: "outcomes_from A fl \<Longrightarrow> A \<subseteq> B \<Longrightarrow> outcomes_from B fl"
  unfolding outcomes_from_def using from_mono(3) by blast

lemma entries_mono: "entries_from A m \<Longrightarrow> A \<subseteq> B \<Longrightarrow> entries_from B m"
  unfolding entries_from_def using from_mono(1) by blast

lemma entries_hit:
  assumes "entries_from A m" "m (cache_key fn ns) = Some q" "CHR ''.'' \<notin> set ns"
  shows "answered A fn ns q"
proof -
  obtain fn' ns' where "CHR ''.'' \<notin> set ns'" "cache_key fn ns = cache_key fn' ns'" "answered A fn' ns' q"
    using assms(1,2) unfolding entries_from_def by blast
  with cache_key_injective [OF assms(3)] show ?thesis by simp
qed

lemma outcomes_same:
  assumes "outcomes_from A fl" "fl c = Some f" "outcome f' = outcome f" "fkey f' = fkey f"
  shows "outcomes_from A (fl(c \<mapsto> f'))"
  unfolding outcomes_from_def
proof (intro allI impI)
  fix d g v
  assume g: "(fl(c \<mapsto> f')) d = Some g" "outcome g = Some v"
  then obtain h where "fl d = Some h" "outcome h = Some v" "fkey h = fkey g"
    using assms(2-4) by (cases "d = c") auto
  with assms(1) show "\<exists>fn ns p. CHR ''.'' \<notin> set ns \<and> op_for fn ns p \<and> fkey g = op_key p \<and> outcome_from fn ns (is_query p) A v"
    unfolding outcomes_from_def by metis
qed

text \<open>
  Goroutines whose code is safe. The laws of \<open>scaling_run\<close> are about the cache and the log of calls;
  the others say that the clock and \<open>SetReplicas\<close> do not touch the cache, that a result stays good
  while more calls are made, and that the code is safe.
\<close>

locale goroutines = scaling_run C entry Q log env
  for C :: "'s FunctionCacher" and entry and Q :: "'s ServiceQuery" and log and env +
  fixes code_of :: "string \<Rightarrow> string \<Rightarrow> 'r code"
    and ok :: "string \<Rightarrow> string \<Rightarrow> 'r \<Rightarrow> call set \<Rightarrow> bool"
  assumes now_entry: "Now env s = (t, s') \<Longrightarrow> entry s' = entry s"
    and sleep_entry: "entry (Sleep env d s) = entry s"
    and set_query_entry: "SetReplicas Q fn ns n s = (e, s') \<Longrightarrow> entry s' = entry s"
    and ok_mono: "ok fn ns r A \<Longrightarrow> A \<subseteq> B \<Longrightarrow> ok fn ns r B"
    and code_safe: "safe fn ns (ok fn ns) A (code_of fn ns)"
begin

abbreviation rt :: "'s runtime" where
  "rt \<equiv> \<lparr>clock = env, cacher = C, provider = Q\<rparr>"

abbreviation made :: "'s \<Rightarrow> call set" where
  "made w \<equiv> set (log w)"

definition sys_ok :: "('s, 'r) system \<Rightarrow> bool" where
  "sys_ok s \<longleftrightarrow> threads_from ok (made (shared s)) (threads s) (jobs s)
     \<and> outcomes_from (made (shared s)) (flights s)
     \<and> entries_from (made (shared s)) (entry (shared s))
     \<and> resizes_justified (log (shared s))"

lemma threads_mono:
  assumes "threads_from ok A m j" "A \<subseteq> B"
  shows "threads_from ok B m j"
  unfolding threads_from_def
proof (intro allI impI)
  fix t th
  assume "m t = Some th"
  with assms(1) obtain fn ns where j: "j t = Some (fn, ns)" "CHR ''.'' \<notin> set ns" "thread_safe fn ns (ok fn ns) A th"
    unfolding threads_from_def by blast
  have "thread_safe fn ns (ok fn ns) B th"
    by (rule thread_safe_mono [where ok = "ok fn ns", OF _ assms(2) j(3)]) (rule ok_mono)
  with j show "\<exists>fn ns. j t = Some (fn, ns) \<and> CHR ''.'' \<notin> set ns \<and> thread_safe fn ns (ok fn ns) B th" by blast
qed

lemma local_log:
  assumes "local_step rt c w = (th, w')"
  shows "log w' = log w"
  using assms by (cases c)
    (auto simp: time_Now_def time_Sleep_def now_log sleep_log dest: get_log set_log split: prod.splits)

lemma local_entries:
  assumes "local_step rt c w = (th, w')" "safe fn ns R (made w) c" "CHR ''.'' \<notin> set ns"
    and "entries_from (made w) (entry w)"
  shows "entries_from (made w) (entry w')"
proof (cases c)
  case (CacheSet f n q c')
  obtain w1 where w1: "CSet C fn ns q w = (Val (), w1)" "entry w1 = (entry w)(cache_key fn ns \<mapsto> q)" by (rule set_cases)
  with CacheSet assms(1,2) have "w' = w1" by auto
  with w1 CacheSet assms(2-4) show ?thesis unfolding entries_from_def by auto
qed (use assms in \<open>auto simp: time_Now_def time_Sleep_def now_entry sleep_entry dest: get_keeps split: prod.splits\<close>)

lemma local_safe:
  assumes "local_step rt c w = (th, w')" "safe fn ns R (made w) c" "CHR ''.'' \<notin> set ns" "\<not> is_flight c"
    and "entries_from (made w) (entry w)"
  shows "thread_safe fn ns R (made w) th"
proof (cases c)
  case (CacheGet f n k)
  obtain q h w1 where g: "CGet C fn ns w = (Val (q, h), w1)" using get_total by blast
  with CacheGet assms(1,2) have th: "th = Running (k (q, h))" by (auto simp: settled_def)
  have "h \<longrightarrow> answered (made w) fn ns q"
    using g get_hit entries_hit [OF assms(5) _ assms(3)] by (cases h) auto
  with th CacheGet assms(2) show ?thesis by auto
next
  case (CacheSet f n q c')
  obtain w1 where "CSet C fn ns q w = (Val (), w1)" by (metis set_total)
  with CacheSet assms(1,2) show ?thesis by (auto simp: settled_def)
next
  case (GetTime k)
  obtain x w1 where "Now env w = (x, w1)" by fastforce
  with GetTime assms(1) have "th = Running (k x)" by (simp add: time_Now_def settled_def)
  with GetTime assms(2) show ?thesis by simp
next
  case (SleepFor d c')
  with assms(1) have "th = Running c'" by (simp add: time_Sleep_def settled_def)
  with SleepFor assms(2) show ?thesis by simp
qed (use assms(1,2,4) in auto)

text \<open>The call of the provider that a leader makes.\<close>

lemma call_effect:
  assumes "exec_op Q p w = (v, w')" "op_for fn ns p" "justified fn ns (made w) p" "resizes_justified (log w)"
  shows "\<exists>x. log w' = log w @ [x]" "entry w' = entry w" "resizes_justified (log w')"
    "outcome_from fn ns (is_query p) (made w') v"
proof -
  have "\<exists>x. log w' = log w @ [x] \<and> entry w' = entry w \<and> resizes_justified (log w @ [x])
      \<and> outcome_from fn ns (is_query p) (insert x (made w)) v"
  proof (cases p)
    case (Query f n)
    obtain u w1 where u: "GetReplicas Q fn ns w = (u, w1)" by fastforce
    have "w' = w1" "v = (case u of Val (q, e) \<Rightarrow> Val (Some q, e) | Panic m \<Rightarrow> Panic m)"
      using assms(1,2) Query u by (auto simp: op_for_def bindp_run retp_run split: go.splits prod.splits)
    then show ?thesis using query_log [OF u] query_keeps [OF u] assms(4) Query
      by (auto simp: outcome_from_def flown_from_def is_query_def resizes_justified_snoc panic_seen_def split: go.splits)
  next
    case (Resize f n k)
    obtain u w1 where u: "SetReplicas Q fn ns k w = (u, w1)" by fastforce
    have "w' = w1" "v = (case u of Val e \<Rightarrow> Val (None, set_error fn e) | Panic m \<Rightarrow> Panic m)"
      using assms(1,2) Resize u by (auto simp: op_for_def bindp_run retp_run set_error_def split: go.splits option.splits)
    then show ?thesis using set_query_log [OF u] set_query_entry [OF u] assms(2,3,4) Resize
      by (auto simp: outcome_from_def flown_from_def is_query_def resizes_justified_snoc panic_seen_def op_for_def split: go.splits)
  qed
  then show "\<exists>x. log w' = log w @ [x]" "entry w' = entry w" "resizes_justified (log w')"
    "outcome_from fn ns (is_query p) (made w') v" by auto
qed

lemma settled_safe:
  assumes "in_call fn ns R A key k" "outcome_from fn' ns' get A v" "CHR ''.'' \<notin> set ns" "CHR ''.'' \<notin> set ns'"
    and "op_for fn' ns' p'" "key = op_key p'" "get = is_query p'"
  shows "thread_safe fn ns R A (settled v k)"
proof -
  from assms(1) obtain p where p: "key = op_key p" "op_for fn ns p" "continues fn ns R (is_query p) A k"
    unfolding in_call_def by blast
  have "fn = fn' \<and> ns = ns' \<and> is_query p = is_query p'"
    using op_key_eq [OF p(2) assms(5)] p(1) assms by simp
  with p assms(2,7) show ?thesis by (cases v) (auto simp: settled_def outcome_from_def continues_def)
qed

lemma moved_threads:
  assumes "threads_from ok A m j" "m t = Some th" "A \<subseteq> B"
    and "\<And>fn ns. j t = Some (fn, ns) \<Longrightarrow> CHR ''.'' \<notin> set ns \<Longrightarrow> thread_safe fn ns (ok fn ns) A th
      \<Longrightarrow> thread_safe fn ns (ok fn ns) B th'"
  shows "threads_from ok B (m(t \<mapsto> th')) j"
  using assms threads_mono [OF assms(1,3)] unfolding threads_from_def by (metis fun_upd_apply option.inject)

lemma thread_job:
  assumes "sys_ok s" "threads s t = Some th"
  obtains fn ns where "jobs s t = Some (fn, ns)" "CHR ''.'' \<notin> set ns" "thread_safe fn ns (ok fn ns) (made (shared s)) th"
  using assms unfolding sys_ok_def threads_from_def by blast

lemma step_sys_ok:
  assumes "step_of rt t s = Some s'" "sys_ok s" "flights_ok s"
  shows "sys_ok s'"
proof -
  have i: "threads_from ok (made (shared s)) (threads s) (jobs s)" "outcomes_from (made (shared s)) (flights s)"
    "entries_from (made (shared s)) (entry (shared s))" "resizes_justified (log (shared s))"
    using assms(2) by (simp_all add: sys_ok_def)
  from assms(1) show ?thesis
  proof (cases rule: step_cases)
    case (local_move c th w)
    obtain fn ns where job: "jobs s t = Some (fn, ns)" "CHR ''.'' \<notin> set ns" "safe fn ns (ok fn ns) (made (shared s)) c"
      by (rule thread_job [OF assms(2) local_move(1)]) auto
    have l: "log w = log (shared s)" by (rule local_log [OF local_move(3)])
    have "entries_from (made (shared s)) (entry w)"
      by (rule local_entries [OF local_move(3) job(3,2) i(3)])
    moreover have "threads_from ok (made (shared s)) ((threads s)(t \<mapsto> th)) (jobs s)"
      using local_safe [OF local_move(3) job(3,2) local_move(2) i(3)] job(1)
      by (intro moved_threads [OF i(1) local_move(1)]) auto
    ultimately show ?thesis using i local_move l by (simp add: sys_ok_def)
  next
    case (join key p k c)
    obtain f where f: "flights s c = Some f"
      using assms(3) join(2) unfolding flights_ok_def inv_owner_def inv_lead_def by metis
    have "outcomes_from (made (shared s)) ((flights s)(c \<mapsto> f\<lparr>dups := dups f + 1\<rparr>))"
      by (rule outcomes_same [OF i(2) f]) simp_all
    moreover have "threads_from ok (made (shared s)) ((threads s)(t \<mapsto> Waiting key c k)) (jobs s)"
      by (rule moved_threads [OF i(1) join(1)]) (auto simp: in_call_def continues_def)
    ultimately show ?thesis using i join f by (simp add: sys_ok_def)
  next
    case (lead key p k)
    have "outcomes_from (made (shared s)) ((flights s)(fresh s \<mapsto> \<lparr>pending = True, outcome = None, dups = 0, fkey = key\<rparr>))"
      using i(2) unfolding outcomes_from_def by auto
    moreover have "threads_from ok (made (shared s)) ((threads s)(t \<mapsto> Leading key (fresh s) p k)) (jobs s)"
      by (rule moved_threads [OF i(1) lead(1)]) (auto simp: continues_def)
    ultimately show ?thesis using i lead by (simp add: sys_ok_def)
  next
    case (call_move key c p k v w)
    obtain fn ns where job: "jobs s t = Some (fn, ns)" "CHR ''.'' \<notin> set ns" "key = op_key p" "op_for fn ns p"
      "justified fn ns (made (shared s)) p" "continues fn ns (ok fn ns) (is_query p) (made (shared s)) k"
      by (rule thread_job [OF assms(2) call_move(1)]) auto
    from call_move(2) have ex: "exec_op Q p (shared s) = (v, w)" by simp
    note eff = call_effect [OF ex job(4,5) i(4)]
    from eff(1) have sub: "made (shared s) \<subseteq> made w" by auto
    have "leading s t = Some (key, c)" using at_thread [OF call_move(1)] by simp
    then obtain f where f: "flights s c = Some f" "fkey f = key"
      using assms(3) unfolding flights_ok_def inv_lead_def by blast
    have "outcomes_from (made w) ((flights s)(c \<mapsto> f\<lparr>outcome := Some v\<rparr>))"
      using outcomes_mono [OF i(2) sub] eff(4) job(2-4) f(2) unfolding outcomes_from_def by auto
    moreover have "threads_from ok (made w) ((threads s)(t \<mapsto> Finishing key c k)) (jobs s)"
      using continues_mono [OF job(6) sub] job
      by (intro moved_threads [OF i(1) call_move(1) sub]) (auto simp: in_call_def)
    ultimately show ?thesis using entries_mono [OF i(3) sub] eff(2,3) call_move(3) f by (simp add: sys_ok_def)
  next
    case (finish_move key c k f v)
    have "leading s t = Some (key, c)" using at_thread [OF finish_move(1)] by simp
    then have "fkey f = key" using assms(3) finish_move(2) unfolding flights_ok_def inv_lead_def by fastforce
    then obtain fn' ns' p' where v: "CHR ''.'' \<notin> set ns'" "op_for fn' ns' p'" "key = op_key p'"
      "outcome_from fn' ns' (is_query p') (made (shared s)) v"
      using i(2) finish_move(2,3) unfolding outcomes_from_def by blast
    have "threads_from ok (made (shared s)) ((threads s)(t \<mapsto> settled v k)) (jobs s)"
      using settled_safe [OF _ v(4) _ v(1,2,3) refl]
      by (intro moved_threads [OF i(1) finish_move(1)]) auto
    moreover have "outcomes_from (made (shared s)) ((flights s)(c \<mapsto> f\<lparr>pending := False\<rparr>))"
      by (rule outcomes_same [OF i(2) finish_move(2)]) simp_all
    ultimately show ?thesis using i finish_move by (simp add: sys_ok_def)
  next
    case (wake key c k f v)
    have "waiting s t = Some (key, c)" using at_thread [OF wake(1)] by simp
    then have "fkey f = key" using assms(3) wake(2) unfolding flights_ok_def inv_wait_def by fastforce
    then obtain fn' ns' p' where v: "CHR ''.'' \<notin> set ns'" "op_for fn' ns' p'" "key = op_key p'"
      "outcome_from fn' ns' (is_query p') (made (shared s)) v"
      using i(2) wake(2,4) unfolding outcomes_from_def by blast
    have "threads_from ok (made (shared s)) ((threads s)(t \<mapsto> settled v k)) (jobs s)"
      using settled_safe [OF _ v(4) _ v(1,2,3) refl]
      by (intro moved_threads [OF i(1) wake(1)]) auto
    then show ?thesis using i wake by (simp add: sys_ok_def)
  qed
qed

lemma reached_sys_ok:
  assumes "reached rt code_of s0 s" "entry s0 = Map.empty" "log s0 = []"
  shows "sys_ok s"
  using assms(1)
proof (induction rule: reached.induct)
  case start
  show ?case using assms(2,3)
    by (simp add: sys_ok_def new_system_def threads_from_def outcomes_from_def entries_from_def resizes_justified_def)
next
  case (request s t ns fn)
  have "threads_from ok (made (shared s)) ((threads s)(t \<mapsto> Running (code_of fn ns))) ((jobs s)(t \<mapsto> (fn, ns)))"
    unfolding threads_from_def
  proof (intro allI impI)
    fix t' th
    assume th: "((threads s)(t \<mapsto> Running (code_of fn ns))) t' = Some th"
    show "\<exists>fn' ns'. ((jobs s)(t \<mapsto> (fn, ns))) t' = Some (fn', ns') \<and> CHR ''.'' \<notin> set ns'
        \<and> thread_safe fn' ns' (ok fn' ns') (made (shared s)) th"
    proof (cases "t' = t")
      case True
      with th have "th = Running (code_of fn ns)" by simp
      with True request.hyps(3) code_safe [of fn ns] show ?thesis by simp
    next
      case False
      with th have "threads s t' = Some th" by simp
      then obtain fn' ns' where "jobs s t' = Some (fn', ns')" "CHR ''.'' \<notin> set ns'"
        "thread_safe fn' ns' (ok fn' ns') (made (shared s)) th" by (rule thread_job [OF request.IH])
      with False show ?thesis by (intro exI [of _ fn'] exI [of _ ns']) simp
    qed
  qed
  with request.IH show ?case by (simp add: sys_ok_def arrive_def)
next
  case (move s t s')
  show ?case by (rule step_sys_ok [OF move.hyps(2) move.IH reached_flights_ok [OF move.hyps(1)]])
qed

end

end
