(* ===== verification/ScaleConcurrent.thy ===== *)
theory ScaleConcurrent
  imports Interleaving
begin

text \<open>
  Any number of requests that scale functions from zero at the same time, on one cache, one single
  flight and one provider, and any number of queries through the cache: the code of both is safe, so
  the facts of the locale \<open>goroutines\<close> hold for them.
\<close>

section \<open>Safe code, piece by piece\<close>

lemma safe_bindc:
  assumes "safe fn ns R A c" "\<And>r B. A \<subseteq> B \<Longrightarrow> R r B \<Longrightarrow> safe fn ns S B (k r)"
  shows "safe fn ns S A (bindc c k)"
  using assms
proof (induction c arbitrary: A)
  case (GetTime c)
  have "safe fn ns S B (bindc (c t) k)" if "A \<subseteq> B" for B t
    using GetTime.prems that by (intro GetTime.IH) auto
  then show ?case by simp
next
  case (SleepFor d c)
  have "safe fn ns S B (bindc c k)" if "A \<subseteq> B" for B
    using SleepFor.prems that by (intro SleepFor.IH) auto
  then show ?case by simp
next
  case (CacheGet f n c)
  have "safe fn ns S B (bindc (c (q, h)) k)" if "A \<subseteq> B" "h \<longrightarrow> answered B fn ns q" for B q h
    using CacheGet.prems that by (intro CacheGet.IH) auto
  with CacheGet.prems show ?case by simp
next
  case (CacheSet f n q c)
  have "safe fn ns S B (bindc c k)" if "A \<subseteq> B" for B
    using CacheSet.prems that by (intro CacheSet.IH) auto
  with CacheSet.prems show ?case by simp
next
  case (Flight key p c)
  have "safe fn ns S B (bindc (c x) k)" if "A \<subseteq> B" "flown_from fn ns (is_query p) B x" for B x
    using Flight.prems that by (intro Flight.IH) (auto simp del: split_paired_All)
  with Flight.prems show ?case by (simp del: split_paired_All)
qed auto

text \<open>An error that the provider reported, and results that rest on its answers.\<close>

definition provider_error :: "string \<Rightarrow> string \<Rightarrow> call set \<Rightarrow> string \<Rightarrow> bool" where
  "provider_error fn ns A e \<longleftrightarrow> (\<exists>q. GetCall fn ns (Val (q, Some e)) \<in> A)
     \<or> (\<exists>n m. SetCall fn ns n (Val (Some m)) \<in> A \<and> set_error fn (Some m) = Some e)"

definition error_ok :: "string \<Rightarrow> string \<Rightarrow> goerror \<Rightarrow> call set \<Rightarrow> bool" where
  "error_ok fn ns err A \<longleftrightarrow> (\<forall>e. err = Some e \<longrightarrow> provider_error fn ns A e)"

definition scale_ok :: "string \<Rightarrow> string \<Rightarrow> FunctionScaleResult \<Rightarrow> call set \<Rightarrow> bool" where
  "scale_ok fn ns r A \<longleftrightarrow> result_wf r \<and> error_ok fn ns (Error r) A \<and> (Found r \<longrightarrow> (\<exists>q. answered A fn ns q))"

definition query_ok :: "string \<Rightarrow> string \<Rightarrow> ServiceQueryResponse \<times> goerror \<Rightarrow> call set \<Rightarrow> bool" where
  "query_ok fn ns r A \<longleftrightarrow> (case snd r of None \<Rightarrow> answered A fn ns (fst r)
     | Some e \<Rightarrow> fst r = empty_response \<and> (provider_error fn ns A e \<or> e = ''error with cache key: '' @ fn @ ''.'' @ ns))"

lemma provider_error_mono: "provider_error fn ns A e \<Longrightarrow> A \<subseteq> B \<Longrightarrow> provider_error fn ns B e"
  unfolding provider_error_def by blast

lemma error_ok_mono: "error_ok fn ns e A \<Longrightarrow> A \<subseteq> B \<Longrightarrow> error_ok fn ns e B"
  unfolding error_ok_def using provider_error_mono by blast

lemma scale_ok_mono: "scale_ok fn ns r A \<Longrightarrow> A \<subseteq> B \<Longrightarrow> scale_ok fn ns r B"
  unfolding scale_ok_def using error_ok_mono from_mono(1) by blast

lemma query_ok_mono: "query_ok fn ns r A \<Longrightarrow> A \<subseteq> B \<Longrightarrow> query_ok fn ns r B"
  unfolding query_ok_def using provider_error_mono from_mono(1) by (auto split: option.splits)

lemma key_simps [simp]:
  "op_key (Query fn ns) = getKey fn ns" "op_key (Resize fn ns c) = setKey fn ns"
  "op_for f n (Query fn ns) \<longleftrightarrow> fn = f \<and> ns = n" "op_for f n (Resize fn ns c) \<longleftrightarrow> fn = f \<and> ns = n"
  "is_query (Query fn ns)" "\<not> is_query (Resize fn ns c)" "justified f n A (Query fn ns)"
  by (simp_all add: op_key_def op_for_def is_query_def justified_def)

lemma answer_cases:
  assumes "flown_from fn ns True A x"
  obtains q e where "x = (Some q, e)" "e = None \<Longrightarrow> answered A fn ns q" "error_ok fn ns e A"
proof -
  from assms obtain q e where x: "x = (Some q, e)" "GetCall fn ns (Val (q, e)) \<in> A" by (auto simp: flown_from_def)
  then have "error_ok fn ns e A" by (auto simp: error_ok_def provider_error_def)
  with x show ?thesis by (intro that [of q e]) (simp_all add: answered_def)
qed

lemma resize_cases:
  assumes "flown_from fn ns False A x"
  obtains e where "x = (None, e)" "error_ok fn ns e A"
proof -
  from assms obtain n e where x: "x = (None, set_error fn e)" "SetCall fn ns n (Val e) \<in> A" by (auto simp: flown_from_def)
  then have "error_ok fn ns (set_error fn e) A"
    by (cases e) (auto simp: error_ok_def provider_error_def set_error_def)
  with x(1) show ?thesis by (rule that)
qed

lemma safe_result:
  assumes "error_ok fn ns e A" "a \<longleftrightarrow> e = None" "a \<longrightarrow> f" "f \<longrightarrow> (\<exists>q. answered A fn ns q)"
  shows "safe fn ns (scale_ok fn ns) A (result_code start e a f)"
proof -
  have "scale_ok fn ns \<lparr>Available = a, Error = e, Found = f, Duration = d\<rparr> A" for d
    using assms by (auto simp: scale_ok_def result_wf_def)
  from scale_ok_mono [OF this] show ?thesis by (simp add: result_code_def)
qed

lemma safe_attempt:
  assumes "mn > 0"
  shows "safe fn ns (error_ok fn ns) A (attempt_code fn ns mn i)"
proof -
  have resized: "safe fn ns (error_ok fn ns) B (case x of (_, err) \<Rightarrow> case err of Some e \<Rightarrow> Return (Some e) | None \<Rightarrow> Return None)"
    if "flown_from fn ns False B x" for B x
    using that by (cases rule: resize_cases) (auto simp: error_ok_def split: option.split)
  have "safe fn ns (error_ok fn ns) B (case x of (res, err) \<Rightarrow> case err of
         Some e \<Rightarrow> Return (Some e)
       | None \<Rightarrow> asserted res (\<lambda>q. CacheSet fn ns q (if Replicas q > 0 then Return None
                else Flight (setKey fn ns) (Resize fn ns mn)
                    (\<lambda>(_, err). case err of Some e \<Rightarrow> Return (Some e) | None \<Rightarrow> Return None))))"
    if x: "flown_from fn ns True B x" for B x
  proof (cases rule: answer_cases [OF x])
    case (1 q e)
    show ?thesis
    proof (cases e)
      case None
      with 1 have q: "answered B fn ns q" by simp
      have "justified fn ns D (Resize fn ns mn)" if "B \<subseteq> D" "\<not> Replicas q > 0" for D
        using assms from_mono(1) [OF that(1) q] that(2) by (auto simp: justified_def word_gt_0)
      with 1 None q resized show ?thesis by (auto simp: asserted_def error_ok_def)
    qed (use 1 in \<open>auto simp: error_ok_def\<close>)
  qed
  then show ?thesis by (auto simp: attempt_code_def)
qed

lemma safe_retry:
  assumes "\<And>i B. A \<subseteq> B \<Longrightarrow> safe fn ns (error_ok fn ns) B (r i)" "error_ok fn ns err A"
  shows "safe fn ns (error_ok fn ns) A (retry_code r d i n err)"
  using assms
proof (induction n arbitrary: i err A)
  case (Suc n)
  have rest: "safe fn ns (error_ok fn ns) B (case res of Some e \<Rightarrow> SleepFor d (retry_code r d (i + 1) n (Some e)) | None \<Rightarrow> Return None)"
    if B: "A \<subseteq> B" "error_ok fn ns res B" for res B
  proof (cases res)
    case (Some e)
    have "safe fn ns (error_ok fn ns) D (retry_code r d (i + 1) n (Some e))" if "B \<subseteq> D" for D
    proof (rule Suc.IH)
      show "safe fn ns (error_ok fn ns) X (r j)" if "D \<subseteq> X" for X j
        using B(1) \<open>B \<subseteq> D\<close> that by (intro Suc.prems(1)) simp
      show "error_ok fn ns (Some e) D" using error_ok_mono [OF B(2) that] Some by simp
    qed
    with Some show ?thesis by simp
  qed (simp add: error_ok_def)
  show ?case unfolding retry_code.simps by (rule safe_bindc [OF Suc.prems(1)]) (simp_all add: rest)
qed simp

lemma safe_poll:
  assumes "answered A fn ns q0"
  shows "safe fn ns (scale_ok fn ns) A (poll_code cfg fn ns start n)"
  using assms
proof (induction n arbitrary: A)
  case 0
  then show ?case by (auto intro: safe_result simp: error_ok_def)
next
  case (Suc n)
  have "safe fn ns (scale_ok fn ns) B (case x of (res, err) \<Rightarrow> asserted res (\<lambda>q.
         (case err of
            Some e \<Rightarrow> GetTime (\<lambda>t. Return \<lparr>Available = False, Error = Some e, Found = True, Duration = t - start\<rparr>)
          | None \<Rightarrow> CacheSet fn ns q (GetTime (\<lambda>t.
              if AvailableReplicas q > 0
              then Return \<lparr>Available = True, Error = None, Found = True, Duration = t - start\<rparr>
              else SleepFor (FunctionPollInterval cfg) (poll_code cfg fn ns start n))))))"
    if B: "A \<subseteq> B" "flown_from fn ns True B x" for B x
  proof (cases rule: answer_cases [OF B(2)])
    case (1 q e)
    have known: "answered D fn ns q0" if "B \<subseteq> D" for D
      using from_mono(1) Suc.prems B(1) that by blast
    have res: "scale_ok fn ns \<lparr>Available = (e = None), Error = e, Found = True, Duration = d\<rparr> D" if "B \<subseteq> D" for D d
      using error_ok_mono [OF 1(3) that] known [OF that] by (auto simp: scale_ok_def result_wf_def)
    show ?thesis
    proof (cases e)
      case None
      with 1 res Suc.IH [OF known] show ?thesis by (auto simp: asserted_def)
    next
      case (Some m)
      with 1 res show ?thesis by (auto simp: asserted_def)
    qed
  qed
  then show ?case by (auto simp del: split_paired_All)
qed

lemma safe_wait:
  assumes "answered A fn ns q"
  shows "safe fn ns (scale_ok fn ns) A (wait_code cfg fn ns start q)"
proof -
  have mn: "min_replicas_of q > 0" by (simp add: min_replicas_of_def)
  have "safe fn ns (error_ok fn ns) A (if Replicas q = 0
            then Retry_code (attempt_code fn ns (min_replicas_of q)) (go_int (SetScaleRetries cfg)) (FunctionPollInterval cfg)
            else Return None)"
    by (auto simp: Retry_code_def error_ok_def intro!: safe_retry safe_attempt [OF mn])
  then show ?thesis unfolding wait_code_def
  proof (rule safe_bindc)
    fix res B
    assume B: "A \<subseteq> B" "error_ok fn ns res B"
    have "answered B fn ns q" by (rule from_mono(1) [OF B(1) assms])
    with B show "safe fn ns (scale_ok fn ns) B (case res of Some e \<Rightarrow> result_code start (Some e) False True
       | None \<Rightarrow> poll_code cfg fn ns start (nat (go_int (MaxPollCount cfg))))"
      by (auto intro: safe_result safe_poll split: option.split)
  qed
qed

lemma Scale_code_safe: "safe fn ns (scale_ok fn ns) A (Scale_code cfg fn ns)"
proof -
  have none: "error_ok fn ns None B" for B by (simp add: error_ok_def)
  have "safe fn ns (scale_ok fn ns) B (case x of (res, err) \<Rightarrow> case (err, res) of
             (Some e, _) \<Rightarrow> result_code start (Some e) False False
           | (None, None) \<Rightarrow> result_code start (Some ''empty response from server'') False False
           | (None, Some q) \<Rightarrow>
               if AvailableReplicas q > 0 then result_code start None True True
               else CacheSet fn ns q (wait_code cfg fn ns start q))"
    if x: "flown_from fn ns True B x" for B x start
  proof (cases rule: answer_cases [OF x])
    case (1 q e)
    show ?thesis
    proof (cases e)
      case None
      with 1 have q: "answered B fn ns q" by simp
      then have "safe fn ns (scale_ok fn ns) B (result_code start None True True)"
        by (intro safe_result none) auto
      moreover have "safe fn ns (scale_ok fn ns) D (wait_code cfg fn ns start q)" if "B \<subseteq> D" for D
        by (rule safe_wait [OF from_mono(1) [OF that q]])
      ultimately show ?thesis using 1(1) None q by simp
    next
      case (Some m)
      with 1 show ?thesis by (auto intro: safe_result)
    qed
  qed
  moreover have "safe fn ns (scale_ok fn ns) B (result_code start None True True)" if "answered B fn ns q" for B q start
    using that by (intro safe_result none) auto
  ultimately show ?thesis by (auto simp: Scale_code_def)
qed

lemma Get_code_safe: "safe fn ns (query_ok fn ns) A (Get_code fn ns)"
proof -
  have reread: "safe fn ns (query_ok fn ns) B (CacheGet fn ns (\<lambda>(q, hit).
      if \<not> hit then Return (empty_response, Some (''error with cache key: '' @ fn @ ''.'' @ ns)) else Return (q, None)))" for B
    by (simp add: query_ok_def)
  have "safe fn ns (query_ok fn ns) B (case x of (res, err) \<Rightarrow> let reread = CacheGet fn ns (\<lambda>(query, hit).
                 if \<not> hit then Return (empty_response, Some (''error with cache key: '' @ fn @ ''.'' @ ns))
                 else Return (query, None))
           in case err of Some e \<Rightarrow> Return (empty_response, Some e)
              | None \<Rightarrow> (case res of None \<Rightarrow> reread | Some q \<Rightarrow> CacheSet fn ns q reread))"
    if x: "flown_from fn ns True B x" for B x
    by (cases rule: answer_cases [OF x])
      (use reread in \<open>auto simp: Let_def query_ok_def error_ok_def split: option.split\<close>)
  then show ?thesis by (auto simp: Get_code_def query_ok_def)
qed

section \<open>The length of the code\<close>

lemma within_bindc:
  assumes "within c n" "\<And>r. within (k r) m"
  shows "within (bindc c k) (n + m)"
  using assms
proof (induction c arbitrary: n)
  case (Return r)
  then show ?case using within_mono [of "k r" m] by simp
next
  case (CacheGet f n' c)
  have "within (bindc (c x) k) (n - 1 + m)" for x
    using CacheGet.prems by (intro CacheGet.IH) (auto simp del: split_paired_All)
  with CacheGet.prems(1) show ?case by (auto simp del: split_paired_All)
next
  case (Flight key p c)
  have "within (bindc (c x) k) (n - 3 + m)" for x
    using Flight.prems by (intro Flight.IH) (auto simp del: split_paired_All)
  with Flight.prems(1) show ?case by (auto simp del: split_paired_All)
next
  case (GetTime c)
  have "within (bindc (c x) k) (n - 1 + m)" for x
    using GetTime.prems by (intro GetTime.IH) auto
  with GetTime.prems(1) show ?case by auto
qed force+

lemma within_result: "2 \<le> n \<Longrightarrow> within (result_code start e a f) n"
  by (simp add: result_code_def)

lemma within_attempt: "within (attempt_code fn ns mn i) 8"
  by (auto simp: attempt_code_def asserted_def split: option.split)

lemma within_retry:
  assumes "\<And>i. within (r i) b"
  shows "within (retry_code r d i n err) (n * Suc b + 1)"
proof (induction n arbitrary: i err)
  case (Suc n)
  have "within (bindc (r i) (\<lambda>res. case res of Some e \<Rightarrow> SleepFor d (retry_code r d (i + 1) n (Some e))
      | None \<Rightarrow> Return None)) (b + (n * Suc b + 2))"
    by (rule within_bindc [OF assms]) (use Suc.IH in \<open>auto split: option.split\<close>)
  moreover have "b + (n * Suc b + 2) = Suc n * Suc b + 1" by simp
  ultimately show ?case by (simp only: retry_code.simps)
qed simp

lemma within_poll: "within (poll_code cfg fn ns start n) (6 * n + 2)"
proof (induction n)
  case (Suc n)
  from within_mono [OF this] show ?case
    by (auto simp: asserted_def split: option.split)
qed (simp add: within_result)

definition scale_steps :: "'s ScalingConfig \<Rightarrow> nat" where
  "scale_steps cfg = 9 * nat (go_int (SetScaleRetries cfg)) + 6 * nat (go_int (MaxPollCount cfg)) + 9"

lemma within_Scale: "within (Scale_code cfg fn ns) (scale_steps cfg)"
proof -
  let ?R = "nat (go_int (SetScaleRetries cfg))" and ?P = "nat (go_int (MaxPollCount cfg))"
  have retry: "within (if Replicas q = 0
            then Retry_code (attempt_code fn ns (min_replicas_of q)) (go_int (SetScaleRetries cfg)) (FunctionPollInterval cfg)
            else Return None) (9 * ?R + 1)" for q
    using within_retry [of "attempt_code fn ns (min_replicas_of q)" 8, OF within_attempt]
    by (simp add: Retry_code_def mult.commute)
  have "within (wait_code cfg fn ns start q) ((9 * ?R + 1) + (6 * ?P + 2))" for start q
    unfolding wait_code_def
    by (rule within_bindc [OF retry]) (use within_poll in \<open>auto intro: within_result split: option.split\<close>)
  then have wait: "within (wait_code cfg fn ns start q) n" if "9 * ?R + 6 * ?P + 3 \<le> n" for start q n
    by (rule within_mono) (use that in simp)
  show ?thesis
    using wait by (auto simp: Scale_code_def scale_steps_def intro!: within_result split: option.split)
qed

section \<open>The gateway's goroutines\<close>

definition gateway_runtime :: "'w Env \<Rightarrow> 'w ServiceQuery \<Rightarrow> 'w sstate runtime" where
  "gateway_runtime env Q = \<lparr>clock = lift_env env, cacher = cacher_of env, provider = lift_query Q\<rparr>"

definition empty_sstate :: "duration \<Rightarrow> 'w \<Rightarrow> 'w sstate" where
  "empty_sstate expiry w = \<lparr>fcache = NewFunctionCache expiry, calls = [], sworld = w\<rparr>"

lemma empty_sstate_sel [simp]: "stored (empty_sstate expiry w) = Map.empty" "calls (empty_sstate expiry w) = []"
  by (auto simp: empty_sstate_def stored_def NewFunctionCache_def)

text \<open>
  The states in which requests scale functions at the same time, and those in which functions are
  queried at the same time; each kind has a cache and a single flight of its own in the gateway.
\<close>

definition scaling_state :: "'w Env \<Rightarrow> 'w ServiceQuery \<Rightarrow> 'w sstate ScalingConfig \<Rightarrow> duration \<Rightarrow> 'w
    \<Rightarrow> ('w sstate, FunctionScaleResult) system \<Rightarrow> bool" where
  "scaling_state env Q cfg expiry w = reached (gateway_runtime env Q) (Scale_code cfg) (empty_sstate expiry w)"

definition querying_state :: "'w Env \<Rightarrow> 'w ServiceQuery \<Rightarrow> duration \<Rightarrow> 'w
    \<Rightarrow> ('w sstate, ServiceQueryResponse \<times> goerror) system \<Rightarrow> bool" where
  "querying_state env Q expiry w = reached (gateway_runtime env Q) Get_code (empty_sstate expiry w)"

interpretation scalers: goroutines "cacher_of env" stored "lift_query Q" calls "lift_env env" "Scale_code cfg" scale_ok
  for env Q cfg
  by unfold_locales
    (auto simp: stored_def fun_eq_iff Scale_code_safe intro: scale_ok_mono split: prod.splits)

interpretation queries: goroutines "cacher_of env" stored "lift_query Q" calls "lift_env env" Get_code query_ok
  for env Q
  by unfold_locales
    (auto simp: stored_def fun_eq_iff Get_code_safe intro: query_ok_mono split: prod.splits)

lemma scaling_ok:
  assumes "scaling_state env Q cfg expiry w s"
  shows "scalers.sys_ok s" "flights_ok s"
  using scalers.reached_sys_ok [of env Q cfg "empty_sstate expiry w" s] reached_flights_ok assms
  by (simp_all add: scaling_state_def gateway_runtime_def)

lemma querying_ok:
  assumes "querying_state env Q expiry w s"
  shows "queries.sys_ok s" "flights_ok s"
  using queries.reached_sys_ok [of env Q "empty_sstate expiry w" s] reached_flights_ok assms
  by (simp_all add: querying_state_def gateway_runtime_def)

section \<open>Properties\<close>

lemma same_numbers:
  assumes "FunctionPollInterval cfg = FunctionPollInterval cfg'" "MaxPollCount cfg = MaxPollCount cfg'"
    and "SetScaleRetries cfg = SetScaleRetries cfg'"
  shows "Scale_code cfg = Scale_code cfg'"
proof -
  have "poll_code cfg fn ns start n = poll_code cfg' fn ns start n" for fn ns start n
    by (induction n) (auto simp: assms(1) asserted_def fun_eq_iff split: option.split)
  then have poll: "poll_code cfg = poll_code cfg'" by (simp add: fun_eq_iff)
  have wait: "wait_code cfg = wait_code cfg'"
    unfolding fun_eq_iff wait_code_def poll assms by simp
  show ?thesis by (intro ext) (simp only: Scale_code_def wait)
qed

text \<open>
  Run by one goroutine alone, the code that the interleavings are made of is the sequential
  program, for the scaler and for the query through the cache.
\<close>

lemma code_alone_is_sequential:
  "run_code (gateway_runtime env Q) (Scale_code cfg fn ns) = Scale (lift_env env) (gateway_scaler env Q cfg) fn ns
  \<and> run_code (gateway_runtime env Q) (Get_code fn ns) = CachedFunctionQuery_Get (gateway_query env Q) fn ns"
proof -
  have "Scale_code (Config (gateway_scaler env Q cfg)) = Scale_code cfg"
    by (rule same_numbers) simp_all
  then show ?thesis
    using Scale_code_alone [of "lift_env env" "gateway_scaler env Q cfg" fn ns]
      Get_code_alone [of "lift_env env" "gateway_query env Q" fn ns]
    by (simp add: gateway_runtime_def NewCachedFunctionQuery_def)
qed

text \<open>
  C3: however requests interleave, every request for replicas that reaches the provider asks for at
  least one and comes after an answer of the provider that no replica of that function is wanted.
\<close>

theorem concurrent_resizes_justified:
  assumes "scaling_state env Q cfg expiry w s" "i < length (calls (shared s))"
    and "calls (shared s) ! i = SetCall fn ns n e"
  shows "n > 0 \<and> (\<exists>j r. j < i \<and> calls (shared s) ! j = GetCall fn ns (Val (r, None)) \<and> Replicas r = 0)"
proof -
  have "resizes_justified (calls (shared s))" using scaling_ok(1) [OF assms(1)] by (simp add: scalers.sys_ok_def)
  with assms(2,3) have "justified fn ns (set (take i (calls (shared s)))) (Resize fn ns n)"
    unfolding resizes_justified_def by blast
  then obtain r where "n > 0" "GetCall fn ns (Val (r, None)) \<in> set (take i (calls (shared s)))" "Replicas r = 0"
    by (auto simp: justified_def answered_def)
  then show ?thesis using assms(2) by (auto simp: in_set_conv_nth)
qed

text \<open>
  C16: at most one goroutine executes the function for a key, so the provider has at most one query and
  one scale request per function at a time.
\<close>

theorem concurrent_one_call_per_key:
  assumes "scaling_state env Q cfg expiry w s"
    and "threads s t = Some th" "leads th = Some (key, c)" "threads s t' = Some th'" "leads th' = Some (key, c')"
  shows "t = t'"
proof -
  have "inv_one s" using scaling_ok(2) [OF assms(1)] by (simp add: flights_ok_def)
  with at_thread [OF assms(2)] at_thread [OF assms(4)] assms(3,5) show ?thesis unfolding inv_one_def by metis
qed

text \<open>
  what the shared cache holds for a function is an answer that the provider gave for that
  function, whoever stored it.
\<close>

theorem concurrent_cache_holds_answers:
  assumes "scaling_state env Q cfg expiry w s" "stored (shared s) (cache_key fn ns) = Some q" "CHR ''.'' \<notin> set ns"
  shows "GetCall fn ns (Val (q, None)) \<in> set (calls (shared s))"
  using entries_hit [where m = "stored (shared s)", OF _ assms(2,3)] scaling_ok(1) [OF assms(1)] by (simp add: scalers.sys_ok_def answered_def)

text \<open>
  C4: what the requests that have returned got. A result is available or has an error, the error is
  one that the provider reported for that function, and a function is found only when the provider
  knew it; a goroutine panics only with a panic of the provider call, so no type assertion fails.
\<close>

theorem concurrent_results:
  assumes "scaling_state env Q cfg expiry w s" "threads s t = Some (Returned v)" "jobs s t = Some (fn, ns)"
  shows "case v of Val r \<Rightarrow> result_wf r \<and> (\<forall>e. Error r = Some e \<longrightarrow> provider_error fn ns (set (calls (shared s))) e)
      \<and> (Found r \<longrightarrow> (\<exists>q. GetCall fn ns (Val (q, None)) \<in> set (calls (shared s))))
    | Panic m \<Rightarrow> panic_seen fn ns (set (calls (shared s))) m"
proof -
  obtain fn' ns' where "jobs s t = Some (fn', ns')" "thread_safe fn' ns' (scale_ok fn' ns') (set (calls (shared s))) (Returned v)"
    by (rule scalers.thread_job [OF scaling_ok(1) [OF assms(1)] assms(2)])
  with assms(3) show ?thesis
    by (auto simp: scale_ok_def error_ok_def answered_def split: go.split)
qed

text \<open>
  C5: requests do not block each other forever. While no new request arrives, every schedule of the
  goroutines is at most as long as their number times the length of one, and when none of them can
  move any more, all have returned.
\<close>

theorem concurrent_requests_return:
  assumes "scaling_state env Q cfg expiry w s" "run_schedule (gateway_runtime env Q) ts s = Some s'"
  shows "length ts \<le> card (dom (threads s)) * scale_steps cfg
    \<and> ((\<forall>t. step_of (gateway_runtime env Q) t s' = None) \<longrightarrow> (\<forall>t th. threads s' t = Some th \<longrightarrow> is_returned th))"
  using schedules_end [OF assms(1)[unfolded scaling_state_def] within_Scale assms(2)] by blast

text \<open>
  C14: queries through the cache, however they interleave, answer with what the provider answered for
  that function, or with its error, or report that the answer went stale before it was read back.
\<close>

theorem concurrent_queries:
  assumes "querying_state env Q expiry w s" "threads s t = Some (Returned (Val (q, err)))" "jobs s t = Some (fn, ns)"
  shows "case err of None \<Rightarrow> GetCall fn ns (Val (q, None)) \<in> set (calls (shared s))
    | Some e \<Rightarrow> q = empty_response \<and> (provider_error fn ns (set (calls (shared s))) e
        \<or> e = ''error with cache key: '' @ fn @ ''.'' @ ns)"
proof -
  obtain fn' ns' where "jobs s t = Some (fn', ns')"
    "thread_safe fn' ns' (query_ok fn' ns') (set (calls (shared s))) (Returned (Val (q, err)))"
    by (rule queries.thread_job [OF querying_ok(1) [OF assms(1)] assms(2)])
  with assms(3) show ?thesis by (auto simp: query_ok_def answered_def split: option.split)
qed

section \<open>Witnesses\<close>

text \<open>Two cold starts of the same function, on the provider of theory FunctionScaler.\<close>

definition demo_start :: "((int \<times> uint64) sstate, FunctionScaleResult) system" where
  "demo_start = arrive (Scale_code demo_config) 1 ''echo'' ''fn''
     (arrive (Scale_code demo_config) 0 ''echo'' ''fn'' (new_system (empty_sstate 250 (0, 0))))"

definition demo_run :: "nat list \<Rightarrow> ((int \<times> uint64) sstate, FunctionScaleResult) system option" where
  "demo_run ts = run_schedule (gateway_runtime demo_env demo_query) ts demo_start"

lemma demo_start_state: "scaling_state demo_env demo_query demo_config 250 (0, 0) demo_start"
  unfolding scaling_state_def demo_start_def
  by (intro reached.request reached.start) (simp_all add: arrive_def new_system_def)

lemma demo_run_state:
  "demo_run ts = Some s \<Longrightarrow> scaling_state demo_env demo_query demo_config 250 (0, 0) s"
  using demo_start_state unfolding demo_run_def scaling_state_def by (rule schedule_reached)

text \<open>Both run to their end: they share queries, and one of them scales the function up.\<close>

definition demo_turns :: "nat list" where
  "demo_turns = [0, 0, 1, 0, 0, 1, 0, 0, 1, 0, 1, 1, 0, 0, 1, 0, 0, 1, 0, 0, 1, 1, 0, 0, 1, 0, 0, 1, 1, 1, 1, 1, 1]"

definition calls_get :: "call \<Rightarrow> uint64 option" where
  "calls_get c = (case c of GetCall _ _ (Val (q, None)) \<Rightarrow> Some (Replicas q) | _ \<Rightarrow> None)"

definition calls_set :: "call \<Rightarrow> (string \<times> string \<times> uint64) option" where
  "calls_set c = (case c of SetCall fn ns n _ \<Rightarrow> Some (fn, ns, n) | _ \<Rightarrow> None)"

definition available_result :: "('s, FunctionScaleResult) system \<Rightarrow> nat \<Rightarrow> bool" where
  "available_result s t = (case threads s t of Some (Returned (Val r)) \<Rightarrow> Available r \<and> Found r | _ \<Rightarrow> False)"

definition demo_check :: bool where
  "demo_check = (case demo_run demo_turns of None \<Rightarrow> False
     | Some s \<Rightarrow> map calls_get (calls (shared s)) = [Some 0, Some 0, None, Some 2, Some 2]
         \<and> calls_set (calls (shared s) ! 2) = Some (''echo'', ''fn'', 2)
         \<and> available_result s 0 \<and> available_result s 1 \<and> jobs s 1 = Some (''echo'', ''fn'')
         \<and> (case stored (shared s) (cache_key ''echo'' ''fn'') of None \<Rightarrow> False | Some q \<Rightarrow> AvailableReplicas q = 2))"

lemma demo_check: demo_check
  by code_simp

lemma demo_end:
  obtains s where "demo_run demo_turns = Some s" "length (calls (shared s)) = 5"
    "\<exists>e. calls (shared s) ! 2 = SetCall ''echo'' ''fn'' 2 e" "available_result s 0" "available_result s 1"
    "jobs s 1 = Some (''echo'', ''fn'')" "\<exists>q. stored (shared s) (cache_key ''echo'' ''fn'') = Some q"
proof -
  from demo_check obtain s where s: "demo_run demo_turns = Some s"
    and m: "map calls_get (calls (shared s)) = [Some 0, Some 0, None, Some 2, Some 2]"
    and c: "calls_set (calls (shared s) ! 2) = Some (''echo'', ''fn'', 2)"
    and r: "available_result s 0" "available_result s 1" "jobs s 1 = Some (''echo'', ''fn'')"
    and q: "\<exists>q. stored (shared s) (cache_key ''echo'' ''fn'') = Some q"
    by (auto simp: demo_check_def split: option.splits)
  from arg_cong [OF m, of length] have "length (calls (shared s)) = 5" by simp
  moreover from c have "\<exists>e. calls (shared s) ! 2 = SetCall ''echo'' ''fn'' 2 e"
    by (auto simp: calls_set_def split: call.splits)
  ultimately show ?thesis using that s r q by blast
qed

lemma available_returned:
  "available_result s t \<Longrightarrow> \<exists>r. threads s t = Some (Returned (Val r)) \<and> Available r \<and> Found r"
  by (auto simp: available_result_def split: option.splits thread.splits go.splits)

lemma concurrent_resizes_justified_witness:
  "\<exists>s j r. demo_run demo_turns = Some s \<and> j < 2 \<and> calls (shared s) ! j = GetCall ''echo'' ''fn'' (Val (r, None)) \<and> Replicas r = 0"
proof -
  obtain s e where s: "demo_run demo_turns = Some s" "length (calls (shared s)) = 5"
    "calls (shared s) ! 2 = SetCall ''echo'' ''fn'' 2 e" by (metis demo_end)
  have "2 < length (calls (shared s))" using s(2) by simp
  from concurrent_resizes_justified [OF demo_run_state [OF s(1)] this s(3)] s(1) show ?thesis by blast
qed

lemma concurrent_cache_holds_answers_witness:
  "\<exists>s q. demo_run demo_turns = Some s \<and> GetCall ''echo'' ''fn'' (Val (q, None)) \<in> set (calls (shared s))"
proof -
  obtain s q where s: "demo_run demo_turns = Some s" "stored (shared s) (cache_key ''echo'' ''fn'') = Some q" by (metis demo_end)
  have "CHR ''.'' \<notin> set ''fn''" by simp
  from concurrent_cache_holds_answers [OF demo_run_state [OF s(1)] s(2) this] s(1) show ?thesis by blast
qed

lemma concurrent_results_witness:
  "\<exists>s q. demo_run demo_turns = Some s \<and> available_result s 1 \<and> GetCall ''echo'' ''fn'' (Val (q, None)) \<in> set (calls (shared s))"
proof -
  obtain s where s: "demo_run demo_turns = Some s" "available_result s 1" "jobs s 1 = Some (''echo'', ''fn'')" by (metis demo_end)
  obtain r where r: "threads s 1 = Some (Returned (Val r))" "Found r" using available_returned [OF s(2)] by blast
  from concurrent_results [OF demo_run_state [OF s(1)] r(1) s(3)] r(2) s(1,2) show ?thesis by auto
qed

lemma concurrent_requests_return_witness:
  "demo_run demo_turns \<noteq> None \<and> length demo_turns \<le> card (dom (threads demo_start)) * 45"
proof -
  obtain s where s: "demo_run demo_turns = Some s" by (metis demo_end)
  have "scale_steps demo_config = 45" by (simp add: scale_steps_def demo_config_def)
  with concurrent_requests_return [OF demo_start_state s [unfolded demo_run_def]] s show ?thesis by simp
qed

text \<open>The first request is in \<open>doCall\<close>, the second waits for it.\<close>

lemma demo_leading: "case demo_run [0, 0, 1, 0, 1, 1] of None \<Rightarrow> False
   | Some s \<Rightarrow> (case threads s 0 of Some th \<Rightarrow> leads th = Some (getKey ''echo'' ''fn'', 0) | None \<Rightarrow> False)
       \<and> (case threads s 1 of Some th \<Rightarrow> waits th = Some (getKey ''echo'' ''fn'', 0) | None \<Rightarrow> False)"
  by code_simp

lemma concurrent_one_call_per_key_witness:
  "\<exists>s th. demo_run [0, 0, 1, 0, 1, 1] = Some s \<and> threads s 0 = Some th \<and> leads th = Some (getKey ''echo'' ''fn'', 0)
    \<and> (\<forall>t th' c. threads s t = Some th' \<longrightarrow> leads th' = Some (getKey ''echo'' ''fn'', c) \<longrightarrow> t = 0)"
proof -
  obtain s th where s: "demo_run [0, 0, 1, 0, 1, 1] = Some s" "threads s 0 = Some th" "leads th = Some (getKey ''echo'' ''fn'', 0)"
    using demo_leading by (auto split: option.splits)
  with concurrent_one_call_per_key [OF demo_run_state [OF s(1)] s(2,3)] show ?thesis by blast
qed

text \<open>Two queries through the cache.\<close>

definition demo_queries :: "((int \<times> uint64) sstate, ServiceQueryResponse \<times> goerror) system" where
  "demo_queries = arrive Get_code 1 ''echo'' ''fn'' (arrive Get_code 0 ''echo'' ''fn'' (new_system (empty_sstate 250 (0, 4))))"

lemma demo_queries_run: "case run_schedule (gateway_runtime demo_env demo_query) [0, 1, 0, 1, 0, 0, 1, 1, 0, 0, 0, 1, 1] demo_queries of
    None \<Rightarrow> False
  | Some s \<Rightarrow> jobs s 1 = Some (''echo'', ''fn'') \<and> (case threads s 1 of Some (Returned (Val (q, None))) \<Rightarrow> Replicas q = 4 | _ \<Rightarrow> False)"
  by code_simp

lemma concurrent_queries_witness:
  "\<exists>s q. run_schedule (gateway_runtime demo_env demo_query) [0, 1, 0, 1, 0, 0, 1, 1, 0, 0, 0, 1, 1] demo_queries = Some s
    \<and> Replicas q = 4 \<and> GetCall ''echo'' ''fn'' (Val (q, None)) \<in> set (calls (shared s))"
proof -
  obtain s q where s: "run_schedule (gateway_runtime demo_env demo_query) [0, 1, 0, 1, 0, 0, 1, 1, 0, 0, 0, 1, 1] demo_queries = Some s"
    "jobs s 1 = Some (''echo'', ''fn'')" "threads s 1 = Some (Returned (Val (q, None)))" "Replicas q = 4"
    using demo_queries_run by (auto split: option.splits thread.splits go.splits)
  have "reached (gateway_runtime demo_env demo_query) Get_code (empty_sstate 250 (0, 4)) demo_queries"
    unfolding demo_queries_def by (intro reached.request reached.start) (simp_all add: arrive_def new_system_def)
  then have "querying_state demo_env demo_query 250 (0, 4) s"
    unfolding querying_state_def by (rule schedule_reached) (rule s(1))
  from concurrent_queries [OF this s(3,2)] s show ?thesis by auto
qed

end
