(* ===== verification/ConcurrentHandler.thy ===== *)
theory ConcurrentHandler
  imports ScaleConcurrent ScalingHandler
begin

text \<open>
  The scaling handler (\<open>handlers/scaling.go\<close>) for any number of requests at a time: each request is a goroutine
  that runs \<open>Scale\<close>, interleaved with the others on the shared cache and the single flight, and then
  answers with what its own \<open>Scale\<close> returned.
\<close>

text \<open>The rest of the request's goroutine, once \<open>Scale\<close> has returned.\<close>

definition answer_request :: "'w handler \<Rightarrow> string \<Rightarrow> request \<Rightarrow> FunctionScaleResult \<Rightarrow> ('w hstate, unit) prog" where
  "answer_request nxt defaultNamespace r res =
     (case GetNamespace defaultNamespace (GetServiceName (url_String (URL r))) of (functionName, namespace) \<Rightarrow>
        after_scale nxt functionName namespace res r)"

lemma handler_is_scale_then_answer:
  "MakeScalingHandler env nxt scaler dns r =
     (case GetNamespace dns (GetServiceName (url_String (URL r))) of (fn, ns) \<Rightarrow>
        bindp (on_hworld (Scale env scaler fn ns)) (answer_request nxt dns r))"
proof -
  obtain fn ns where n: "GetNamespace dns (GetServiceName (url_String (URL r))) = (fn, ns)" by fastforce
  then have "answer_request nxt dns r = (\<lambda>res. after_scale nxt fn ns res r)" by (simp add: answer_request_def fun_eq_iff)
  with n show ?thesis by (simp add: MakeScalingHandler_def)
qed

text \<open>
  C11: however requests interleave, each is answered by its own result. A request goes to the next handler, unchanged,
  exactly when its result is marked available, and then the provider has answered a query for its function; otherwise
  the client gets 404 or 500 with an error that the provider reported for the function of this request, never for
  that of another one, and the handler's world stays as it is. The nil dereference and the branch without an answer
  are not reached. Marked available is not the same as ready: \<open>Scale\<close> also marks the result available when its
  polls are used up and none saw a replica (\<open>Scale_reports_available_on_timeout\<close>), so for such a function
  the next handler is called although the comment in \<open>scaling.go\<close> says it is not.
\<close>

theorem concurrent_scaling_answers:
  assumes "scaling_state env Q cfg expiry w s" "threads s t = Some (Returned (Val res))"
    and "jobs s t = Some (GetNamespace dns (GetServiceName (url_String (URL r))))" "rw_sent (rw h) = None"
    and "GetNamespace dns (GetServiceName (url_String (URL r))) = (fn, ns)"
  shows "if Available res then answer_request nxt dns r res h = nxt r h
      \<and> (\<exists>q. GetCall fn ns (Val (q, None)) \<in> set (calls (shared s)))
    else \<exists>h' e. answer_request nxt dns r res h = (Val (), h') \<and> hworld h' = hworld h
      \<and> provider_error fn ns (set (calls (shared s))) e
      \<and> final_status (rw h') = (if Found res then 500 else 404)
      \<and> rw_body (rw h') = rw_body (rw h) @ ''error finding function '' @ fn @ ''.'' @ ns @ '': '' @ e"
proof -
  obtain fn' ns' where "jobs s t = Some (fn', ns')" "thread_safe fn' ns' (scale_ok fn' ns') (set (calls (shared s))) (Returned (Val res))"
    by (rule scalers.thread_job [OF scaling_ok(1) [OF assms(1)] assms(2)])
  with assms(3,5) have "scale_ok fn ns res (set (calls (shared s)))" by simp
  then show ?thesis using assms(4,5)
    by (auto simp: scale_ok_def error_ok_def answered_def result_wf_def answer_request_def after_scale_def Let_def on_rw_run
        bindp_run WriteHeader_fresh Write_run final_status_def split: option.splits)
qed

section \<open>Witness\<close>

lemma concurrent_scaling_answers_witness:
  "\<exists>s res. demo_run demo_turns = Some s \<and> threads s 1 = Some (Returned (Val res))
    \<and> rw_body (rw (snd (answer_request demo_function ''fn'' demo_call res \<lparr>rw = new_writer, hworld = ()\<rparr>))) = ''hello''"
proof -
  obtain s where s: "demo_run demo_turns = Some s" "available_result s 1" "jobs s 1 = Some (''echo'', ''fn'')" by (metis demo_end)
  obtain res where r: "threads s 1 = Some (Returned (Val res))" "Available res" using available_returned [OF s(2)] by blast
  have n: "GetNamespace ''fn'' (GetServiceName (url_String (URL demo_call))) = (''echo'', ''fn'')" by code_simp
  have "answer_request demo_function ''fn'' demo_call res \<lparr>rw = new_writer, hworld = ()\<rparr>
      = demo_function demo_call \<lparr>rw = new_writer, hworld = ()\<rparr>"
    using concurrent_scaling_answers [OF demo_run_state [OF s(1)] r(1), of "''fn''" demo_call "\<lparr>rw = new_writer, hworld = ()\<rparr>" "''echo''" "''fn''" demo_function]
      s(3) n r(2) by (simp add: new_writer_def)
  with s(1) r(1) show ?thesis by (auto simp: demo_function_def on_rw_run Write_run new_writer_def)
qed

end
