(* ===== verification/Scrapes.thy ===== *)
theory Scrapes
  imports Exporter
begin

text \<open>
  The exporter while the gateway runs. Function calls count themselves, ticks of the watcher publish
  new lists of services and any number of scrapes read the metrics, all at the same time: the
  exporter has no lock, so every operation on a vector is one step of its own. A scrape that is not
  disturbed by another one is \<open>Collect\<close> of theory Exporter; two that overlap share the gauge.
\<close>

section \<open>State\<close>

text \<open>
  A function call after it was counted as started: before its duration is observed, and between the
  observation and the count of the invocation.
\<close>

datatype fcall =
    Flying string
  | Observed "string \<times> string"

text \<open>
  A scrape, by what it has collected: the invocations, the durations, the calls started; then the
  gauge is reset, the loop runs over the list that was current when it began, and the gauge is
  collected last. \<open>Filling\<close> keeps the whole list beside what is left of it as a history variable.
\<close>

type_synonym counted = "string \<times> string \<Rightarrow> nat"
type_synonym observed = "string \<times> string \<Rightarrow> duration list"

datatype 'x scrape =
    CollectDurations counted
  | CollectStarted counted observed
  | ResetGauge counted observed "string \<Rightarrow> nat"
  | EnterLoop counted observed "string \<Rightarrow> nat"
  | Filling counted observed "string \<Rightarrow> nat" "'x listed list" "'x listed list"
  | Scraped "sample_set list"

text \<open>\<open>published\<close> is a history variable: the lists of services so far, with the first one.\<close>

record 'x live =
  vectors :: MetricOptions
  exporter :: "'x Exporter"
  fcalls :: "nat \<Rightarrow> fcall option"
  scrapes :: "nat \<Rightarrow> 'x scrape option"
  published :: "'x listed list list"

definition new_live :: "'x Exporter \<Rightarrow> 'x live" where
  "new_live e = \<lparr>vectors = BuildMetricsOptions, exporter = e, fcalls = Map.empty, scrapes = Map.empty,
     published = [services e]\<rparr>"

section \<open>Steps\<close>

text \<open>The two statements of \<open>Notify\<close> for a completed call, and the one for a started call.\<close>

definition observe :: "string \<times> string \<Rightarrow> duration \<Rightarrow> MetricOptions \<Rightarrow> MetricOptions" where
  "observe l d m = m\<lparr>GatewayFunctionsHistogram := (GatewayFunctionsHistogram m)(l := GatewayFunctionsHistogram m l @ [d])\<rparr>"

definition count_invocation :: "string \<times> string \<Rightarrow> MetricOptions \<Rightarrow> MetricOptions" where
  "count_invocation l m = m\<lparr>GatewayFunctionInvocation := (GatewayFunctionInvocation m)(l := GatewayFunctionInvocation m l + 1)\<rparr>"

definition count_start :: "string \<Rightarrow> MetricOptions \<Rightarrow> MetricOptions" where
  "count_start name m = m\<lparr>GatewayFunctionInvocationStarted :=
     (GatewayFunctionInvocationStarted m)(name := GatewayFunctionInvocationStarted m name + 1)\<rparr>"

datatype 'x event =
    Start nat string
  | Observe nat int duration
  | Count nat
  | Abort nat
  | Publish "'x listed list"
  | Scrape nat
  | ScrapeOn nat

fun scrape_step :: "'x scrape \<Rightarrow> 'x live \<Rightarrow> 'x scrape \<times> MetricOptions" where
  "scrape_step (CollectDurations i) s = (CollectStarted i (GatewayFunctionsHistogram (vectors s)), vectors s)"
| "scrape_step (CollectStarted i d) s = (ResetGauge i d (GatewayFunctionInvocationStarted (vectors s)), vectors s)"
| "scrape_step (ResetGauge i d st) s = (EnterLoop i d st, (vectors s)\<lparr>ServiceReplicasGauge := (\<lambda>_. None)\<rparr>)"
| "scrape_step (EnterLoop i d st) s = (Filling i d st (services (exporter s)) (services (exporter s)), vectors s)"
| "scrape_step (Filling i d st all (f # fs)) s = (Filling i d st all fs, (vectors s)\<lparr>ServiceReplicasGauge :=
     set_gauges [f] (ServiceReplicasGauge (vectors s))\<rparr>)"
| "scrape_step (Filling i d st all []) s = (Scraped [InvocationSamples i, DurationSamples d, StartedSamples st,
     ReplicaSamples (ServiceReplicasGauge (vectors s))], vectors s)"
| "scrape_step (Scraped out) s = (Scraped out, vectors s)"

text \<open>
  \<open>None\<close> for an event that is not possible. A call gets its name from its URL; it may also end without
  being counted, when forwarding it panics.
\<close>

fun live_step :: "string \<Rightarrow> 'x event \<Rightarrow> 'x live \<Rightarrow> 'x live option" where
  "live_step ns (Start t originalURL) s = (case fcalls s t of Some _ \<Rightarrow> None
     | None \<Rightarrow> (let name = metric_name ns originalURL
         in Some (s\<lparr>vectors := count_start name (vectors s), fcalls := (fcalls s)(t \<mapsto> Flying name)\<rparr>)))"
| "live_step ns (Observe t status d) s = (case fcalls s t of
       Some (Flying name) \<Rightarrow> Some (s\<lparr>vectors := observe (name, Itoa status) d (vectors s),
         fcalls := (fcalls s)(t \<mapsto> Observed (name, Itoa status))\<rparr>)
     | _ \<Rightarrow> None)"
| "live_step ns (Count t) s = (case fcalls s t of
       Some (Observed l) \<Rightarrow> Some (s\<lparr>vectors := count_invocation l (vectors s), fcalls := (fcalls s)(t := None)\<rparr>)
     | _ \<Rightarrow> None)"
| "live_step ns (Abort t) s = (case fcalls s t of Some (Flying name) \<Rightarrow> Some (s\<lparr>fcalls := (fcalls s)(t := None)\<rparr>) | _ \<Rightarrow> None)"
| "live_step ns (Publish fs) s = Some (s\<lparr>exporter := (exporter s)\<lparr>services := fs\<rparr>, published := published s @ [fs]\<rparr>)"
| "live_step ns (Scrape i) s = (case scrapes s i of Some _ \<Rightarrow> None
     | None \<Rightarrow> Some (s\<lparr>scrapes := (scrapes s)(i \<mapsto> CollectDurations (GatewayFunctionInvocation (vectors s)))\<rparr>))"
| "live_step ns (ScrapeOn i) s = (case scrapes s i of None \<Rightarrow> None
     | Some c \<Rightarrow> (case scrape_step c s of (c', m) \<Rightarrow> Some (s\<lparr>vectors := m, scrapes := (scrapes s)(i \<mapsto> c')\<rparr>)))"

fun live_run :: "string \<Rightarrow> 'x event list \<Rightarrow> 'x live \<Rightarrow> 'x live option" where
  "live_run ns [] s = Some s"
| "live_run ns (e # es) s = (case live_step ns e s of None \<Rightarrow> None | Some s' \<Rightarrow> live_run ns es s')"

lemma live_run_append: "live_run ns (es @ es') s = (case live_run ns es s of None \<Rightarrow> None | Some s' \<Rightarrow> live_run ns es' s')"
  by (induction es arbitrary: s) (auto split: option.split)

section \<open>The steps are the notifier's and the exporter's\<close>

lemma notify_is_start:
  "PrometheusFunctionNotifier_Notify ns method target originalURL st ''started'' d w
     = (Val (), w\<lparr>metrics := count_start (metric_name ns originalURL) (metrics w)\<rparr>)"
  by (simp add: PrometheusFunctionNotifier_Notify_def count_start_def Let_def go_simps)

lemma notify_is_observe_count:
  "PrometheusFunctionNotifier_Notify ns method target originalURL st ''completed'' d w
     = (Val (), w\<lparr>metrics := count_invocation (metric_name ns originalURL, Itoa st)
         (observe (metric_name ns originalURL, Itoa st) d (metrics w))\<rparr>)"
  by (simp add: PrometheusFunctionNotifier_Notify_def count_invocation_def observe_def Let_def go_simps)

lemma set_gauges_step: "set_gauges fs (set_gauges [f] g) = set_gauges (f # fs) g"
  by simp

lemma fill_run:
  assumes "scrapes s i = Some (Filling a d st all fs)"
  shows "live_run ns (replicate (length fs + 1) (ScrapeOn i)) s = Some (s\<lparr>
    vectors := (vectors s)\<lparr>ServiceReplicasGauge := set_gauges fs (ServiceReplicasGauge (vectors s))\<rparr>,
    scrapes := (scrapes s)(i \<mapsto> Scraped [InvocationSamples a, DurationSamples d, StartedSamples st,
      ReplicaSamples (set_gauges fs (ServiceReplicasGauge (vectors s)))])\<rparr>)"
  using assms
proof (induction fs arbitrary: s)
  case (Cons f fs)
  let ?s = "s\<lparr>vectors := (vectors s)\<lparr>ServiceReplicasGauge := set_gauges [f] (ServiceReplicasGauge (vectors s))\<rparr>,
    scrapes := (scrapes s)(i \<mapsto> Filling a d st all fs)\<rparr>"
  have "live_run ns (replicate (length (f # fs) + 1) (ScrapeOn i)) s = live_run ns (replicate (length fs + 1) (ScrapeOn i)) ?s"
    using Cons.prems by simp
  also have "\<dots> = Some (s\<lparr>
    vectors := (vectors s)\<lparr>ServiceReplicasGauge := set_gauges (f # fs) (ServiceReplicasGauge (vectors s))\<rparr>,
    scrapes := (scrapes s)(i \<mapsto> Scraped [InvocationSamples a, DurationSamples d, StartedSamples st,
      ReplicaSamples (set_gauges (f # fs) (ServiceReplicasGauge (vectors s)))])\<rparr>)"
    by (subst Cons.IH) simp_all
  finally show ?case .
qed simp

text \<open>
  a scrape that runs from its beginning to its end without anything in between is \<open>Collect\<close>: it
  sends what \<open>Collect\<close> sends and leaves the metrics as \<open>Collect\<close> leaves them.
\<close>

theorem scrape_alone_is_Collect:
  assumes "scrapes s i = None" "Collect (exporter s) (vectors s) = (Val out, m)"
  shows "live_run ns (Scrape i # replicate (length (services (exporter s)) + 5) (ScrapeOn i)) s
    = Some (s\<lparr>vectors := m, scrapes := (scrapes s)(i \<mapsto> Scraped out)\<rparr>)"
proof -
  let ?fs = "services (exporter s)" and ?m = "vectors s"
  let ?s = "s\<lparr>vectors := ?m\<lparr>ServiceReplicasGauge := (\<lambda>_. None)\<rparr>, scrapes := (scrapes s)(i \<mapsto>
    Filling (GatewayFunctionInvocation ?m) (GatewayFunctionsHistogram ?m) (GatewayFunctionInvocationStarted ?m) ?fs ?fs)\<rparr>"
  have "replicate (length ?fs + 5) (ScrapeOn i) = replicate 4 (ScrapeOn i) @ replicate (length ?fs + 1) (ScrapeOn i)"
    using replicate_add [of 4 "length ?fs + 1" "ScrapeOn i"] by (simp add: add.commute)
  then have "live_run ns (Scrape i # replicate (length ?fs + 5) (ScrapeOn i)) s = live_run ns (replicate (length ?fs + 1) (ScrapeOn i)) ?s"
    using assms(1) by (simp add: numeral_eq_Suc)
  also have "\<dots> = Some (s\<lparr>vectors := m, scrapes := (scrapes s)(i \<mapsto> Scraped out)\<rparr>)"
    using fill_run [of ?s i _ _ _ _ ?fs ns] assms(2) by (auto simp: Collect_def go_simps)
  finally show ?thesis .
qed

section \<open>Reachable states\<close>

fun active :: "'x scrape \<Rightarrow> bool" where
  "active (Scraped out) = False"
| "active _ = True"

text \<open>The states after any events, or, with \<open>solo\<close>, those after events where no two scrapes overlap.\<close>

inductive live_reached :: "string \<Rightarrow> 'x Exporter \<Rightarrow> bool \<Rightarrow> 'x live \<Rightarrow> bool" for ns e0 solo where
  initial: "live_reached ns e0 solo (new_live e0)"
| event: "live_reached ns e0 solo s \<Longrightarrow> live_step ns ev s = Some s' \<Longrightarrow>
    (\<And>i j c. solo \<Longrightarrow> ev = Scrape i \<Longrightarrow> scrapes s j = Some c \<Longrightarrow> \<not> active c) \<Longrightarrow> live_reached ns e0 solo s'"

lemma live_step_cases [consumes 1, case_names start observe count abort publish scrape scrape_on]:
  assumes "live_step ns ev s = Some s'"
  obtains
    t u where "ev = Start t u" "fcalls s t = None"
      "s' = s\<lparr>vectors := count_start (metric_name ns u) (vectors s), fcalls := (fcalls s)(t \<mapsto> Flying (metric_name ns u))\<rparr>"
  | t st d name where "ev = Observe t st d" "fcalls s t = Some (Flying name)"
      "s' = s\<lparr>vectors := observe (name, Itoa st) d (vectors s), fcalls := (fcalls s)(t \<mapsto> Observed (name, Itoa st))\<rparr>"
  | t l where "ev = Count t" "fcalls s t = Some (Observed l)"
      "s' = s\<lparr>vectors := count_invocation l (vectors s), fcalls := (fcalls s)(t := None)\<rparr>"
  | t name where "ev = Abort t" "fcalls s t = Some (Flying name)" "s' = s\<lparr>fcalls := (fcalls s)(t := None)\<rparr>"
  | fs where "ev = Publish fs" "s' = s\<lparr>exporter := (exporter s)\<lparr>services := fs\<rparr>, published := published s @ [fs]\<rparr>"
  | i where "ev = Scrape i" "scrapes s i = None"
      "s' = s\<lparr>scrapes := (scrapes s)(i \<mapsto> CollectDurations (GatewayFunctionInvocation (vectors s)))\<rparr>"
  | i c c' m where "ev = ScrapeOn i" "scrapes s i = Some c" "scrape_step c s = (c', m)"
      "s' = s\<lparr>vectors := m, scrapes := (scrapes s)(i \<mapsto> c')\<rparr>"
  using assms by (cases ev) (fastforce split: option.splits fcall.splits prod.splits simp: Let_def)+

section \<open>Counts\<close>

definition observations :: "string \<Rightarrow> string set \<Rightarrow> observed \<Rightarrow> nat" where
  "observations name C d = (\<Sum>c\<in>C. length (d (name, c)))"

text \<open>
  The counts of a state: what is observed is counted or about to be, and no more calls of a function
  have ended or are on their way than were started.
\<close>

definition counts_ok :: "MetricOptions \<Rightarrow> (nat \<Rightarrow> fcall option) \<Rightarrow> bool" where
  "counts_ok m cs \<longleftrightarrow> finite (dom cs)
     \<and> (\<forall>l. length (GatewayFunctionsHistogram m l) = GatewayFunctionInvocation m l + card {t. cs t = Some (Observed l)})
     \<and> (\<forall>name C. finite C \<longrightarrow> observations name C (GatewayFunctionsHistogram m) + card {t. cs t = Some (Flying name)}
          \<le> GatewayFunctionInvocationStarted m name)"

lemma counts_D:
  assumes "counts_ok m cs"
  shows "finite (dom cs)"
    and "length (GatewayFunctionsHistogram m l) = GatewayFunctionInvocation m l + card {t. cs t = Some (Observed l)}"
    and "finite C \<Longrightarrow> observations name C (GatewayFunctionsHistogram m) + card {t. cs t = Some (Flying name)}
      \<le> GatewayFunctionInvocationStarted m name"
  using assms unfolding counts_ok_def by blast+

lemma finite_upd: "finite (dom cs) \<Longrightarrow> finite (dom (cs(t := x)))"
  by (rule finite_subset [of _ "insert t (dom cs)"]) (auto split: if_splits)

lemma finite_at: "finite (dom cs) \<Longrightarrow> finite {t. cs t = Some v}"
  by (rule finite_subset [of _ "dom cs"]) auto

lemma card_enter:
  assumes "finite (dom cs)" "cs t \<noteq> Some v"
  shows "card {u. (cs(t \<mapsto> v)) u = Some v} = Suc (card {u. cs u = Some v})"
proof -
  have "{u. (cs(t \<mapsto> v)) u = Some v} = insert t {u. cs u = Some v}" by auto
  with assms finite_at [OF assms(1), of v] show ?thesis by simp
qed

lemma card_leave:
  assumes "finite (dom cs)" "cs t = Some v" "x \<noteq> Some v"
  shows "Suc (card {u. (cs(t := x)) u = Some v}) = card {u. cs u = Some v}"
proof -
  have "{u. cs u = Some v} = insert t {u. (cs(t := x)) u = Some v}" "t \<notin> {u. (cs(t := x)) u = Some v}"
    using assms by auto
  moreover have "finite {u. (cs(t := x)) u = Some v}" using assms(1) by (intro finite_at finite_upd)
  ultimately show ?thesis by simp
qed

lemma card_other:
  assumes "cs t \<noteq> Some v" "x \<noteq> Some v"
  shows "{u. (cs(t := x)) u = Some v} = {u. cs u = Some v}"
  using assms by auto

lemma observations_snoc:
  assumes "finite C"
  shows "observations name C (d(l := d l @ [x])) = observations name C d + (if fst l = name \<and> snd l \<in> C then 1 else 0)"
  using assms unfolding observations_def
  by (cases l) (auto simp: sum.distrib [symmetric] sum.remove intro!: sum.cong)

lemma counts_start:
  assumes "counts_ok m cs" "cs t = None"
  shows "counts_ok (count_start name m) (cs(t \<mapsto> Flying name))"
  unfolding counts_ok_def
proof (intro conjI allI impI)
  note f = counts_D(1) [OF assms(1)]
  show "finite (dom (cs(t \<mapsto> Flying name)))" by (rule finite_upd [OF f])
  show "length (GatewayFunctionsHistogram (count_start name m) l) = GatewayFunctionInvocation (count_start name m) l
      + card {u. (cs(t \<mapsto> Flying name)) u = Some (Observed l)}" for l
    using counts_D(2) [OF assms(1), of l] assms(2) card_other [of cs t "Observed l" "Some (Flying name)"]
    by (simp add: count_start_def del: fun_upd_apply)
  fix n :: string and C :: "string set"
  assume "finite C"
  note o = counts_D(3) [OF assms(1) this, of n]
  show "observations n C (GatewayFunctionsHistogram (count_start name m)) + card {u. (cs(t \<mapsto> Flying name)) u = Some (Flying n)}
      \<le> GatewayFunctionInvocationStarted (count_start name m) n"
  proof (cases "n = name")
    case True
    with o card_enter [OF f, of t "Flying name"] assms(2) show ?thesis by (simp add: count_start_def del: fun_upd_apply) (simp add: fun_upd_def)
  next
    case False
    then show ?thesis using o card_other [of cs t "Flying n" "Some (Flying name)"] assms(2)
      by (simp add: count_start_def del: fun_upd_apply) (simp add: fun_upd_def)
  qed
qed

lemma counts_observe:
  assumes "counts_ok m cs" "cs t = Some (Flying name)"
  shows "counts_ok (observe (name, c) d m) (cs(t \<mapsto> Observed (name, c)))"
  unfolding counts_ok_def
proof (intro conjI allI impI)
  note f = counts_D(1) [OF assms(1)]
  show "finite (dom (cs(t \<mapsto> Observed (name, c))))" by (rule finite_upd [OF f])
  fix l
  note l = counts_D(2) [OF assms(1), of l]
  show "length (GatewayFunctionsHistogram (observe (name, c) d m) l) = GatewayFunctionInvocation (observe (name, c) d m) l
      + card {u. (cs(t \<mapsto> Observed (name, c))) u = Some (Observed l)}"
  proof (cases "l = (name, c)")
    case True
    with l card_enter [OF f, of t "Observed l"] assms(2) show ?thesis by (simp add: observe_def)
  next
    case False
    with l card_other [of cs t "Observed l" "Some (Observed (name, c))"] assms(2) show ?thesis
      by (simp add: observe_def del: fun_upd_apply) (simp add: fun_upd_def)
  qed
next
  note f = counts_D(1) [OF assms(1)]
  fix n :: string and C :: "string set"
  assume C: "finite C"
  note o = counts_D(3) [OF assms(1) this, of n]
  show "observations n C (GatewayFunctionsHistogram (observe (name, c) d m)) + card {u. (cs(t \<mapsto> Observed (name, c))) u = Some (Flying n)}
      \<le> GatewayFunctionInvocationStarted (observe (name, c) d m) n"
  proof (cases "n = name")
    case True
    with o card_leave [OF f assms(2), of "Some (Observed (name, c))"] show ?thesis
      by (simp add: observe_def observations_snoc [OF C] del: fun_upd_apply)
  next
    case False
    with o card_other [of cs t "Flying n" "Some (Observed (name, c))"] assms(2) show ?thesis
      by (simp add: observe_def observations_snoc [OF C] del: fun_upd_apply)
  qed
qed

lemma counts_count:
  assumes "counts_ok m cs" "cs t = Some (Observed l0)"
  shows "counts_ok (count_invocation l0 m) (cs(t := None))"
  unfolding counts_ok_def
proof (intro conjI allI impI)
  note f = counts_D(1) [OF assms(1)]
  show "finite (dom (cs(t := None)))" by (rule finite_upd [OF f])
  fix l
  note l = counts_D(2) [OF assms(1), of l]
  show "length (GatewayFunctionsHistogram (count_invocation l0 m) l) = GatewayFunctionInvocation (count_invocation l0 m) l
      + card {u. (cs(t := None)) u = Some (Observed l)}"
  proof (cases "l = l0")
    case True
    with l card_leave [OF f assms(2), of None] show ?thesis by (simp add: count_invocation_def)
  next
    case False
    with l card_other [of cs t "Observed l" None] assms(2) show ?thesis
      by (simp add: count_invocation_def del: fun_upd_apply) (simp add: fun_upd_def)
  qed
next
  fix n :: string and C :: "string set"
  assume "finite C"
  from counts_D(3) [OF assms(1) this, of n]
  show "observations n C (GatewayFunctionsHistogram (count_invocation l0 m)) + card {u. (cs(t := None)) u = Some (Flying n)}
      \<le> GatewayFunctionInvocationStarted (count_invocation l0 m) n"
    using card_other [of cs t "Flying n" None] assms(2) by (simp add: count_invocation_def del: fun_upd_apply)
qed

lemma counts_abort:
  assumes "counts_ok m cs" "cs t = Some (Flying name)"
  shows "counts_ok m (cs(t := None))"
  unfolding counts_ok_def
proof (intro conjI allI impI)
  note f = counts_D(1) [OF assms(1)]
  show "finite (dom (cs(t := None)))" by (rule finite_upd [OF f])
  show "length (GatewayFunctionsHistogram m l) = GatewayFunctionInvocation m l + card {u. (cs(t := None)) u = Some (Observed l)}" for l
    using counts_D(2) [OF assms(1), of l] card_other [of cs t "Observed l" None] assms(2) by (simp del: fun_upd_apply)
  fix n :: string and C :: "string set"
  assume "finite C"
  note o = counts_D(3) [OF assms(1) this, of n]
  show "observations n C (GatewayFunctionsHistogram m) + card {u. (cs(t := None)) u = Some (Flying n)} \<le> GatewayFunctionInvocationStarted m n"
  proof (cases "n = name")
    case True
    with o card_leave [OF f assms(2), of None] show ?thesis by (simp del: fun_upd_apply)
  next
    case False
    with o card_other [of cs t "Flying n" None] assms(2) show ?thesis by (simp del: fun_upd_apply)
  qed
qed

lemma counts_gauge: "counts_ok (m\<lparr>ServiceReplicasGauge := g\<rparr>) cs = counts_ok m cs"
  by (simp add: counts_ok_def)

lemma same_gauge: "\<exists>g. m = m\<lparr>ServiceReplicasGauge := g\<rparr>"
  by (rule exI [of _ "ServiceReplicasGauge m"]) simp

lemma scrape_step_vectors:
  "scrape_step c s = (c', m) \<Longrightarrow> \<exists>g. m = (vectors s)\<lparr>ServiceReplicasGauge := g\<rparr>"
  by (induction c s rule: scrape_step.induct) (auto simp: same_gauge)

lemma step_counts:
  assumes "live_step ns ev s = Some s'" "counts_ok (vectors s) (fcalls s)"
  shows "counts_ok (vectors s') (fcalls s')"
  using assms(1)
proof (cases rule: live_step_cases)
  case (scrape_on i c c' m)
  with scrape_step_vectors [OF scrape_on(3)] assms(2) show ?thesis by (auto simp: counts_gauge)
qed (use assms(2) counts_start counts_observe counts_count counts_abort in auto)

section \<open>What a scrape has seen\<close>

text \<open>The three kinds of count that a scrape sends fit together.\<close>

definition counts_fit :: "counted \<Rightarrow> observed \<Rightarrow> (string \<Rightarrow> nat) \<Rightarrow> bool" where
  "counts_fit i d st \<longleftrightarrow> (\<forall>l. i l \<le> length (d l)) \<and> (\<forall>name C. finite C \<longrightarrow> observations name C d \<le> st name)"

definition gauge_from :: "'x listed list list \<Rightarrow> (string \<Rightarrow> rat option) \<Rightarrow> bool" where
  "gauge_from pubs g \<longleftrightarrow> (\<forall>k v. g k = Some v \<longrightarrow>
     (\<exists>fs \<in> set pubs. \<exists>f \<in> set fs. k = service_label f \<and> v = float64 (of_nat (unat (LReplicas f)))))"

fun scrape_fits :: "'x live \<Rightarrow> 'x scrape \<Rightarrow> bool" where
  "scrape_fits s (CollectDurations i) = (\<forall>l. i l \<le> length (GatewayFunctionsHistogram (vectors s) l))"
| "scrape_fits s (CollectStarted i d) = ((\<forall>l. i l \<le> length (d l))
     \<and> (\<forall>name C. finite C \<longrightarrow> observations name C d \<le> GatewayFunctionInvocationStarted (vectors s) name))"
| "scrape_fits s (ResetGauge i d st) = counts_fit i d st"
| "scrape_fits s (EnterLoop i d st) = counts_fit i d st"
| "scrape_fits s (Filling i d st all fs) = (counts_fit i d st \<and> all \<in> set (published s) \<and> set fs \<subseteq> set all)"
| "scrape_fits s (Scraped out) = (\<exists>i d st g. out = [InvocationSamples i, DurationSamples d, StartedSamples st, ReplicaSamples g]
     \<and> counts_fit i d st \<and> gauge_from (published s) g)"

definition live_ok :: "'x live \<Rightarrow> bool" where
  "live_ok s \<longleftrightarrow> counts_ok (vectors s) (fcalls s) \<and> services (exporter s) \<in> set (published s)
     \<and> gauge_from (published s) (ServiceReplicasGauge (vectors s))
     \<and> (\<forall>i c. scrapes s i = Some c \<longrightarrow> scrape_fits s c)"

lemma gauge_from_more: "gauge_from pubs g \<Longrightarrow> set pubs \<subseteq> set pubs' \<Longrightarrow> gauge_from pubs' g"
  unfolding gauge_from_def by blast

text \<open>What a scrape has seen stays true while counts grow and lists are published.\<close>

definition grows :: "'x live \<Rightarrow> 'x live \<Rightarrow> bool" where
  "grows s s' \<longleftrightarrow> (\<forall>l. length (GatewayFunctionsHistogram (vectors s) l) \<le> length (GatewayFunctionsHistogram (vectors s') l))
     \<and> (\<forall>n. GatewayFunctionInvocationStarted (vectors s) n \<le> GatewayFunctionInvocationStarted (vectors s') n)
     \<and> set (published s) \<subseteq> set (published s')"

lemma scrape_fits_grows: "scrape_fits s c \<Longrightarrow> grows s s' \<Longrightarrow> scrape_fits s' c"
proof (induction s c rule: scrape_fits.induct)
  case (1 s i)
  then show ?case unfolding grows_def scrape_fits.simps by (meson order_trans)
next
  case (2 s i d)
  then show ?case unfolding grows_def scrape_fits.simps by (meson order_trans)
next
  case (6 s out)
  then show ?case by (auto simp: grows_def intro: gauge_from_more)
qed (auto simp: grows_def)

lemma step_grows: "live_step ns ev s = Some s' \<Longrightarrow> grows s s'"
proof (induction rule: live_step_cases)
  case (scrape_on i c c' m)
  with scrape_step_vectors [OF scrape_on(3)] show ?case by (auto simp: grows_def)
qed (auto simp: grows_def count_start_def observe_def count_invocation_def)

lemma gauge_from_fill:
  assumes "gauge_from pubs g" "f \<in> set fs" "fs \<in> set pubs"
  shows "gauge_from pubs (set_gauges [f] g)"
  using assms unfolding gauge_from_def by auto

lemma scrape_step_fits:
  assumes "scrape_step c s = (c', m)" "scrape_fits s c" "live_ok s"
  shows "scrape_fits (s\<lparr>vectors := m\<rparr>) c' \<and> gauge_from (published s) (ServiceReplicasGauge m)"
proof -
  have g: "gauge_from (published s) (ServiceReplicasGauge (vectors s))" "services (exporter s) \<in> set (published s)"
    using assms(3) by (simp_all add: live_ok_def)
  have started: "finite C \<Longrightarrow> observations name C (GatewayFunctionsHistogram (vectors s)) \<le> GatewayFunctionInvocationStarted (vectors s) name"
    for name C using assms(3) counts_D(3) [of "vectors s" "fcalls s" C name] by (simp add: live_ok_def)
  show ?thesis
  proof (cases c)
    case (Filling i d st all fs)
    show ?thesis
    proof (cases fs)
      case Nil
      with assms(1,2) Filling g show ?thesis by auto
    next
      case (Cons f fs')
      with assms(2) Filling have "f \<in> set all" "all \<in> set (published s)" by auto
      from gauge_from_fill [OF g(1) this] Cons Filling assms(1,2) show ?thesis by auto
    qed
  next
    case (CollectStarted i d)
    with assms(1,2) g show ?thesis by (auto simp: counts_fit_def)
  next
    case (ResetGauge i d st)
    with assms(1,2) show ?thesis by (auto simp: gauge_from_def)
  qed (use assms(1,2) g started in \<open>auto simp: counts_fit_def\<close>)
qed

lemma step_live_ok:
  assumes "live_step ns ev s = Some s'" "live_ok s"
  shows "live_ok s'"
proof -
  note gr = step_grows [OF assms(1)]
  have old: "scrape_fits s' c" if "scrapes s i = Some c" for i c
    using that assms(2) scrape_fits_grows [OF _ gr] by (simp add: live_ok_def)
  have counts: "counts_ok (vectors s') (fcalls s')" using step_counts [OF assms(1)] assms(2) by (simp add: live_ok_def)
  have g: "gauge_from (published s) (ServiceReplicasGauge (vectors s))" "services (exporter s) \<in> set (published s)"
    using assms(2) by (simp_all add: live_ok_def)
  from assms(1) show ?thesis
  proof (cases rule: live_step_cases)
    case (scrape i)
    have "GatewayFunctionInvocation (vectors s) l \<le> length (GatewayFunctionsHistogram (vectors s) l)" for l
      using assms(2) counts_D(2) [of "vectors s" "fcalls s" l] by (simp add: live_ok_def)
    with scrape old counts g show ?thesis by (auto simp: live_ok_def split: if_splits)
  next
    case (scrape_on i c c' m)
    from scrape_on(2) assms(2) have "scrape_fits s c" by (simp add: live_ok_def)
    from scrape_step_fits [OF scrape_on(3) this assms(2)] have f: "scrape_fits (s\<lparr>vectors := m\<rparr>) c'"
      "gauge_from (published s) (ServiceReplicasGauge m)" by blast+
    have "scrape_fits s' c'" by (rule scrape_fits_grows [OF f(1)]) (use scrape_on in \<open>simp add: grows_def\<close>)
    with scrape_on old counts g f show ?thesis by (auto simp: live_ok_def split: if_splits)
  next
    case (publish fs)
    have "gauge_from (published s @ [fs]) (ServiceReplicasGauge (vectors s))" by (rule gauge_from_more [OF g(1)]) auto
    with publish old counts show ?thesis by (auto simp: live_ok_def)
  qed (use old counts g in \<open>auto simp: live_ok_def count_start_def observe_def count_invocation_def\<close>)
qed

lemma live_reached_ok: "live_reached ns e0 solo s \<Longrightarrow> live_ok s"
proof (induction rule: live_reached.induct)
  case initial
  show ?case by (simp add: live_ok_def new_live_def counts_ok_def BuildMetricsOptions_def gauge_from_def observations_def)
qed (rule step_live_ok)

section \<open>Undisturbed scrapes\<close>

text \<open>With one scrape at a time, the gauge holds what the active scrape has set so far.\<close>

fun filled :: "'x live \<Rightarrow> 'x scrape \<Rightarrow> bool" where
  "filled s (EnterLoop i d st) = (ServiceReplicasGauge (vectors s) = (\<lambda>_. None))"
| "filled s (Filling i d st all fs) = (\<exists>front. all = front @ fs \<and> ServiceReplicasGauge (vectors s) = set_gauges front (\<lambda>_. None))"
| "filled s (Scraped out) = (\<exists>i d st. \<exists>fs \<in> set (published s).
     out = [InvocationSamples i, DurationSamples d, StartedSamples st, ReplicaSamples (set_gauges fs (\<lambda>_. None))])"
| "filled s _ = True"

definition solo_ok :: "'x live \<Rightarrow> bool" where
  "solo_ok s \<longleftrightarrow> (\<forall>i j c c'. scrapes s i = Some c \<longrightarrow> active c \<longrightarrow> scrapes s j = Some c' \<longrightarrow> active c' \<longrightarrow> i = j)
     \<and> (\<forall>i c. scrapes s i = Some c \<longrightarrow> filled s c)"

lemma set_gauges_snoc: "set_gauges (fs @ [f]) g = set_gauges [f] (set_gauges fs g)"
  by (induction fs arbitrary: g) auto

lemma filled_same:
  "filled s c \<Longrightarrow> ServiceReplicasGauge (vectors s') = ServiceReplicasGauge (vectors s) \<Longrightarrow> set (published s) \<subseteq> set (published s')
    \<Longrightarrow> filled s' c"
  by (induction s c rule: filled.induct) (auto, blast)

lemma filled_inactive: "filled s c \<Longrightarrow> \<not> active c \<Longrightarrow> set (published s) \<subseteq> set (published s') \<Longrightarrow> filled s' c"
  by (induction s c rule: filled.induct) (auto, blast)

lemma scrape_step_filled:
  assumes "scrape_step c s = (c', m)" "filled s c" "scrape_fits s c"
  shows "filled (s\<lparr>vectors := m\<rparr>) c' \<and> (active c' \<longrightarrow> active c) \<and> (\<not> active c \<longrightarrow> m = vectors s \<and> c' = c)"
proof (cases c)
  case (Filling i d st all fs)
  show ?thesis
  proof (cases fs)
    case Nil
    with assms Filling show ?thesis by auto
  next
    case (Cons f fs')
    with assms(2) Filling obtain front where "all = front @ [f] @ fs'" "ServiceReplicasGauge (vectors s) = set_gauges front (\<lambda>_. None)" by auto
    moreover from this have "all = (front @ [f]) @ fs'" by simp
    ultimately show ?thesis using assms(1) Filling Cons set_gauges_snoc [of front f "\<lambda>_. None"]
      by (auto intro!: exI [of _ "front @ [f]"])
  qed
qed (use assms in \<open>auto intro: exI [of _ "[]"]\<close>)

lemma step_solo_ok:
  assumes "live_step ns ev s = Some s'" "solo_ok s" "live_ok s"
    and "\<And>i j c. ev = Scrape i \<Longrightarrow> scrapes s j = Some c \<Longrightarrow> \<not> active c"
  shows "solo_ok s'"
proof -
  have one: "i = j" if "scrapes s i = Some c" "active c" "scrapes s j = Some c'" "active c'" for i j c c'
    using assms(2) that unfolding solo_ok_def by blast
  have f: "filled s c" if "scrapes s i = Some c" for i c using assms(2) that unfolding solo_ok_def by blast
  have kept: "solo_ok s'" if "scrapes s' = scrapes s" "ServiceReplicasGauge (vectors s') = ServiceReplicasGauge (vectors s)"
    using assms(2) that filled_same [OF _ that(2)] step_grows [OF assms(1)] unfolding solo_ok_def grows_def by metis
  from assms(1) show ?thesis
  proof (cases rule: live_step_cases)
    case (scrape i)
    have "filled s' c" if "scrapes s j = Some c" for j c
      by (rule filled_same [OF f [OF that]]) (use scrape in simp_all)
    with scrape assms(4) [OF scrape(1)] show ?thesis by (auto simp: solo_ok_def split: if_splits)
  next
    case (scrape_on i c c' m)
    from scrape_on(2) assms(3) have "scrape_fits s c" by (simp add: live_ok_def)
    note st = scrape_step_filled [OF scrape_on(3) f [OF scrape_on(2)] this]
    have "filled s' c'" by (rule filled_same [of "s\<lparr>vectors := m\<rparr>"]) (use st scrape_on in simp_all)
    moreover have "filled s' d" if d: "scrapes s j = Some d" "j \<noteq> i" for j d
    proof (cases "active c")
      case True
      with one [OF scrape_on(2) True d(1)] d have "\<not> active d" by auto
      with f [OF d(1)] show ?thesis by (rule filled_inactive) (use scrape_on in simp)
    next
      case False
      with st f [OF d(1)] scrape_on show ?thesis by (auto intro: filled_same)
    qed
    moreover have "active c' \<longrightarrow> active c" using st by blast
    ultimately show ?thesis using scrape_on one [OF scrape_on(2)] one unfolding solo_ok_def
      by (auto split: if_splits)
  qed (use kept in \<open>auto simp: count_start_def observe_def count_invocation_def\<close>)
qed

lemma live_reached_solo: "live_reached ns e0 solo s \<Longrightarrow> solo \<Longrightarrow> solo_ok s"
proof (induction rule: live_reached.induct)
  case initial
  show ?case by (simp add: solo_ok_def new_live_def)
next
  case (event s ev s')
  show ?case
    by (rule step_solo_ok [OF event.hyps(2) event.IH [OF event.prems] live_reached_ok [OF event.hyps(1)]])
      (use event.hyps(3) event.prems in blast)
qed

section \<open>Properties\<close>

text \<open>
  C24: what any scrape sends, whatever calls, ticks and other scrapes run beside it, fits together: for
  every label no more invocations than observed durations, for every function no more observed
  durations than calls started, and every replica count is that of a service in a published list.
\<close>

theorem scrape_counts_fit:
  assumes "live_reached ns e0 solo s" "scrapes s i = Some (Scraped out)"
  shows "\<exists>inv d st g. out = [InvocationSamples inv, DurationSamples d, StartedSamples st, ReplicaSamples g]
    \<and> (\<forall>l. inv l \<le> length (d l))
    \<and> (\<forall>name C. finite C \<longrightarrow> (\<Sum>c\<in>C. length (d (name, c))) \<le> st name)
    \<and> (\<forall>k v. g k = Some v \<longrightarrow> (\<exists>fs \<in> set (published s). \<exists>f \<in> set fs.
          k = service_label f \<and> v = float64 (of_nat (unat (LReplicas f)))))"
proof -
  have "scrape_fits s (Scraped out)"
    using live_reached_ok [OF assms(1)] assms(2) unfolding live_ok_def by blast
  then show ?thesis by (auto simp: counts_fit_def observations_def gauge_from_def simp del: split_paired_All)
qed

text \<open>
  C25: as long as no two scrapes overlap, a scrape shows the replicas of exactly one published list,
  with the calls and ticks beside it.
\<close>

theorem undisturbed_scrape_shows_one_list:
  assumes "live_reached ns e0 True s" "scrapes s i = Some (Scraped out)"
  shows "\<exists>fs \<in> set (published s). last out = ReplicaSamples (set_gauges fs (\<lambda>_. None))"
  using live_reached_solo [OF assms(1)] assms(2) by (fastforce simp: solo_ok_def)

text \<open>
  C38: two scrapes that overlap disturb each other: whatever the services are, there is a run in which
  the list never changes and a finished scrape shows no replicas for the first service.
\<close>

theorem overlapping_scrapes_lose_a_service:
  assumes "services e0 = f # fs" "service_label f \<notin> set (map service_label fs)"
  shows "\<exists>es s out g. live_run ns es (new_live e0) = Some s \<and> published s = [services e0]
    \<and> scrapes s 0 = Some (Scraped out) \<and> last out = ReplicaSamples g \<and> g (service_label f) = None"
proof -
  define before :: "'a event list" where
    "before = [Scrape 0] @ replicate 5 (ScrapeOn 0) @ [Scrape 1] @ replicate 3 (ScrapeOn 1)"
  define s1 where "s1 = (new_live e0)\<lparr>vectors := BuildMetricsOptions\<lparr>ServiceReplicasGauge := (\<lambda>_. None)\<rparr>,
    scrapes := [0 \<mapsto> Filling (\<lambda>_. 0) (\<lambda>_. []) (\<lambda>_. 0) (f # fs) fs, 1 \<mapsto> EnterLoop (\<lambda>_. 0) (\<lambda>_. []) (\<lambda>_. 0)]\<rparr>"
  have 1: "live_run ns before (new_live e0) = Some s1"
    using assms(1) by (simp add: before_def s1_def new_live_def BuildMetricsOptions_def numeral_eq_Suc fun_upd_twist)
  have "scrapes s1 0 = Some (Filling (\<lambda>_. 0) (\<lambda>_. []) (\<lambda>_. 0) (f # fs) fs)" by (simp add: s1_def)
  note 2 = fill_run [OF this, of ns]
  have g: "ServiceReplicasGauge (vectors s1) = (\<lambda>_. None)" "published s1 = [services e0]" by (simp_all add: s1_def new_live_def)
  have "set_gauges fs (\<lambda>_. None) (service_label f) = None"
    using assms(2) by (force simp: set_gauges_map map_of_eq_None_iff)
  with g 1 2 show ?thesis
    by (intro exI [of _ "before @ replicate (length fs + 1) (ScrapeOn 0)"]) (simp add: live_run_append del: replicate.simps)
qed

section \<open>Witnesses\<close>

text \<open>A call, a scrape of two services and a tick between its steps.\<close>

definition demo_two :: "unit Exporter" where
  "demo_two = demo_exporter\<lparr>services := [demo_service ''f'' ''a'', demo_service ''g'' ''a'']\<rparr>"

definition demo_events :: "unit event list" where
  "demo_events = [Start 7 ''/function/f.a'', Scrape 0, Observe 7 200 5, ScrapeOn 0, Count 7, ScrapeOn 0, ScrapeOn 0, ScrapeOn 0,
     Publish [], ScrapeOn 0, ScrapeOn 0, ScrapeOn 0]"

definition shows_two :: "unit live \<Rightarrow> bool" where
  "shows_two s = (case scrapes s 0 of
     Some (Scraped [InvocationSamples i, DurationSamples d, StartedSamples st, ReplicaSamples g]) \<Rightarrow>
       i (''f.a'', ''200'') = 0 \<and> d (''f.a'', ''200'') = [5] \<and> st ''f.a'' = 1 \<and> g ''f.a'' = Some 2 \<and> g ''g.a'' = Some 2
   | _ \<Rightarrow> False)"

lemma demo_scrape: "case live_run ''a'' demo_events (new_live demo_two) of None \<Rightarrow> False | Some s \<Rightarrow> shows_two s"
  by code_simp

lemma run_without_scrape:
  assumes "live_reached ns e0 solo s" "live_run ns es s = Some s'" "\<forall>ev \<in> set es. \<forall>i. ev \<noteq> Scrape i"
  shows "live_reached ns e0 solo s' \<and> dom (scrapes s') = dom (scrapes s)"
  using assms
proof (induction es arbitrary: s)
  case (Cons ev es)
  then obtain s1 where s1: "live_step ns ev s = Some s1" "live_run ns es s1 = Some s'" by (auto split: option.splits)
  have "live_reached ns e0 solo s1" by (rule event [OF Cons.prems(1) s1(1)]) (use Cons.prems(3) in auto)
  moreover from s1(1) have "dom (scrapes s1) = dom (scrapes s)"
    by (cases rule: live_step_cases) (use Cons.prems(3) in \<open>auto split: if_splits\<close>)
  ultimately show ?case using Cons.IH [OF _ s1(2)] Cons.prems(3) by auto
qed simp

lemma run_one_scrape:
  assumes "live_run ns (a @ Scrape i # b) (new_live e0) = Some s'" "\<forall>ev \<in> set (a @ b). \<forall>i. ev \<noteq> Scrape i"
  shows "live_reached ns e0 True s'"
proof -
  from assms(1) obtain s1 s2 where s: "live_run ns a (new_live e0) = Some s1" "live_step ns (Scrape i) s1 = Some s2"
    "live_run ns b s2 = Some s'" by (auto simp: live_run_append split: option.splits)
  have 1: "live_reached ns e0 True s1 \<and> dom (scrapes s1) = dom (scrapes (new_live e0))"
    by (rule run_without_scrape [OF initial s(1)]) (use assms(2) in auto)
  then have "scrapes s1 j = None" for j by (auto simp: new_live_def)
  then have "live_reached ns e0 True s2" using event [OF conjunct1 [OF 1] s(2)] by auto
  from run_without_scrape [OF this s(3)] assms(2) show ?thesis by auto
qed

lemma scrape_demo_end:
  obtains s out where "live_reached ''a'' demo_two True s" "live_run ''a'' demo_events (new_live demo_two) = Some s"
    "scrapes s 0 = Some (Scraped out)" "shows_two s"
proof -
  from demo_scrape obtain s where s: "live_run ''a'' demo_events (new_live demo_two) = Some s" "shows_two s"
    by (auto split: option.splits)
  have "demo_events = [Start 7 ''/function/f.a''] @ Scrape 0 # tl (tl demo_events)" by (simp add: demo_events_def)
  with s(1) have r: "live_reached ''a'' demo_two True s"
    using run_one_scrape [of "''a''" "[Start 7 ''/function/f.a'']" 0 "tl (tl demo_events)" demo_two s]
    by (auto simp: demo_events_def)
  have "scrapes s 0 \<noteq> None" "\<not> active (the (scrapes s 0))"
    using s(2) by (simp_all add: shows_two_def split: option.splits scrape.splits)
  then obtain out where "scrapes s 0 = Some (Scraped out)"
    by (metis active.elims(3) option.collapse)
  with r s that show ?thesis by blast
qed

lemma scrape_counts_fit_witness:
  "\<exists>s i d st g. live_run ''a'' demo_events (new_live demo_two) = Some s
    \<and> scrapes s 0 = Some (Scraped [InvocationSamples i, DurationSamples d, StartedSamples st, ReplicaSamples g])
    \<and> i (''f.a'', ''200'') \<le> length (d (''f.a'', ''200''))"
proof -
  obtain s out where s: "live_reached ''a'' demo_two True s" "live_run ''a'' demo_events (new_live demo_two) = Some s"
    "scrapes s 0 = Some (Scraped out)" by (rule scrape_demo_end)
  from scrape_counts_fit [OF s(1,3)] obtain i d st g where
    o: "out = [InvocationSamples i, DurationSamples d, StartedSamples st, ReplicaSamples g]" "\<forall>l. i l \<le> length (d l)"
    by (elim exE conjE) (rule that)
  from o(2) have "i (''f.a'', ''200'') \<le> length (d (''f.a'', ''200''))" by (rule spec)
  with s(2,3) o(1) show ?thesis by simp
qed

lemma undisturbed_scrape_shows_one_list_witness:
  "\<exists>s fs out. live_run ''a'' demo_events (new_live demo_two) = Some s \<and> fs \<in> set (published s)
    \<and> scrapes s 0 = Some (Scraped out) \<and> last out = ReplicaSamples (set_gauges fs (\<lambda>_. None))"
proof -
  obtain s out where s: "live_reached ''a'' demo_two True s" "live_run ''a'' demo_events (new_live demo_two) = Some s"
    "scrapes s 0 = Some (Scraped out)" by (rule scrape_demo_end)
  from undisturbed_scrape_shows_one_list [OF s(1,3)] s(2,3) show ?thesis by blast
qed

lemma overlapping_scrapes_lose_a_service_witness:
  "\<exists>es s out g. live_run ''a'' es (new_live demo_two) = Some s \<and> scrapes s 0 = Some (Scraped out)
    \<and> last out = ReplicaSamples g \<and> g ''f.a'' = None"
proof -
  have "services demo_two = demo_service ''f'' ''a'' # [demo_service ''g'' ''a'']" by (simp add: demo_two_def)
  from overlapping_scrapes_lose_a_service [OF this, of "''a''"] show ?thesis
    by (simp add: service_label_def demo_service_def) blast
qed

lemma scrape_alone_is_Collect_witness:
  "\<exists>out m. live_run ''a'' (Scrape 0 # replicate 7 (ScrapeOn 0)) (new_live demo_two)
    = Some ((new_live demo_two)\<lparr>vectors := m, scrapes := [0 \<mapsto> Scraped out]\<rparr>) \<and> Collect demo_two BuildMetricsOptions = (Val out, m)"
proof -
  obtain out m where c: "Collect demo_two BuildMetricsOptions = (Val out, m)" by (auto simp: Collect_def go_simps)
  have "scrapes (new_live demo_two) 0 = None" "exporter (new_live demo_two) = demo_two" "vectors (new_live demo_two) = BuildMetricsOptions"
    "length (services demo_two) = 2" "scrapes (new_live demo_two) = Map.empty"
    by (simp_all add: new_live_def demo_two_def)
  with scrape_alone_is_Collect [of "new_live demo_two" 0 out m "''a''"] c show ?thesis by simp
qed

end
