(* ===== verification/Spec2Isabelle.thy ===== *)
theory Spec2Isabelle
  imports SingleFlight Serving LogStream GatewayFlows ConcurrentHandler Scrapes
begin

text \<open>
  \<^bold>\<open>The OpenFaaS gateway (directory \<open>src/gateway\<close>), modelled in Isabelle/HOL.\<close>

  The gateway is an HTTP server in front of a \<^emph>\<open>provider\<close> (the service that runs functions). It
  forwards calls and management requests to the provider, starts functions that are scaled to zero
  before it lets a call through, changes replica counts when Prometheus sends alerts, queues
  asynchronous calls, and records metrics. The theories follow the Go packages.

  \<^bold>\<open>Foundations.\<close>
  \<^item> \<open>Prelude\<close>: a Go function with effects is a program \<open>'s \<Rightarrow> 'a go \<times> 's\<close>; a panic is a value, the
    effects before it are kept. Errors are \<open>string option\<close> (nil or a message), \<open>uint64\<close> is a
    64-bit word, times are integers in nanoseconds. Collections \<open>go_simps\<close> (running programs) and
    \<open>frame_intros\<close> (what a program keeps, what it returns, what it costs).
  \<^item> \<open>GoStrings\<close>, \<open>GoHttp\<close>, \<open>GoUrl\<close>, \<open>GoQuery\<close>, \<open>GoTime\<close>, \<open>Float64\<close>: the parts of the standard
    library the gateway uses: strings, paths and numbers; headers, requests, the response writer with
    the status and header that went out; URLs, printed and parsed; query strings; durations; rounding of
    \<open>float64\<close>. Round trips are proved where the components need them (\<open>url_reparse\<close>,
    \<open>url_Query_Encode\<close>, \<open>Atoi_Itoa\<close>, \<open>ParseDuration_unit\<close>, \<open>base64_decode_encode\<close>).
  \<^item> \<open>ParseFloat\<close>, \<open>Utf8\<close>, \<open>Json\<close>, \<open>JsonCodecs\<close>: \<open>strconv.ParseFloat\<close>; which strings are valid UTF-8; JSON texts, read by a lexer and a parser with an
    explicit stack and printed with Go's escapes (\<open>json_parse_print\<close> is the round trip, for
    all strings that are valid UTF-8; \<open>json_parse_ok\<close>: what is read is valid); \<open>json.Unmarshal\<close> into the types
    of the gateway and the provider, with the matching of field names, \<open>null\<close>, repeated keys and type errors.

  \<^bold>\<open>Scaling\<close> (packages \<open>scaling\<close>, \<open>types\<close>, \<open>plugin\<close>).
  \<^item> \<open>ScalingTypes\<close>: the interfaces \<open>ServiceQuery\<close> and \<open>FunctionCacher\<close> as records of programs, the
    constants of \<open>ranges.go\<close>, the configuration.
  \<^item> \<open>Retry\<close> (\<open>types/retry.go\<close>); \<open>FunctionCache\<close> (\<open>function_cache.go\<close>, \<open>function_meta.go\<close>): the cache
    refines its history, and interprets the locale \<open>function_cacher\<close>; \<open>FunctionQuery\<close>
    (\<open>function_query.go\<close>), proved in a locale that extends that contract.
  \<^item> \<open>FunctionScaler\<close> (\<open>function_scaler.go\<close>): scaling from zero. The calls made to the provider are
    logged in a history variable of the state; the properties bound them, say which scale requests
    can be made, and what an answer means.
  \<^item> \<open>SingleFlight\<close> (\<open>single.go\<close>): an interleaving semantics of any number of goroutines that call
    \<open>Do\<close>, statement by statement, with an invariant by rule induction, exclusion, agreement of the
    results, and termination of every schedule by a measure.
  \<^item> \<open>Goroutine\<close>, \<open>Flights\<close>, \<open>FlightInv\<close>, \<open>Interleaving\<close>, \<open>ScaleConcurrent\<close>: the scaler and the cached query with
    any number of goroutines on one cache and one \<open>singleflight.Group\<close> (the vendored
    \<open>golang.org/x/sync/singleflight\<close>, which the two use instead of \<open>single.go\<close>). The code of a goroutine is a
    tree of its operations on shared things; run alone it is the program of \<open>FunctionScaler\<close> and
    \<open>FunctionQuery\<close>. A predicate \<open>safe\<close> on code is proved once for both, and the locale \<open>goroutines\<close> turns it
    into an invariant of the interleavings, by rule induction; it is interpreted on \<open>Scale_code\<close> and \<open>Get_code\<close>.
  \<^item> \<open>AlertHandler\<close> (\<open>handlers/alerthandler.go\<close>): the autoscaler, with the floating-point calculation
    proved equal to exact arithmetic, and convergence under a firing alert. \<open>ExternalQuery\<close>
    (\<open>plugin/external.go\<close>) is the provider's side; it interprets the locale \<open>autoscaled\<close>.
  \<^item> \<open>ScaleRange\<close> (\<open>ranges.go\<close>), \<open>ScalingHandler\<close> (\<open>handlers/scaling.go\<close>); \<open>ConcurrentHandler\<close> has the scaling
    handler for any number of requests, each with the result of its own goroutine.

  \<^bold>\<open>Forwarding\<close> (packages \<open>handlers\<close>, \<open>middleware\<close>, \<open>types\<close>).
  \<^item> \<open>Middleware\<close> (\<open>pkg/middleware\<close>): names, namespaces and paths; the matcher of the function path is
    written as code and proved against the expression it stands for.
  \<^item> \<open>Notifiers\<close>: the metrics (\<open>metrics.go\<close>), the notifiers, and the writer that learns the status.
  \<^item> \<open>ForwardingProxy\<close> (\<open>forwarding_proxy.go\<close>, \<open>proxy_client.go\<close>): the upstream request, the answer,
    event streams, and the count of every call.
  \<^item> \<open>QueueProxy\<close> (\<open>queue_proxy.go\<close>, \<open>callid_middleware.go\<close>), \<open>Handlers\<close> (\<open>healthhandler.go\<close>,
    \<open>cors.go\<close>, \<open>infohandler.go\<close>, \<open>logs.go\<close>, \<open>requests/forward_request.go\<close>).
  \<^item> \<open>LogStream\<close> (\<open>logs.go\<close>): the copying goroutine and the \<open>select\<close> of the log handler, interleaved with the
    client that leaves and the deadline. Undisturbed, they refine the handler of \<open>Handlers\<close>.

  \<^bold>\<open>Metrics\<close> (package \<open>metrics\<close>).
  \<^item> \<open>AddMetrics\<close> (\<open>add_metrics.go\<close>, \<open>prometheus_query.go\<close>), \<open>Exporter\<close> (\<open>exporter.go\<close>): one tick of the
    watcher and one scrape. \<open>MetricsSetup\<close> (\<open>metrics.go\<close>, the rest of \<open>exporter.go\<close>, \<open>metadata_query.go\<close>): names,
    labels, registration, the watcher's loop. \<open>Scrapes\<close>: scrapes, ticks and calls at the same time, one
    operation on a vector after the other. \<open>ListedCounts\<close>: an invocation count from the notifier's label,
    through the sums of Prometheus, to the list of functions.

  \<^bold>\<open>The whole.\<close>
  \<^item> \<open>Config\<close> (\<open>types/readconfig.go\<close>, \<open>version\<close>), \<open>BasicAuth\<close> and \<open>Router\<close> (the vendored guard and
    router, as far as they are used), \<open>Gateway\<close> (\<open>main.go\<close>, \<open>types/handler_set.go\<close>): \<open>start\<close> turns an
    environment and what the program is linked with (record \<open>deps\<close>) into the handler that is served. A
    locale of \<open>Router\<close> states what a table of guarded routes promises; \<open>Gateway\<close> interprets it on its routes.
    \<open>Serving\<close> has the two HTTP servers and the exporter that \<open>main\<close> starts.
  \<^item> \<open>ProviderTexts\<close>: what the provider sends, spelled as JSON with the documented keys and not by the decoders of
    the model, and what is asked of a provider: \<open>keeps_functions\<close> (each function answers at its own path and
    namespace, and a scale request changes its own count only) and \<open>lists_functions\<close>.
  \<^item> \<open>JsonFlows\<close>: components with the texts they exchange. The scale endpoint on JSON bodies; alerts in
    front of a provider that answers over HTTP; the list of functions with the counts from the text of Prometheus, which
    answers the gateway's query and no other (\<open>prometheus_answers\<close>: the sums of the labels that match the expression in
    it); the exporter on the provider's lists. \<open>GatewayFlows\<close>: the same for requests to the gateway as it was started, past router
    and guard: a scale request on its way to the provider, and from the text of an alert to the provider's count.

  \<^bold>\<open>Bounds and termination.\<close> No fuel is used: the loops are structural (\<open>retry_loop\<close> and \<open>poll_loop\<close> on
  the attempts left, whose number \<open>MaxPollCount\<close> and \<open>SetScaleRetries\<close> give) or have a measure
  (\<open>ReplaceAll\<close>, \<open>duration_sum\<close>, and the schedules of \<open>SingleFlight\<close>, \<open>FlightInv\<close> and \<open>LogStream\<close>). The watcher's
  loop, which never ends, is given by its first \<open>n\<close> ticks for every \<open>n\<close>.

  \<^bold>\<open>Parameters.\<close> Clocks, the network (a client is a function from requests to programs on an arbitrary
  world), the queue, the generator of call ids, the reader of the credentials'
  files, the file server, and the header rewriting of the library's reverse proxy. JSON is a parameter of the
  handlers, so that their properties hold for any codec; \<open>JsonCodecs\<close> has the library's, with these parameters
  left: the text of a decoding error, the reader of \<open>time.Time\<close>, the printer of the list of functions, and the
  texts of the info endpoint. Every property that has hypotheses about parameters has a witness with concrete ones.

  \<^bold>\<open>Conditions of the properties on texts.\<close> The provider is at an \<open>http\<close> URL with a plain host (and path). Alerts:
  one function without labels, names of letters, digits and \<open>-_.~\<close>. Counts in the list: namespaces without a dot,
  the first one of letters, digits and \<open>-\<close>, fewer than \<open>2 ^ 53\<close> calls. Lists of the exporter: namespaces in valid UTF-8, the
  provider's keys in the case of its interface, further keys of the types it documents.

  \<^bold>\<open>Not modelled.\<close> Sockets, and what \<open>net/http\<close> does with a server's time-outs and a transport's settings;
  a connection that breaks before a flush (the flush of the log stream does not report it; it is
  always taken to reach the client that is still there);
  the text format of the Prometheus library and its handler; log lines other than the forwarding
  notifier's; the queue's own code (NATS); a panic inside the function of \<open>single.go\<close>; a client that leaves
  while a call is forwarded; URLs with user information or a fragment, which the URL parser here does
  not accept; Go's checks of UTF-8 outside JSON; of JSON, the old elements of a slice that come back
  when a key with an array is repeated twice; interfaces that only name methods of types which are modelled.
  Concurrency is modelled where handlers share state of the gateway: the cache and the single flight, the metrics and the exporter, the log stream.
\<close>

end
